(* ===== verification/Prelude.thy ===== *)
theory Prelude
  imports Main "HOL-Library.Word" "HOL-Library.Monad_Syntax"
begin

text \<open>
  Shared vocabulary of the development: the machine integer types of the kernel, Rust's
  checked arithmetic on \<open>usize\<close>, little-endian byte encodings of the packed structures
  that are copied to and from disk, and the list lemmas about overwriting a window of a
  buffer (the model of \<open>core::ptr::copy_nonoverlapping\<close> and \<open>write_bytes\<close>).

  Conventions used by every theory.  A \<open>usize\<close> that is an index, a size or a cluster
  number is a \<open>nat\<close>; fields that are stored with a fixed width are words.  The kernel is
  built with the debug profile, in which arithmetic overflow panics.  A function that may
  panic or run forever returns an \<open>option\<close> whose \<open>None\<close> means that the call does not
  return; Rust's own \<open>Option\<close> is then the \<open>option\<close> inside.
\<close>

unbundle bit_operations_syntax

named_theorems codec \<open>round trips of byte and character encodings\<close>
named_theorems layout \<open>lengths of encoded structures\<close>

type_synonym u8 = "8 word"
type_synonym u16 = "16 word"
type_synonym u32 = "32 word"
type_synonym u64 = "64 word"

type_synonym bytes = "u8 list"

section \<open>Checked arithmetic on usize\<close>

definition usize_bound :: nat where
  "usize_bound = 2 ^ 64"

definition checked_add :: "nat \<Rightarrow> nat \<Rightarrow> nat option" where
  "checked_add a b = (if a + b < usize_bound then Some (a + b) else None)"

definition checked_sub :: "nat \<Rightarrow> nat \<Rightarrow> nat option" where
  "checked_sub a b = (if b \<le> a then Some (a - b) else None)"

definition checked_mul :: "nat \<Rightarrow> nat \<Rightarrow> nat option" where
  "checked_mul a b = (if a * b < usize_bound then Some (a * b) else None)"

lemma checked_add_Some_iff [simp]:
  "checked_add a b = Some c \<longleftrightarrow> c = a + b \<and> a + b < usize_bound"
  by (auto simp: checked_add_def)

lemma checked_sub_Some_iff [simp]:
  "checked_sub a b = Some c \<longleftrightarrow> b \<le> a \<and> c = a - b"
  by (auto simp: checked_sub_def)

lemma checked_mul_Some_iff [simp]:
  "checked_mul a b = Some c \<longleftrightarrow> c = a * b \<and> a * b < usize_bound"
  by (auto simp: checked_mul_def)

section \<open>Little-endian encodings\<close>

definition le16 :: "u16 \<Rightarrow> bytes" where
  "le16 w = [ucast w, ucast (drop_bit 8 w)]"

definition le32 :: "u32 \<Rightarrow> bytes" where
  "le32 w = [ucast w, ucast (drop_bit 8 w), ucast (drop_bit 16 w), ucast (drop_bit 24 w)]"

definition of_le16 :: "u8 \<Rightarrow> u8 \<Rightarrow> u16" where
  "of_le16 a b = ucast a OR push_bit 8 (ucast b)"

definition of_le32 :: "u8 \<Rightarrow> u8 \<Rightarrow> u8 \<Rightarrow> u8 \<Rightarrow> u32" where
  "of_le32 a b c d =
     ucast a OR push_bit 8 (ucast b) OR push_bit 16 (ucast c) OR push_bit 24 (ucast d)"

definition of_le64 :: "u8 \<Rightarrow> u8 \<Rightarrow> u8 \<Rightarrow> u8 \<Rightarrow> u8 \<Rightarrow> u8 \<Rightarrow> u8 \<Rightarrow> u8 \<Rightarrow> u64" where
  "of_le64 a b c d e f g h =
     ucast (of_le32 a b c d) OR push_bit 32 (ucast (of_le32 e f g h))"

lemma length_le [simp, layout]: "length (le16 w) = 2" "length (le32 v) = 4"
  by (simp_all add: le16_def le32_def)

lemma of_le16_le16 [simp, codec]: "of_le16 (ucast w) (ucast (drop_bit 8 w)) = w"
  unfolding of_le16_def
  by (rule bit_word_eqI) (auto simp: bit_or_iff bit_push_bit_iff bit_ucast_iff bit_drop_bit_eq)

lemma le16_of_le16 [simp, codec]: "le16 (of_le16 a b) = [a, b]"
proof -
  have "ucast (of_le16 a b) = a"
    unfolding of_le16_def
    by (rule bit_word_eqI) (auto simp: bit_or_iff bit_push_bit_iff bit_ucast_iff)
  moreover have "ucast (drop_bit 8 (of_le16 a b)) = b"
    unfolding of_le16_def
    by (rule bit_word_eqI)
       (auto simp: bit_or_iff bit_push_bit_iff bit_ucast_iff bit_drop_bit_eq dest: bit_imp_le_length)
  ultimately show ?thesis by (simp add: le16_def)
qed

lemma of_le32_le32 [simp, codec]:
  "of_le32 (ucast w) (ucast (drop_bit 8 w)) (ucast (drop_bit 16 w)) (ucast (drop_bit 24 w)) = w"
  unfolding of_le32_def
proof (rule bit_word_eqI)
  fix n
  assume n: "n < LENGTH(32)"
  consider "n < 8" | "8 \<le> n" "n < 16" | "16 \<le> n" "n < 24" | "24 \<le> n" by linarith
  then show "bit (ucast (ucast w :: u8) OR push_bit 8 (ucast (ucast (drop_bit 8 w) :: u8)) OR
      push_bit 16 (ucast (ucast (drop_bit 16 w) :: u8)) OR
      push_bit 24 (ucast (ucast (drop_bit 24 w) :: u8)) :: u32) n = bit w n"
    using n
    by cases (auto simp: bit_or_iff bit_push_bit_iff bit_ucast_iff bit_drop_bit_eq)
qed

lemma le32_of_le32 [simp, codec]: "le32 (of_le32 a b c d) = [a, b, c, d]"
proof -
  have "ucast (of_le32 a b c d) = a"
    unfolding of_le32_def
    by (rule bit_word_eqI) (auto simp: bit_or_iff bit_push_bit_iff bit_ucast_iff)
  moreover have "ucast (drop_bit 8 (of_le32 a b c d)) = b"
    unfolding of_le32_def
    by (rule bit_word_eqI)
       (auto simp: bit_or_iff bit_push_bit_iff bit_ucast_iff bit_drop_bit_eq dest: bit_imp_le_length)
  moreover have "ucast (drop_bit 16 (of_le32 a b c d)) = c"
    unfolding of_le32_def
    by (rule bit_word_eqI)
       (auto simp: bit_or_iff bit_push_bit_iff bit_ucast_iff bit_drop_bit_eq dest: bit_imp_le_length)
  moreover have "ucast (drop_bit 24 (of_le32 a b c d)) = d"
    unfolding of_le32_def
    by (rule bit_word_eqI)
       (auto simp: bit_or_iff bit_push_bit_iff bit_ucast_iff bit_drop_bit_eq dest: bit_imp_le_length)
  ultimately show ?thesis by (simp add: le32_def)
qed

text \<open>Reading a run of byte pairs as 16-bit units.\<close>

fun units_of_bytes :: "bytes \<Rightarrow> u16 list" where
  "units_of_bytes (a # b # r) = of_le16 a b # units_of_bytes r"
| "units_of_bytes _ = []"

lemma units_of_bytes_concat [simp, codec]: "units_of_bytes (concat (map le16 us)) = us"
  by (induction us) (auto simp: le16_def)

lemma units_of_bytes_append_le16:
  "units_of_bytes (concat (map le16 us) @ bs) = us @ units_of_bytes bs"
  by (induction us) (auto simp: le16_def)

lemma length_concat_le16 [simp, layout]: "length (concat (map le16 us)) = 2 * length us"
  by (induction us) auto

lemma length_units_of_bytes: "length (units_of_bytes bs) = length bs div 2"
  by (induction bs rule: units_of_bytes.induct) auto

section \<open>Overwriting a window of a buffer\<close>

text \<open>
  \<open>overwrite buf off xs\<close> is the buffer after \<open>copy_nonoverlapping\<close> of \<open>xs\<close> to offset
  \<open>off\<close>.  The source guards every such copy by a bound on \<open>off + length xs\<close>; under that
  bound the length of the buffer does not change.
\<close>

definition overwrite :: "'a list \<Rightarrow> nat \<Rightarrow> 'a list \<Rightarrow> 'a list" where
  "overwrite buf off xs = take off buf @ xs @ drop (off + length xs) buf"

lemma length_overwrite [simp]:
  "off + length xs \<le> length buf \<Longrightarrow> length (overwrite buf off xs) = length buf"
  by (simp add: overwrite_def)

lemma overwrite_same [simp]:
  "off + length xs \<le> length buf \<Longrightarrow>
     take (length xs) (drop off (overwrite buf off xs)) = xs"
  by (simp add: overwrite_def)

lemma take_overwrite [simp]:
  "n \<le> off \<Longrightarrow> off \<le> length buf \<Longrightarrow> take n (overwrite buf off xs) = take n buf"
  by (simp add: overwrite_def min_def)

lemma drop_overwrite [simp]:
  "off + length xs \<le> n \<Longrightarrow> off \<le> length buf \<Longrightarrow> drop n (overwrite buf off xs) = drop n buf"
  by (simp add: overwrite_def min_def)

lemma overwrite_all [simp]: "length xs = length buf \<Longrightarrow> overwrite buf 0 xs = xs"
  by (simp add: overwrite_def)

lemma overwrite_nil [simp]: "off \<le> length buf \<Longrightarrow> overwrite buf off [] = buf"
  by (simp add: overwrite_def)

lemma overwrite_append: "length a = off \<Longrightarrow> overwrite (a @ b) off xs = a @ overwrite b 0 xs"
  by (simp add: overwrite_def)

lemma overwrite_append_left:
  "off + length xs \<le> length a \<Longrightarrow> overwrite (a @ b) off xs = overwrite a off xs @ b"
  by (simp add: overwrite_def)

lemma overwrite_append_right:
  "overwrite (a @ b) (length a + off) xs = a @ overwrite b off xs"
  by (simp add: overwrite_def)

lemma overwrite_split:
  assumes "off + k = length a" "k \<le> length xs"
  shows "overwrite (a @ b) off xs = overwrite a off (take k xs) @ overwrite b 0 (drop k xs)"
proof -
  have "off + length xs - length a = length xs - k" using assms by simp
  then have "overwrite (a @ b) off xs = take off a @ (take k xs @ drop k xs) @ drop (length xs - k) b"
    using assms by (simp add: overwrite_def)
  also have "\<dots> = overwrite a off (take k xs) @ overwrite b 0 (drop k xs)"
    using assms by (simp add: overwrite_def)
  finally show ?thesis .
qed

lemma nth_overwrite:
  assumes "off + length xs \<le> length buf" "i < length buf"
  shows "overwrite buf off xs ! i =
    (if off \<le> i \<and> i < off + length xs then xs ! (i - off) else buf ! i)"
  using assms by (auto simp: overwrite_def nth_append min_def)

text \<open>A buffer seen as consecutive chunks of equal size.\<close>

lemma take_drop_append_chunk:
  "length (concat (map f xs)) = k \<Longrightarrow> length c = n \<Longrightarrow>
     take n (drop k (concat (map f xs) @ c @ ys)) = c"
  by simp

lemma length_concat_const:
  "(\<forall>x \<in> set xs. length (f x) = n) \<Longrightarrow> length (concat (map f xs)) = n * length xs"
  by (induction xs) auto

lemma concat_chunk:
  assumes "\<forall>x \<in> set xs. length (f x) = n" "i < length xs"
  shows "take n (drop (i * n) (concat (map f xs))) = f (xs ! i)"
  using assms
proof (induction xs arbitrary: i)
  case (Cons x xs)
  then show ?case by (cases i) auto
qed simp

lemma concat_take_drop_chunks:
  "length b = n * k \<Longrightarrow> concat (map (\<lambda>i. take k (drop (i * k) b)) [0..<n]) = b"
proof (induction n arbitrary: b)
  case (Suc n)
  have "concat (map (\<lambda>i. take k (drop (i * k) b)) [0..<n])
      = concat (map (\<lambda>i. take k (drop (i * k) (take (n * k) b))) [0..<n])"
  proof (intro arg_cong [where f = concat] map_cong refl)
    fix i
    assume "i \<in> set [0..<n]"
    then have "Suc i * k \<le> n * k" by (intro mult_le_mono1) simp
    then show "take k (drop (i * k) b) = take k (drop (i * k) (take (n * k) b))"
      by (simp add: drop_take add.commute)
  qed
  also have "\<dots> = take (n * k) b" by (rule Suc.IH) (use Suc.prems in simp)
  finally show ?case using Suc.prems by simp
qed simp

section \<open>Searching\<close>

lemma find_Some_iff_nth:
  "List.find P xs = Some x \<longleftrightarrow>
     (\<exists>i < length xs. xs ! i = x \<and> P x \<and> (\<forall>j < i. \<not> P (xs ! j)))"
  by (auto simp: find_Some_iff)

lemma find_upt_Some:
  "List.find P [a..<b] = Some x \<longleftrightarrow> a \<le> x \<and> x < b \<and> P x \<and> (\<forall>y. a \<le> y \<and> y < x \<longrightarrow> \<not> P y)"
proof
  assume "List.find P [a..<b] = Some x"
  then obtain i where i: "i < b - a" "x = a + i" "P x" "\<forall>j < i. \<not> P (a + j)"
    by (auto simp: find_Some_iff)
  then show "a \<le> x \<and> x < b \<and> P x \<and> (\<forall>y. a \<le> y \<and> y < x \<longrightarrow> \<not> P y)"
    by (auto simp: le_iff_add)
next
  assume h: "a \<le> x \<and> x < b \<and> P x \<and> (\<forall>y. a \<le> y \<and> y < x \<longrightarrow> \<not> P y)"
  then show "List.find P [a..<b] = Some x"
    by (auto simp: find_Some_iff intro!: exI [of _ "x - a"])
qed

lemma find_upt_None: "List.find P [a..<b] = None \<longleftrightarrow> (\<forall>x. a \<le> x \<and> x < b \<longrightarrow> \<not> P x)"
  by (auto simp: find_None_iff)

section \<open>Rounding addresses\<close>

text \<open>\<open>addr & !mask\<close> on \<open>usize\<close>.\<close>

definition and_not :: "nat \<Rightarrow> nat \<Rightarrow> nat" where
  "and_not a m = unat ((of_nat a :: u64) AND NOT (of_nat m))"

lemma and_not_mask:
  assumes "a < usize_bound" "k \<le> 64"
  shows "and_not a (2 ^ k - 1) = a - a mod 2 ^ k"
proof -
  let ?w = "of_nat a :: u64"
  have m: "(of_nat (2 ^ k - 1) :: u64) = mask k" by (simp add: mask_eq_exp_minus_1 of_nat_diff)
  have "?w AND NOT (mask k) = push_bit k (drop_bit k ?w)"
    by (rule bit_word_eqI) (auto simp: bit_and_iff bit_not_iff bit_mask_iff bit_push_bit_iff bit_drop_bit_eq)
  moreover have u: "unat ?w = a" "take_bit 64 a = a"
    using assms(1) by (simp_all add: unsigned_of_nat take_bit_nat_eq_self usize_bound_def)
  ultimately have "and_not a (2 ^ k - 1) = take_bit 64 (push_bit k (drop_bit k a))"
    unfolding and_not_def m by (simp add: unsigned_push_bit_eq unsigned_drop_bit_eq)
  then have "and_not a (2 ^ k - 1) = (a div 2 ^ k * 2 ^ k) mod 2 ^ 64"
    by (simp add: push_bit_eq_mult drop_bit_eq_div take_bit_eq_mod)
  also have "\<dots> = a div 2 ^ k * 2 ^ k"
    using assms(1) by (intro mod_less) (metis div_times_less_eq_dividend le_less_trans usize_bound_def)
  finally show ?thesis by (simp add: minus_mod_eq_div_mult)
qed

section \<open>Byte-addressed memory\<close>

text \<open>
  Memory as the code sees it through raw pointers: reading \<open>n\<close> bytes from an address and writing a
  byte string to it.
\<close>

type_synonym memory = "nat \<Rightarrow> u8"

definition mem_read :: "memory \<Rightarrow> nat \<Rightarrow> nat \<Rightarrow> bytes" where
  "mem_read m a n = map (\<lambda>i. m (a + i)) [0..<n]"

definition mem_write :: "memory \<Rightarrow> nat \<Rightarrow> bytes \<Rightarrow> memory" where
  "mem_write m a xs = (\<lambda>x. if a \<le> x \<and> x < a + length xs then xs ! (x - a) else m x)"

lemma length_mem_read [simp]: "length (mem_read m a n) = n"
  by (simp add: mem_read_def)

lemma nth_mem_read [simp]: "i < n \<Longrightarrow> mem_read m a n ! i = m (a + i)"
  by (simp add: mem_read_def)

lemma mem_write_Nil [simp]: "mem_write m a [] = m"
  by (rule ext) (auto simp: mem_write_def)

lemma mem_write_outside: "x < a \<or> a + length xs \<le> x \<Longrightarrow> mem_write m a xs x = m x"
  by (auto simp: mem_write_def)

lemma mem_read_write_same [simp]: "n = length xs \<Longrightarrow> mem_read (mem_write m a xs) a n = xs"
  by (auto simp: mem_write_def intro: nth_equalityI)

lemma mem_read_write_other:
  "b + n \<le> a \<or> a + length xs \<le> b \<Longrightarrow> mem_read (mem_write m a xs) b n = mem_read m b n"
  by (auto simp: mem_write_def intro!: nth_equalityI)

lemma mem_read_window:
  "off + n \<le> length xs \<Longrightarrow> mem_read (mem_write m a xs) (a + off) n = take n (drop off xs)"
  by (auto simp: mem_write_def intro!: nth_equalityI)

definition le64 :: "u64 \<Rightarrow> bytes" where
  "le64 w = map (\<lambda>i. ucast (drop_bit (8 * i) w)) [0..<8]"

lemma length_le64 [simp, layout]: "length (le64 w) = 8"
  by (simp add: le64_def)

text \<open>Little-endian numbers of any length, as the unsigned value of the bytes.\<close>

fun le_value :: "bytes \<Rightarrow> nat" where
  "le_value [] = 0"
| "le_value (b # bs) = unat b + 256 * le_value bs"

lemma le_value_bound: "le_value bs < 256 ^ length bs"
proof (induction bs)
  case (Cons b bs)
  have "unat b < 256" using unsigned_less [of b] by simp
  with Cons show ?case by simp
qed simp

lemma le_value_digits:
  "le_value (map (\<lambda>i. ucast (drop_bit (8 * i) (w :: u64))) [k..<k + n]) = unat w div 256 ^ k mod 256 ^ n"
proof (induction n arbitrary: k)
  case (Suc n)
  have "unat w < 2 ^ LENGTH(64)" by (rule unsigned_less)
  then have "take_bit 64 (unat w) = unat w" by (simp add: take_bit_nat_eq_self)
  then have "unat (drop_bit (8 * k) w) = drop_bit (8 * k) (unat w)"
    using unsigned_drop_bit_eq [of "8 * k" w, where ?'a = nat] by simp
  then have "unat (drop_bit (8 * k) w) = unat w div 256 ^ k" by (simp add: drop_bit_eq_div power_mult)
  then have "unat (ucast (drop_bit (8 * k) w) :: u8) = unat w div 256 ^ k mod 256"
    by (simp add: unsigned_ucast_eq take_bit_eq_mod)
  moreover have "[k..<k + Suc n] = k # [Suc k..<Suc k + n]" by (simp add: upt_conv_Cons del: upt_Suc)
  ultimately have "le_value (map (\<lambda>i. ucast (drop_bit (8 * i) w)) [k..<k + Suc n])
      = unat w div 256 ^ k mod 256 + 256 * (unat w div 256 ^ Suc k mod 256 ^ n)"
    using Suc [of "Suc k"] by simp
  also have "unat w div 256 ^ Suc k = unat w div 256 ^ k div 256"
    unfolding power_Suc2 by (rule div_mult2_eq)
  also have "x mod 256 + 256 * (x div 256 mod 256 ^ n) = x mod 256 ^ Suc n" for x :: nat
    using mod_mult2_eq [of x 256 "256 ^ n"] by simp
  finally show ?case .
qed simp

lemma le_value_le64 [simp, codec]: "le_value (le64 w) = unat w"
proof -
  have "unat w < 2 ^ LENGTH(64)" by (rule unsigned_less)
  then show ?thesis using le_value_digits [of w 0 8] by (simp add: le64_def)
qed

lemma le_value_le16 [simp, codec]: "le_value (le16 w) = unat w"
proof -
  have e: "le16 w = map (\<lambda>i. ucast (drop_bit (8 * i) (ucast w :: u64))) [0..<0 + 2]"
    by (simp add: le16_def numeral_2_eq_2) (auto intro!: bit_word_eqI simp: bit_ucast_iff bit_drop_bit_eq)
  have w: "unat w < 2 ^ LENGTH(16)" by (rule unsigned_less)
  then have "unat (ucast w :: u64) = unat w" by (simp add: unsigned_ucast_eq take_bit_nat_eq_self)
  then show ?thesis using w unfolding e le_value_digits by simp
qed

lemma le_value_le32 [simp, codec]: "le_value (le32 v) = unat v"
proof -
  have e: "le32 v = map (\<lambda>i. ucast (drop_bit (8 * i) (ucast v :: u64))) [0..<0 + 4]"
    by (simp add: le32_def upt_rec) (auto intro!: bit_word_eqI simp: bit_ucast_iff bit_drop_bit_eq)
  have v: "unat v < 2 ^ LENGTH(32)" by (rule unsigned_less)
  then have "unat (ucast v :: u64) = unat v" by (simp add: unsigned_ucast_eq take_bit_nat_eq_self)
  then show ?thesis using v unfolding e le_value_digits by simp
qed

end
