(* ===== verification/Rust_Str.thy ===== *)
theory Rust_Str
  imports Prelude
begin

text \<open>
  Rust's \<open>char\<close> and \<open>str\<close>, and the parts of the standard library the kernel uses on
  them.  A \<open>str\<close> is the list of its code points; its bytes are \<open>to_utf8\<close>.  Strict
  UTF-8 validation (\<open>core::str::from_utf8\<close>), UTF-16 coding (\<open>encode_utf16\<close>,
  \<open>char::decode_utf16\<close>), ASCII case folding, trimming and splitting are modelled in
  full.  The Unicode case tables are parameters: \<open>to_uppercase\<close> and
  \<open>to_lowercase\<close> take the table-driven function that is used as soon as a non-ASCII
  character occurs.

  The lemmas show that UTF-8 and UTF-16 coding are lossless on Unicode scalar values and
  that decoders only produce scalar values.
\<close>

type_synonym ustr = "nat list"

definition is_char :: "nat \<Rightarrow> bool" where
  "is_char c \<longleftrightarrow> c < 0xD800 \<or> (0xE000 \<le> c \<and> c < 0x110000)"

definition is_str :: "ustr \<Rightarrow> bool" where
  "is_str s \<longleftrightarrow> list_all is_char s"

definition lit :: "string \<Rightarrow> ustr" where
  "lit s = map of_char s"

section \<open>UTF-8\<close>

definition utf8_char :: "nat \<Rightarrow> bytes" where
  "utf8_char c =
     (if c < 0x80 then [of_nat c]
      else if c < 0x800 then [of_nat (0xC0 + c div 64), of_nat (0x80 + c mod 64)]
      else if c < 0x10000 then
        [of_nat (0xE0 + c div 4096), of_nat (0x80 + c div 64 mod 64), of_nat (0x80 + c mod 64)]
      else
        [of_nat (0xF0 + c div 262144), of_nat (0x80 + c div 4096 mod 64),
         of_nat (0x80 + c div 64 mod 64), of_nat (0x80 + c mod 64)])"

definition to_utf8 :: "ustr \<Rightarrow> bytes" where
  "to_utf8 s = concat (map utf8_char s)"

definition is_cont :: "u8 \<Rightarrow> bool" where
  "is_cont b \<longleftrightarrow> 0x80 \<le> unat b \<and> unat b < 0xC0"

fun from_utf8 :: "bytes \<Rightarrow> ustr option" where
  "from_utf8 [] = Some []"
| "from_utf8 (a # r) =
    (if unat a < 0x80 then map_option (Cons (unat a)) (from_utf8 r)
     else if 0xC0 \<le> unat a \<and> unat a < 0xE0 then
       (case r of
          b # r' \<Rightarrow>
            (let v = (unat a - 0xC0) * 64 + (unat b - 0x80)
             in if is_cont b \<and> 0x80 \<le> v then map_option (Cons v) (from_utf8 r') else None)
        | _ \<Rightarrow> None)
     else if 0xE0 \<le> unat a \<and> unat a < 0xF0 then
       (case r of
          b # c # r' \<Rightarrow>
            (let v = (unat a - 0xE0) * 4096 + (unat b - 0x80) * 64 + (unat c - 0x80)
             in if is_cont b \<and> is_cont c \<and> 0x800 \<le> v \<and> is_char v
                then map_option (Cons v) (from_utf8 r') else None)
        | _ \<Rightarrow> None)
     else if 0xF0 \<le> unat a \<and> unat a < 0xF8 then
       (case r of
          b # c # d # r' \<Rightarrow>
            (let v = (unat a - 0xF0) * 262144 + (unat b - 0x80) * 4096
                     + (unat c - 0x80) * 64 + (unat d - 0x80)
             in if is_cont b \<and> is_cont c \<and> is_cont d \<and> 0x10000 \<le> v \<and> v < 0x110000
                then map_option (Cons v) (from_utf8 r') else None)
        | _ \<Rightarrow> None)
     else None)"

definition str_len :: "ustr \<Rightarrow> nat" where
  "str_len s = length (to_utf8 s)"

lemma unat_of_nat_u8: "n < 256 \<Longrightarrow> unat (of_nat n :: u8) = n"
  by (simp add: unat_of_nat)

lemma unat_of_nat_u16: "n < 65536 \<Longrightarrow> unat (of_nat n :: u16) = n"
  by (simp add: unat_of_nat)

lemma from_utf8_char2:
  assumes c: "0x80 \<le> c" "c < 0x800"
  shows "from_utf8 (utf8_char c @ r) = map_option (Cons c) (from_utf8 r)"
proof -
  define q m where "q = c div 64" and "m = c mod 64"
  then have b: "2 \<le> q" "q < 32" "m < 64" and e: "c = q * 64 + m" using c by auto
  have x: "utf8_char c = [of_nat (0xC0 + q), of_nat (0x80 + m)]"
    using c by (simp add: utf8_char_def q_def m_def)
  have y: "unat (of_nat (0xC0 + q) :: u8) = 0xC0 + q" "unat (of_nat (0x80 + m) :: u8) = 0x80 + m"
    using b by (simp_all only: unat_of_nat_u8)
  show ?thesis unfolding x using b
    by (simp add: y is_cont_def e del: of_nat_add)
qed

lemma from_utf8_char3:
  assumes c: "0x800 \<le> c" "c < 0x10000" and "is_char c"
  shows "from_utf8 (utf8_char c @ r) = map_option (Cons c) (from_utf8 r)"
proof -
  define q k m where "q = c div 4096" and "k = c div 64 mod 64" and "m = c mod 64"
  then have b: "q < 16" "k < 64" "m < 64" using c by auto
  have "c = c div 64 * 64 + m" unfolding m_def by (rule div_mult_mod_eq [symmetric])
  moreover have "c div 64 = c div 64 div 64 * 64 + k"
    unfolding k_def by (rule div_mult_mod_eq [symmetric])
  moreover have "c div 64 div 64 = q" by (simp add: q_def flip: div_mult2_eq)
  ultimately have e: "q * 4096 + k * 64 + m = c" by linarith
  have x: "utf8_char c = [of_nat (0xE0 + q), of_nat (0x80 + k), of_nat (0x80 + m)]"
    using c by (simp add: utf8_char_def q_def k_def m_def)
  have y: "unat (of_nat (0xE0 + q) :: u8) = 0xE0 + q" "unat (of_nat (0x80 + k) :: u8) = 0x80 + k"
    "unat (of_nat (0x80 + m) :: u8) = 0x80 + m"
    using b by (simp_all only: unat_of_nat_u8)
  show ?thesis unfolding x using b assms
    by (simp add: y is_cont_def e del: of_nat_add)
qed

lemma from_utf8_char4:
  assumes c: "0x10000 \<le> c" "c < 0x110000"
  shows "from_utf8 (utf8_char c @ r) = map_option (Cons c) (from_utf8 r)"
proof -
  define q l k m where "q = c div 262144" and "l = c div 4096 mod 64"
    and "k = c div 64 mod 64" and "m = c mod 64"
  then have b: "q < 8" "l < 64" "k < 64" "m < 64" using c by auto
  have "c = c div 64 * 64 + m" unfolding m_def by (rule div_mult_mod_eq [symmetric])
  moreover have "c div 64 = c div 64 div 64 * 64 + k"
    unfolding k_def by (rule div_mult_mod_eq [symmetric])
  moreover have "c div 4096 = c div 4096 div 64 * 64 + l"
    unfolding l_def by (rule div_mult_mod_eq [symmetric])
  moreover have "c div 64 div 64 = c div 4096" "c div 4096 div 64 = q"
    by (simp_all add: q_def flip: div_mult2_eq)
  ultimately have e: "q * 262144 + l * 4096 + k * 64 + m = c" by linarith
  have x: "utf8_char c = [of_nat (0xF0 + q), of_nat (0x80 + l), of_nat (0x80 + k), of_nat (0x80 + m)]"
    using c by (simp add: utf8_char_def q_def l_def k_def m_def)
  have y: "unat (of_nat (0xF0 + q) :: u8) = 0xF0 + q" "unat (of_nat (0x80 + l) :: u8) = 0x80 + l"
    "unat (of_nat (0x80 + k) :: u8) = 0x80 + k" "unat (of_nat (0x80 + m) :: u8) = 0x80 + m"
    using b by (simp_all only: unat_of_nat_u8)
  show ?thesis unfolding x using b assms
    by (simp add: y is_cont_def e del: of_nat_add)
qed

lemma from_utf8_char:
  assumes "is_char c"
  shows "from_utf8 (utf8_char c @ r) = map_option (Cons c) (from_utf8 r)"
proof -
  consider "c < 0x80" | "0x80 \<le> c" "c < 0x800" | "0x800 \<le> c" "c < 0x10000"
    | "0x10000 \<le> c" "c < 0x110000"
    using assms by (force simp: is_char_def)
  then show ?thesis
  proof cases
    case 1
    then show ?thesis by (simp add: utf8_char_def unat_of_nat_u8)
  qed (use assms in \<open>simp_all add: from_utf8_char2 from_utf8_char3 from_utf8_char4\<close>)
qed

lemma from_utf8_to_utf8 [simp, codec]: "is_str s \<Longrightarrow> from_utf8 (to_utf8 s) = Some s"
  by (induction s) (auto simp: is_str_def to_utf8_def from_utf8_char)

lemma from_utf8_is_str: "from_utf8 bs = Some s \<Longrightarrow> is_str s"
proof (induction bs arbitrary: s rule: from_utf8.induct)
  case 1
  then show ?case by (simp add: is_str_def)
next
  case (2 a r)
  then show ?case
    by (auto simp: is_str_def is_char_def is_cont_def Let_def split: if_splits list.splits)
qed

lemma from_utf8_ascii:
  "list_all (\<lambda>b. unat b < 0x80) bs \<Longrightarrow> from_utf8 bs = Some (map unat bs)"
  by (induction bs) auto

section \<open>UTF-16\<close>

definition utf16_char :: "nat \<Rightarrow> u16 list" where
  "utf16_char c =
     (if c < 0x10000 then [of_nat c]
      else [of_nat (0xD800 + (c - 0x10000) div 1024), of_nat (0xDC00 + (c - 0x10000) mod 1024)])"

definition encode_utf16 :: "ustr \<Rightarrow> u16 list" where
  "encode_utf16 s = concat (map utf16_char s)"

text \<open>An unpaired surrogate is the \<open>Err\<close> item of \<open>char::decode_utf16\<close>, here \<open>None\<close>.\<close>

fun decode_utf16 :: "u16 list \<Rightarrow> nat option list" where
  "decode_utf16 [] = []"
| "decode_utf16 (u # r) =
     (if unat u < 0xD800 \<or> 0xE000 \<le> unat u then Some (unat u) # decode_utf16 r
      else if 0xDC00 \<le> unat u then None # decode_utf16 r
      else (case r of
              [] \<Rightarrow> [None]
            | v # r' \<Rightarrow>
                (if unat v < 0xDC00 \<or> 0xE000 \<le> unat v then None # decode_utf16 r
                 else Some (0x10000 + (unat u - 0xD800) * 1024 + (unat v - 0xDC00))
                        # decode_utf16 r')))"

lemma decode_utf16_char:
  assumes "is_char c"
  shows "decode_utf16 (utf16_char c @ r) = Some c # decode_utf16 r"
proof (cases "c < 0x10000")
  case True
  with assms show ?thesis by (auto simp: utf16_char_def is_char_def unat_of_nat_u16)
next
  case False
  with assms have "(c - 0x10000) div 1024 < 1024" "(c - 0x10000) mod 1024 < 1024"
    by (auto simp: is_char_def)
  moreover from False have "0x10000 + (c - 0x10000) div 1024 * 1024 + (c - 0x10000) mod 1024 = c"
    by (simp add: add.assoc)
  ultimately show ?thesis using False
    by (simp add: utf16_char_def unat_of_nat_u16 del: of_nat_add)
qed

lemma decode_utf16_encode [simp, codec]:
  "is_str s \<Longrightarrow> decode_utf16 (encode_utf16 s) = map Some s"
  by (induction s) (auto simp: is_str_def encode_utf16_def decode_utf16_char)

lemma utf16_char_nonzero:
  "is_char c \<Longrightarrow> c \<noteq> 0 \<Longrightarrow> 0 \<notin> set (utf16_char c)"
proof -
  assume c: "is_char c" "c \<noteq> 0"
  have "unat u \<noteq> 0" if "u \<in> set (utf16_char c)" for u
    using c that by (auto simp: utf16_char_def is_char_def unat_of_nat_u16 simp del: of_nat_add split: if_splits)
  then show ?thesis by force
qed

lemma length_utf16_char: "length (utf16_char c) = (if c < 0x10000 then 1 else 2)"
  by (simp add: utf16_char_def)

lemma encode_utf16_Nil [simp]: "encode_utf16 s = [] \<longleftrightarrow> s = []"
  by (cases s) (auto simp: encode_utf16_def utf16_char_def)

section \<open>ASCII case, trimming, splitting\<close>

definition is_ascii :: "ustr \<Rightarrow> bool" where
  "is_ascii s \<longleftrightarrow> list_all (\<lambda>c. c < 0x80) s"

definition to_ascii_uppercase :: "nat \<Rightarrow> nat" where
  "to_ascii_uppercase c = (if 97 \<le> c \<and> c \<le> 122 then c - 32 else c)"

definition to_ascii_lowercase :: "nat \<Rightarrow> nat" where
  "to_ascii_lowercase c = (if 65 \<le> c \<and> c \<le> 90 then c + 32 else c)"

text \<open>\<open>str::to_uppercase\<close> and \<open>str::to_lowercase\<close> over the Unicode tables \<open>uc\<close>, \<open>lc\<close>.\<close>

definition to_uppercase :: "(ustr \<Rightarrow> ustr) \<Rightarrow> ustr \<Rightarrow> ustr" where
  "to_uppercase uc s = (if is_ascii s then map to_ascii_uppercase s else uc s)"

definition to_lowercase :: "(ustr \<Rightarrow> ustr) \<Rightarrow> ustr \<Rightarrow> ustr" where
  "to_lowercase lc s = (if is_ascii s then map to_ascii_lowercase s else lc s)"

definition eq_ignore_ascii_case :: "ustr \<Rightarrow> ustr \<Rightarrow> bool" where
  "eq_ignore_ascii_case s t \<longleftrightarrow> map to_ascii_lowercase s = map to_ascii_lowercase t"

lemma eq_ignore_ascii_case_refl [simp]: "eq_ignore_ascii_case s s"
  by (simp add: eq_ignore_ascii_case_def)

lemma to_ascii_case_inverse [simp]:
  "to_ascii_lowercase (to_ascii_uppercase c) = to_ascii_lowercase c"
  by (auto simp: to_ascii_lowercase_def to_ascii_uppercase_def)

lemma to_ascii_uppercase_idem [simp]:
  "to_ascii_uppercase (to_ascii_uppercase c) = to_ascii_uppercase c"
  by (auto simp: to_ascii_uppercase_def)

lemma to_ascii_lowercase_idem [simp]:
  "to_ascii_lowercase (to_ascii_lowercase c) = to_ascii_lowercase c"
  by (auto simp: to_ascii_lowercase_def)

lemma to_ascii_lt [simp]:
  "to_ascii_lowercase c < 0x80 \<longleftrightarrow> c < 0x80" "to_ascii_uppercase c < 0x80 \<longleftrightarrow> c < 0x80"
  by (auto simp: to_ascii_lowercase_def to_ascii_uppercase_def)

definition is_whitespace :: "nat \<Rightarrow> bool" where
  "is_whitespace c \<longleftrightarrow>
     (9 \<le> c \<and> c \<le> 13) \<or> c = 0x20 \<or> c = 0x85 \<or> c = 0xA0 \<or> c = 0x1680
     \<or> (0x2000 \<le> c \<and> c \<le> 0x200A) \<or> c = 0x2028 \<or> c = 0x2029 \<or> c = 0x202F \<or> c = 0x205F
     \<or> c = 0x3000"

definition trim_end :: "ustr \<Rightarrow> ustr" where
  "trim_end s = rev (dropWhile is_whitespace (rev s))"

definition trim :: "ustr \<Rightarrow> ustr" where
  "trim s = trim_end (dropWhile is_whitespace s)"

definition ends_with :: "ustr \<Rightarrow> nat \<Rightarrow> bool" where
  "ends_with s c \<longleftrightarrow> s \<noteq> [] \<and> last s = c"

text \<open>\<open>str::split\<close> by one character: always at least one part.\<close>

fun split_on :: "nat \<Rightarrow> ustr \<Rightarrow> ustr list" where
  "split_on d [] = [[]]"
| "split_on d (c # cs) =
     (if c = d then [] # split_on d cs
      else (case split_on d cs of
              [] \<Rightarrow> [[c]]
            | p # ps \<Rightarrow> (c # p) # ps))"

lemma split_on_ne [simp]: "split_on d s \<noteq> []"
  by (cases s) (auto split: list.splits)

lemma split_on_parts: "p \<in> set (split_on d s) \<Longrightarrow> d \<notin> set p"
proof (induction s arbitrary: p)
  case (Cons c cs)
  then show ?case by (auto split: if_splits list.splits)
qed simp

text \<open>Joining the parts with the separator gives the string back.\<close>

fun join_with :: "nat \<Rightarrow> ustr list \<Rightarrow> ustr" where
  "join_with d [] = []"
| "join_with d [p] = p"
| "join_with d (p # q # ps) = p @ d # join_with d (q # ps)"

lemma join_split [simp, codec]: "join_with d (split_on d s) = s"
proof (induction s)
  case (Cons c cs)
  obtain p ps where sp: "split_on d cs = p # ps"
    by (cases "split_on d cs") auto
  with Cons show ?case by (cases ps) auto
qed simp

lemma split_join:
  "ps \<noteq> [] \<Longrightarrow> (\<forall>p \<in> set ps. d \<notin> set p) \<Longrightarrow> split_on d (join_with d ps) = ps"
proof (induction ps rule: join_with.induct [of _ d])
  case (2 d p)
  then have "split_on d p = [p]"
    by (induction p) auto
  with 2 show ?case by simp
next
  case (3 d p q ps)
  have "split_on d (p @ d # r) = p # split_on d r" if "d \<notin> set p" for r
    using that by (induction p) auto
  with 3 show ?case by simp
qed simp

end
