(* ===== verification/Fat_Names.thy ===== *)
theory Fat_Names
  imports Rust_Str
begin

text \<open>
  The on-disk formats and the name codecs of \<open>src/fs/fat.rs\<close>: the two boot sector
  structures, short (8.3) and long directory entries with their packed 32-byte layout,
  the reinterpretation of one as the other, the long-name checksum, UTF-16 long names,
  and generated short aliases.

  The lemmas show: the byte layouts round-trip; a 13-unit chunk survives being packed into
  a long entry; long names decode to what was encoded; \<open>generate_short_alias\<close> returns a
  name that is not taken and succeeds unless the directory holds 999999 short names; the
  8.3 codec is inverse up to ASCII case.
\<close>

section \<open>Boot sector and directory entry structures\<close>

definition LFN_LAST_ENTRY_FLAG :: u8 where "LFN_LAST_ENTRY_FLAG = 0x40"
definition LFN_SEQUENCE_MASK :: u8 where "LFN_SEQUENCE_MASK = 0x3F"
definition LFN_UNITS_PER_ENTRY :: nat where "LFN_UNITS_PER_ENTRY = 13"
definition LFN_MAX_UNITS :: nat where "LFN_MAX_UNITS = 255"
definition LFN_MAX_ENTRIES :: nat where
  "LFN_MAX_ENTRIES = (LFN_MAX_UNITS + LFN_UNITS_PER_ENTRY - 1) div LFN_UNITS_PER_ENTRY"

lemmas lfn_consts = LFN_LAST_ENTRY_FLAG_def LFN_SEQUENCE_MASK_def LFN_UNITS_PER_ENTRY_def
  LFN_MAX_UNITS_def LFN_MAX_ENTRIES_def

record fat_boot_sector =
  bootjmp :: bytes
  oem_name :: bytes
  bytes_per_sector :: u16
  sectors_per_cluster :: u8
  reserved_sector_count :: u16
  table_count :: u8
  root_entry_count :: u16
  total_sectors_16 :: u16
  media_type :: u8
  table_size_16 :: u16
  sectors_per_track :: u16
  head_side_count :: u16
  hidden_sector_count :: u32
  total_sectors_32 :: u32

record fat32_extended_boot_sector =
  table_size :: u32
  extended_flags :: u16
  fat_version :: u16
  root_cluster :: u32
  fat_info :: u16
  backup_bs_sector :: u16
  reserved_0 :: bytes
  drive_number :: u8
  reserved_1 :: u8
  boot_signature :: u8
  volume_id :: u32
  volume_label :: bytes
  fat_type_label :: bytes

record directory_entry =
  de_name :: bytes
  de_attributes :: u8
  de_reserved :: u8
  de_creation_time_centiseconds :: u8
  de_creation_time :: u16
  de_creation_date :: u16
  de_last_accessed_date :: u16
  de_first_cluster_high :: u16
  de_modified_time :: u16
  de_modified_date :: u16
  de_first_cluster_low :: u16
  de_size :: u32

record long_directory_entry =
  lde_order :: u8
  lde_name1 :: bytes
  lde_attributes :: u8
  lde_entry_type :: u8
  lde_checksum :: u8
  lde_name2 :: bytes
  lde_first_cluster_low :: u16
  lde_name3 :: bytes

text \<open>\<open>[u8; 11]\<close>, \<open>[u8; 10]\<close>, \<open>[u8; 12]\<close> and \<open>[u8; 4]\<close> fields have their fixed lengths.\<close>

definition wf_dirent :: "directory_entry \<Rightarrow> bool" where
  "wf_dirent e \<longleftrightarrow> length (de_name e) = 11"

definition wf_lfn :: "long_directory_entry \<Rightarrow> bool" where
  "wf_lfn l \<longleftrightarrow> length (lde_name1 l) = 10 \<and> length (lde_name2 l) = 12 \<and> length (lde_name3 l) = 4"

section \<open>Packed layouts\<close>

text \<open>Reading fields at fixed offsets of a packed structure.\<close>

definition rd8 :: "bytes \<Rightarrow> nat \<Rightarrow> u8" where
  "rd8 bs i = bs ! i"

definition rd16 :: "bytes \<Rightarrow> nat \<Rightarrow> u16" where
  "rd16 bs i = of_le16 (bs ! i) (bs ! (i + 1))"

definition rd32 :: "bytes \<Rightarrow> nat \<Rightarrow> u32" where
  "rd32 bs i = of_le32 (bs ! i) (bs ! (i + 1)) (bs ! (i + 2)) (bs ! (i + 3))"

definition rdn :: "bytes \<Rightarrow> nat \<Rightarrow> nat \<Rightarrow> bytes" where
  "rdn bs i n = take n (drop i bs)"

definition fat_boot_sector_of :: "bytes \<Rightarrow> fat_boot_sector" where
  "fat_boot_sector_of b =
     \<lparr> bootjmp = rdn b 0 3, oem_name = rdn b 3 8, bytes_per_sector = rd16 b 11,
       sectors_per_cluster = rd8 b 13, reserved_sector_count = rd16 b 14,
       table_count = rd8 b 16, root_entry_count = rd16 b 17, total_sectors_16 = rd16 b 19,
       media_type = rd8 b 21, table_size_16 = rd16 b 22, sectors_per_track = rd16 b 24,
       head_side_count = rd16 b 26, hidden_sector_count = rd32 b 28,
       total_sectors_32 = rd32 b 32 \<rparr>"

definition fat32_extended_boot_sector_of :: "bytes \<Rightarrow> fat32_extended_boot_sector" where
  "fat32_extended_boot_sector_of b =
     \<lparr> table_size = rd32 b 0, extended_flags = rd16 b 4, fat_version = rd16 b 6,
       root_cluster = rd32 b 8, fat_info = rd16 b 12, backup_bs_sector = rd16 b 14,
       reserved_0 = rdn b 16 12, drive_number = rd8 b 28, reserved_1 = rd8 b 29,
       boot_signature = rd8 b 30, volume_id = rd32 b 31, volume_label = rdn b 35 11,
       fat_type_label = rdn b 46 8 \<rparr>"

definition dirent_bytes :: "directory_entry \<Rightarrow> bytes" where
  "dirent_bytes e =
     de_name e @ [de_attributes e, de_reserved e, de_creation_time_centiseconds e]
     @ le16 (de_creation_time e) @ le16 (de_creation_date e) @ le16 (de_last_accessed_date e)
     @ le16 (de_first_cluster_high e) @ le16 (de_modified_time e) @ le16 (de_modified_date e)
     @ le16 (de_first_cluster_low e) @ le32 (de_size e)"

definition dirent_of_bytes :: "bytes \<Rightarrow> directory_entry" where
  "dirent_of_bytes b =
     \<lparr> de_name = rdn b 0 11, de_attributes = rd8 b 11, de_reserved = rd8 b 12,
       de_creation_time_centiseconds = rd8 b 13, de_creation_time = rd16 b 14,
       de_creation_date = rd16 b 16, de_last_accessed_date = rd16 b 18,
       de_first_cluster_high = rd16 b 20, de_modified_time = rd16 b 22,
       de_modified_date = rd16 b 24, de_first_cluster_low = rd16 b 26, de_size = rd32 b 28 \<rparr>"

definition lfn_bytes :: "long_directory_entry \<Rightarrow> bytes" where
  "lfn_bytes l =
     [lde_order l] @ lde_name1 l @ [lde_attributes l, lde_entry_type l, lde_checksum l]
     @ lde_name2 l @ le16 (lde_first_cluster_low l) @ lde_name3 l"

definition lfn_of_bytes :: "bytes \<Rightarrow> long_directory_entry" where
  "lfn_of_bytes b =
     \<lparr> lde_order = rd8 b 0, lde_name1 = rdn b 1 10, lde_attributes = rd8 b 11,
       lde_entry_type = rd8 b 12, lde_checksum = rd8 b 13, lde_name2 = rdn b 14 12,
       lde_first_cluster_low = rd16 b 26, lde_name3 = rdn b 28 4 \<rparr>"

lemmas rd_defs = rd8_def rd16_def rd32_def rdn_def

section \<open>Directory entries\<close>

definition is_end_marker :: "directory_entry \<Rightarrow> bool" where
  "is_end_marker e \<longleftrightarrow> de_name e ! 0 = 0x00"

definition is_deleted :: "directory_entry \<Rightarrow> bool" where
  "is_deleted e \<longleftrightarrow> de_name e ! 0 = 0xE5"

definition mark_deleted :: "directory_entry \<Rightarrow> directory_entry" where
  "mark_deleted e = e\<lparr>de_name := (de_name e)[0 := 0xE5]\<rparr>"

definition is_long_filename :: "directory_entry \<Rightarrow> bool" where
  "is_long_filename e \<longleftrightarrow> de_attributes e AND 0x3F = 0x0F"

definition is_volume_label :: "directory_entry \<Rightarrow> bool" where
  "is_volume_label e \<longleftrightarrow> de_attributes e AND 0x08 \<noteq> 0"

definition is_normal_entry :: "directory_entry \<Rightarrow> bool" where
  "is_normal_entry e \<longleftrightarrow>
     \<not> is_end_marker e \<and> \<not> is_deleted e \<and> \<not> is_long_filename e \<and> \<not> is_volume_label e"

definition is_directory :: "directory_entry \<Rightarrow> bool" where
  "is_directory e \<longleftrightarrow> is_normal_entry e \<and> de_attributes e AND 0x10 \<noteq> 0"

definition is_regular_file :: "directory_entry \<Rightarrow> bool" where
  "is_regular_file e \<longleftrightarrow> is_normal_entry e \<and> \<not> is_directory e"

definition get_cluster :: "directory_entry \<Rightarrow> nat" where
  "get_cluster e =
     unat (push_bit 16 (ucast (de_first_cluster_high e)) OR ucast (de_first_cluster_low e) :: u32)"

definition set_cluster :: "directory_entry \<Rightarrow> nat \<Rightarrow> directory_entry" where
  "set_cluster e cluster =
     e\<lparr>de_first_cluster_high := of_nat (cluster div 2 ^ 16 mod 2 ^ 16),
       de_first_cluster_low := of_nat (cluster mod 2 ^ 16)\<rparr>"

section \<open>Long filename entries\<close>

definition lfn_new :: "u8 \<Rightarrow> bool \<Rightarrow> u8 \<Rightarrow> u16 list \<Rightarrow> long_directory_entry" where
  "lfn_new sequence last_chunk checksum units =
     (let padded = overwrite (replicate LFN_UNITS_PER_ENTRY 0xFFFF) 0 (take LFN_UNITS_PER_ENTRY units);
          padded = (if length units < LFN_UNITS_PER_ENTRY then padded[length units := 0x0000] else padded);
          order = (if last_chunk then sequence OR LFN_LAST_ENTRY_FLAG else sequence)
      in \<lparr> lde_order = order,
           lde_name1 = concat (map le16 (take 5 padded)),
           lde_attributes = 0x0F, lde_entry_type = 0, lde_checksum = checksum,
           lde_name2 = concat (map le16 (take 6 (drop 5 padded))),
           lde_first_cluster_low = 0,
           lde_name3 = concat (map le16 (drop 11 padded)) \<rparr>)"

definition from_directory_entry :: "directory_entry \<Rightarrow> long_directory_entry" where
  "from_directory_entry e = lfn_of_bytes (dirent_bytes e)"

definition to_directory_entry :: "long_directory_entry \<Rightarrow> directory_entry" where
  "to_directory_entry l = dirent_of_bytes (lfn_bytes l)"

definition lfn_sequence :: "long_directory_entry \<Rightarrow> u8" where
  "lfn_sequence l = lde_order l AND LFN_SEQUENCE_MASK"

definition lfn_is_last :: "long_directory_entry \<Rightarrow> bool" where
  "lfn_is_last l \<longleftrightarrow> lde_order l AND LFN_LAST_ENTRY_FLAG \<noteq> 0"

definition name_units :: "long_directory_entry \<Rightarrow> u16 list" where
  "name_units l =
     units_of_bytes (lde_name1 l) @ units_of_bytes (lde_name2 l) @ units_of_bytes (lde_name3 l)"

definition lfn_checksum :: "bytes \<Rightarrow> u8" where
  "lfn_checksum short_name = foldl (\<lambda>sum byte. word_rotr 1 sum + byte) 0 short_name"

section \<open>Long names\<close>

definition is_invalid_long_name_char :: "nat \<Rightarrow> bool" where
  "is_invalid_long_name_char c \<longleftrightarrow> c < 0x20 \<or> c \<in> {34, 42, 47, 58, 60, 62, 63, 92, 124}"

definition encode_long_filename :: "ustr \<Rightarrow> u16 list option" where
  "encode_long_filename filename =
     (if filename = [] \<or> filename = lit ''.'' \<or> filename = lit ''..''
         \<or> ends_with filename 32 \<or> ends_with filename 46
         \<or> list_ex is_invalid_long_name_char filename
      then None
      else (let units = encode_utf16 filename
            in if LFN_MAX_UNITS < length units then None else Some units))"

definition decode_long_filename :: "u16 list \<Rightarrow> ustr option" where
  "decode_long_filename units =
     (case those (decode_utf16 (takeWhile (\<lambda>u. u \<noteq> 0) units)) of
        None \<Rightarrow> None
      | Some name \<Rightarrow> if name = [] then None else Some name)"

section \<open>Short names\<close>

definition is_invalid_short_name_byte :: "u8 \<Rightarrow> bool" where
  "is_invalid_short_name_byte byte \<longleftrightarrow>
     byte \<le> 32 \<or> byte \<in> {34, 42, 43, 44, 47, 58, 59, 60, 61, 62, 63, 91, 92, 93, 124}"

fun sanitize_loop :: "nat \<Rightarrow> bytes \<Rightarrow> ustr \<Rightarrow> bytes" where
  "sanitize_loop max_len bs [] = bs"
| "sanitize_loop max_len bs (c # cs) =
     (if length bs = max_len then bs
      else if c = 32 \<or> c = 46 then sanitize_loop max_len bs cs
      else
        (let upper = to_ascii_uppercase c;
             byte = (if upper < 0x80 \<and> \<not> is_invalid_short_name_byte (of_nat upper)
                     then of_nat upper else 95)
         in sanitize_loop max_len (bs @ [byte]) cs))"

definition sanitize_short_component :: "ustr \<Rightarrow> nat \<Rightarrow> bytes" where
  "sanitize_short_component component max_len = sanitize_loop max_len [] component"

text \<open>The decimal digits of the numeric tail, least significant first.\<close>

fun tail_digits :: "nat \<Rightarrow> bytes" where
  "tail_digits remaining =
     (if 0 < remaining then of_nat (48 + remaining mod 10) # tail_digits (remaining div 10) else [])"

declare tail_digits.simps [simp del]

text \<open>
  The source fills a fixed array \<open>digits\<close> of six bytes and slices \<open>name[8..8 + ext.len()]\<close>;
  \<open>length_tail_digits\<close> and \<open>length_sanitize\<close> below show that no access is out of range for the
  arguments it is called with.
\<close>

definition compose_short_alias :: "bytes \<Rightarrow> bytes \<Rightarrow> nat \<Rightarrow> bytes" where
  "compose_short_alias base ext tail =
     (let digits = tail_digits tail;
          base_len = min (length base) (8 - 1 - length digits);
          name = replicate 11 32;
          name = overwrite name 0 (take base_len base);
          name = name[base_len := 126];
          name = overwrite name (base_len + 1) (rev digits)
      in overwrite name 8 ext)"

function alias_search :: "bytes \<Rightarrow> bytes \<Rightarrow> bytes list \<Rightarrow> nat \<Rightarrow> bytes option" where
  "alias_search base ext taken tail =
     (if tail \<le> 999999 then
        (let candidate = compose_short_alias base ext tail
         in if candidate \<notin> set taken then Some candidate
            else alias_search base ext taken (tail + 1))
      else None)"
  by pat_completeness auto
termination by (relation "measure (\<lambda>(_, _, _, tail). 1000000 - tail)") auto

declare alias_search.simps [simp del]

definition rfind :: "ustr \<Rightarrow> nat \<Rightarrow> nat option" where
  "rfind s c = List.find (\<lambda>i. s ! i = c) (rev [0..<length s])"

definition generate_short_alias :: "ustr \<Rightarrow> bytes list \<Rightarrow> bytes option" where
  "generate_short_alias filename taken =
     (let (base, ext) =
        (case rfind filename 46 of
           Some index \<Rightarrow>
             if index \<noteq> 0 then (take index filename, drop (index + 1) filename) else (filename, [])
         | None \<Rightarrow> (filename, []))
      in alias_search (sanitize_short_component base 8) (sanitize_short_component ext 3) taken 1)"

definition get_fat_filename :: "(ustr \<Rightarrow> ustr) \<Rightarrow> ustr \<Rightarrow> bytes option" where
  "get_fat_filename uc filename =
     (let name = to_uppercase uc (takeWhile (\<lambda>c. c \<noteq> 46) filename);
          ext = to_uppercase uc (drop 1 (dropWhile (\<lambda>c. c \<noteq> 46) filename))
      in if name = [] \<or> 8 < str_len name \<or> 3 < str_len ext
            \<or> 1 < length (filter (\<lambda>b. b = 46) (to_utf8 filename))
            \<or> \<not> is_ascii name \<or> \<not> is_ascii ext
            \<or> list_ex is_invalid_short_name_byte (to_utf8 name @ to_utf8 ext)
         then None
         else Some (overwrite (overwrite (replicate 11 32) 0 (take 8 (to_utf8 name)))
                      8 (take 3 (to_utf8 ext))))"

definition unwrap_str :: "ustr option \<Rightarrow> ustr" where
  "unwrap_str r = (case r of Some s \<Rightarrow> s | None \<Rightarrow> [])"

definition get_filename_from_fat :: "(ustr \<Rightarrow> ustr) \<Rightarrow> bytes \<Rightarrow> ustr" where
  "get_filename_from_fat lc filename =
     (let name = to_lowercase lc (trim_end (unwrap_str (from_utf8 (take 8 filename))));
          ext = to_lowercase lc (trim_end (unwrap_str (from_utf8 (take 3 (drop 8 filename)))))
      in if ext \<noteq> [] then name @ 46 # ext else name)"

section \<open>Layout lemmas\<close>

lemma length_dirent_bytes [simp, layout]: "wf_dirent e \<Longrightarrow> length (dirent_bytes e) = 32"
  by (simp add: dirent_bytes_def wf_dirent_def)

lemma length_lfn_bytes [simp, layout]: "wf_lfn l \<Longrightarrow> length (lfn_bytes l) = 32"
  by (simp add: lfn_bytes_def wf_lfn_def)

lemma wf_dirent_of_bytes [simp]: "length b = 32 \<Longrightarrow> wf_dirent (dirent_of_bytes b)"
  by (simp add: dirent_of_bytes_def wf_dirent_def rdn_def)

lemma wf_lfn_of_bytes [simp]: "length b = 32 \<Longrightarrow> wf_lfn (lfn_of_bytes b)"
  by (simp add: lfn_of_bytes_def wf_lfn_def rdn_def)

lemma list11:
  assumes "length xs = 11"
  obtains a b c d e f g h i j k where "xs = [a, b, c, d, e, f, g, h, i, j, k]"
  using assms by (auto simp: eval_nat_numeral length_Suc_conv)

lemma dirent_of_bytes_inverse [simp, codec]:
  assumes "wf_dirent e"
  shows "dirent_of_bytes (dirent_bytes e) = e"
proof -
  from assms have "length (de_name e) = 11" by (simp add: wf_dirent_def)
  then show ?thesis
    by (elim list11) (cases e, simp add: dirent_of_bytes_def dirent_bytes_def rd_defs le16_def le32_def)
qed

lemma dirent_bytes_inverse [simp, codec]:
  assumes "length b = 32"
  shows "dirent_bytes (dirent_of_bytes b) = b"
proof -
  have n: "drop i b = b ! i # drop (Suc i) b" if "i < 32" for i
    using assms that by (simp add: Cons_nth_drop_Suc)
  have "b = take 11 b @ drop 11 b" by simp
  also have "drop 11 b = [b!11, b!12, b!13, b!14, b!15, b!16, b!17, b!18, b!19, b!20, b!21, b!22,
      b!23, b!24, b!25, b!26, b!27, b!28, b!29, b!30, b!31]"
    using assms by (simp add: n)
  finally show ?thesis
    by (simp add: dirent_bytes_def dirent_of_bytes_def rd_defs)
qed

lemma lfn_of_bytes_inverse [simp, codec]:
  assumes "wf_lfn l"
  shows "lfn_of_bytes (lfn_bytes l) = l"
  using assms
  by (cases l)
     (simp add: lfn_of_bytes_def lfn_bytes_def wf_lfn_def rd_defs le16_def nth_append)

lemma lfn_transmute_roundtrip [simp, codec]:
  "wf_lfn l \<Longrightarrow> from_directory_entry (to_directory_entry l) = l"
  by (simp add: from_directory_entry_def to_directory_entry_def)

lemma wf_to_directory_entry [simp]: "wf_lfn l \<Longrightarrow> wf_dirent (to_directory_entry l)"
  by (simp add: to_directory_entry_def)

lemma to_directory_entry_fields:
  assumes "wf_lfn l"
  shows "de_name (to_directory_entry l) ! 0 = lde_order l"
    and "de_attributes (to_directory_entry l) = lde_attributes l"
  using assms
  by (simp_all add: to_directory_entry_def dirent_of_bytes_def lfn_bytes_def wf_lfn_def rd_defs
      nth_append numeral_eq_Suc)

lemma lfn_entry_flags:
  assumes "wf_lfn l" "lde_attributes l = 0x0F"
  shows "is_long_filename (to_directory_entry l)"
    and "is_end_marker (to_directory_entry l) \<longleftrightarrow> lde_order l = 0"
    and "is_deleted (to_directory_entry l) \<longleftrightarrow> lde_order l = 0xE5"
  using assms
  by (simp_all add: is_long_filename_def is_end_marker_def is_deleted_def to_directory_entry_fields)

lemma get_set_cluster [simp, codec]:
  assumes "cluster < 2 ^ 32"
  shows "get_cluster (set_cluster e cluster) = cluster"
proof -
  define h l where "h = cluster div 2 ^ 16" and "l = cluster mod 2 ^ 16"
  have b: "h < 2 ^ 16" "l < 2 ^ 16" and c: "cluster = h * 2 ^ 16 + l"
    using assms by (simp_all add: h_def l_def)
  have t: "l = take_bit 16 cluster" by (simp add: l_def take_bit_eq_mod)
  have "push_bit 16 (of_nat h) OR (of_nat l) = (of_nat cluster :: u32)"
  proof -
    have "push_bit 16 h OR l = push_bit 16 h + l"
    proof (rule disjunctive_add [symmetric])
      fix n
      show "\<not> bit (push_bit 16 h) n \<or> \<not> bit l n"
        unfolding t by (auto simp: bit_push_bit_iff bit_take_bit_iff)
    qed
    then have "cluster = push_bit 16 h OR l" by (simp add: c push_bit_eq_mult)
    then show ?thesis by (simp only: of_nat_or_eq push_bit_of_nat)
  qed
  moreover have "ucast (of_nat h :: u16) = (of_nat h :: u32)" "ucast (of_nat l :: u16) = (of_nat l :: u32)"
    using b by (simp_all add: unsigned_of_nat take_bit_nat_eq_self)
  moreover have "h mod 2 ^ 16 = h" using b by simp
  ultimately show ?thesis
    using assms
    by (simp add: get_cluster_def set_cluster_def h_def [symmetric] l_def [symmetric] unat_of_nat
        del: power_numeral)
qed

lemma wf_set_cluster [simp]: "wf_dirent (set_cluster e c) = wf_dirent e"
  by (simp add: wf_dirent_def set_cluster_def)

lemma wf_mark_deleted [simp]: "wf_dirent (mark_deleted e) = wf_dirent e"
  by (simp add: wf_dirent_def mark_deleted_def)

lemma is_deleted_mark_deleted [simp]: "wf_dirent e \<Longrightarrow> is_deleted (mark_deleted e)"
  by (simp add: wf_dirent_def mark_deleted_def is_deleted_def)

section \<open>Long names\<close>

text \<open>The units of a chunk after \<open>LongDirectoryEntry::new\<close> has padded it.\<close>

definition lfn_pad :: "u16 list \<Rightarrow> u16 list" where
  "lfn_pad units =
     units @ (if length units < 13 then 0 # replicate (12 - length units) 0xFFFF else [])"

lemma length_lfn_pad [simp]: "length units \<le> 13 \<Longrightarrow> length (lfn_pad units) = 13"
  by (auto simp: lfn_pad_def)

lemma lfn_padded:
  assumes "length units \<le> 13"
  shows "(if length units < 13
          then (overwrite (replicate 13 0xFFFF) 0 (take 13 units))[length units := 0x0000]
          else overwrite (replicate 13 0xFFFF) 0 (take 13 units)) = lfn_pad units"
proof (cases "length units < 13")
  case True
  then have "drop (length units) (replicate 13 0xFFFF) = 0xFFFF # replicate (12 - length units) (0xFFFF :: u16)"
    by (metis Suc_diff_Suc diff_Suc_Suc drop_replicate eval_nat_numeral(3) replicate_Suc semiring_norm(26-28))
  with True show ?thesis by (simp add: lfn_pad_def overwrite_def)
qed (use assms in \<open>simp add: lfn_pad_def\<close>)

lemma lfn_new_eq:
  assumes "length units \<le> 13"
  shows "lfn_new sequence last_chunk checksum units =
     \<lparr> lde_order = (if last_chunk then sequence OR LFN_LAST_ENTRY_FLAG else sequence),
       lde_name1 = concat (map le16 (take 5 (lfn_pad units))),
       lde_attributes = 0x0F, lde_entry_type = 0, lde_checksum = checksum,
       lde_name2 = concat (map le16 (take 6 (drop 5 (lfn_pad units)))),
       lde_first_cluster_low = 0,
       lde_name3 = concat (map le16 (drop 11 (lfn_pad units))) \<rparr>"
  using lfn_padded [OF assms]
  by (simp add: lfn_new_def LFN_UNITS_PER_ENTRY_def Let_def)

lemma wf_lfn_new [simp]: "length units \<le> 13 \<Longrightarrow> wf_lfn (lfn_new s l c units)"
  by (simp add: lfn_new_eq wf_lfn_def)

lemma name_units_lfn_new [simp, codec]:
  "length units \<le> 13 \<Longrightarrow> name_units (lfn_new s l c units) = lfn_pad units"
proof -
  assume "length units \<le> 13"
  moreover have "take 5 p @ take 6 (drop 5 p) @ drop 11 p = p" for p :: "u16 list"
  proof -
    have "take 5 p @ take 6 (drop 5 p) = take 11 p" using take_add [of 5 6 p] by simp
    then show ?thesis by (metis append.assoc append_take_drop_id)
  qed
  ultimately show ?thesis by (simp add: lfn_new_eq name_units_def)
qed

lemma lfn_new_fields [simp]:
  "lde_attributes (lfn_new s l c units) = 0x0F"
  "lde_entry_type (lfn_new s l c units) = 0"
  "lde_checksum (lfn_new s l c units) = c"
  "lde_first_cluster_low (lfn_new s l c units) = 0"
  "lde_order (lfn_new s l c units) = (if l then s OR LFN_LAST_ENTRY_FLAG else s)"
  by (simp_all add: lfn_new_def Let_def)

lemma those_map_Some [simp]: "those (map Some xs) = Some xs"
  by (induction xs) auto

lemma encode_long_filename_SomeD:
  assumes "encode_long_filename f = Some u" "is_str f"
  shows "u = encode_utf16 f" "f \<noteq> []" "u \<noteq> []" "length u \<le> 255" "0 \<notin> set u"
proof -
  from assms(1) show u: "u = encode_utf16 f" and ne: "f \<noteq> []" and "length u \<le> 255"
    by (auto simp: encode_long_filename_def LFN_MAX_UNITS_def Let_def split: if_splits)
  then show "u \<noteq> []" by simp
  from assms(1) have "\<forall>c \<in> set f. \<not> c < 0x20"
    by (auto simp: encode_long_filename_def is_invalid_long_name_char_def list_ex_iff split: if_splits)
  with assms(2) show "0 \<notin> set u"
    by (fastforce simp: u encode_utf16_def is_str_def list_all_iff dest: utf16_char_nonzero)
qed

lemma decode_long_filename_terminated:
  assumes "is_str f" "f \<noteq> []" "0 \<notin> set (encode_utf16 f)" "r = [] \<or> hd r = 0"
  shows "decode_long_filename (encode_utf16 f @ r) = Some f"
proof -
  have "takeWhile (\<lambda>u. u \<noteq> 0) (encode_utf16 f @ r) = encode_utf16 f"
    using assms(3,4) by (cases r) (auto simp: takeWhile_append takeWhile_eq_all_conv)
  then show ?thesis using assms(1,2) by (simp add: decode_long_filename_def)
qed

lemma decode_encode_long_filename:
  assumes "encode_long_filename f = Some u" "is_str f" "r = [] \<or> hd r = 0"
  shows "decode_long_filename (u @ r) = Some f"
  using encode_long_filename_SomeD [OF assms(1,2)] assms(2,3)
  by (simp add: decode_long_filename_terminated)

section \<open>Short aliases\<close>

definition short_byte :: "u8 \<Rightarrow> bool" where
  "short_byte b \<longleftrightarrow> 32 < unat b \<and> unat b < 128"

lemma length_sanitize_loop:
  "length bs \<le> m \<Longrightarrow> length (sanitize_loop m bs cs) \<le> m"
  by (induction cs arbitrary: bs) (auto simp: Let_def)

lemma length_sanitize: "length (sanitize_short_component s m) \<le> m"
  by (simp add: sanitize_short_component_def length_sanitize_loop)

lemma valid_short_byte:
  "n < 0x80 \<Longrightarrow> \<not> is_invalid_short_name_byte (of_nat n) \<Longrightarrow> short_byte (of_nat n)"
  by (auto simp: short_byte_def is_invalid_short_name_byte_def unat_of_nat_u8 word_le_nat_alt)

lemma sanitize_loop_bytes:
  "list_all short_byte bs \<Longrightarrow> list_all short_byte (sanitize_loop m bs cs)"
proof (induction cs arbitrary: bs)
  case (Cons c cs)
  have "short_byte 95" by (simp add: short_byte_def)
  with Cons show ?case by (simp add: Let_def valid_short_byte)
qed simp

lemma sanitize_bytes: "list_all short_byte (sanitize_short_component s m)"
  by (simp add: sanitize_short_component_def sanitize_loop_bytes)

lemma tail_digits_0 [simp]: "tail_digits 0 = []"
  by (simp add: tail_digits.simps)

lemma tail_digits_pos:
  "0 < n \<Longrightarrow> tail_digits n = of_nat (48 + n mod 10) # tail_digits (n div 10)"
  by (subst tail_digits.simps) simp

lemma length_tail_digits: "n < 10 ^ k \<Longrightarrow> length (tail_digits n) \<le> k"
proof (induction k arbitrary: n)
  case (Suc k)
  then have "n div 10 < 10 ^ k" by (simp add: less_mult_imp_div_less mult.commute)
  then have "length (tail_digits (n div 10)) \<le> k" by (rule Suc.IH)
  then show ?case by (cases "n = 0") (simp_all add: tail_digits_pos)
qed simp

lemma unat_digit: "unat (of_nat (48 + n mod 10) :: u8) = 48 + n mod 10"
  by (rule unat_of_nat_u8) (simp add: order_less_trans [OF add_strict_left_mono [of "n mod 10" 10 48]])

lemma tail_digits_range: "d \<in> set (tail_digits n) \<Longrightarrow> 48 \<le> unat d \<and> unat d \<le> 57"
proof (induction n rule: tail_digits.induct)
  case (1 n)
  show ?case
  proof (cases "n = 0")
    case False
    then have "d = of_nat (48 + n mod 10) \<or> d \<in> set (tail_digits (n div 10))"
      using 1(2) by (simp add: tail_digits_pos del: of_nat_add)
    then show ?thesis
    proof
      assume "d = of_nat (48 + n mod 10)"
      then have "unat d = 48 + n mod 10" by (simp only: unat_digit)
      then show ?thesis by (simp add: Suc_leI less_Suc_eq_le [symmetric])
    qed (use False 1(1) in simp)
  qed (use 1(2) in simp)
qed

lemma tail_digits_inj: "tail_digits m = tail_digits n \<Longrightarrow> m = n"
proof (induction m arbitrary: n rule: tail_digits.induct)
  case (1 m)
  show ?case
  proof (cases "m = 0 \<or> n = 0")
    case True
    with 1(2) show ?thesis by (cases "m = 0"; cases "n = 0") (simp_all add: tail_digits_pos)
  next
    case False
    with 1(2) have e: "(of_nat (48 + m mod 10) :: u8) = of_nat (48 + n mod 10)"
      and r: "tail_digits (m div 10) = tail_digits (n div 10)"
      by (simp_all add: tail_digits_pos del: of_nat_add)
    from e have "m mod 10 = n mod 10" using unat_digit [of m] unat_digit [of n] by simp
    moreover have "m div 10 = n div 10" using False 1(1) r by simp
    ultimately show ?thesis by (metis div_mult_mod_eq)
  qed
qed

lemma compose_short_alias_eq:
  assumes "length base \<le> 8" "length ext \<le> 3" "length (tail_digits tail) \<le> 6"
  defines "k \<equiv> min (length base) (7 - length (tail_digits tail))"
  shows "compose_short_alias base ext tail =
     take k base @ 126 # rev (tail_digits tail)
       @ replicate (7 - k - length (tail_digits tail)) 32 @ ext @ replicate (3 - length ext) 32"
proof -
  define n where "n = length (tail_digits tail)"
  have k: "k \<le> length base" "k + n \<le> 7" "length (take k base) = k" "k = min (length base) (7 - n)"
    unfolding k_def n_def using assms(3) by (auto simp: min_def)
  have s: "replicate (11 - k) (32 :: u8) = 32 # replicate n 32 @ replicate (7 - k - n) 32 @ replicate 3 32"
  proof -
    have "11 - k = Suc (n + (7 - k - n) + 3)" using k(2) by simp
    then show ?thesis by (simp only: replicate_Suc replicate_add append_assoc)
  qed
  have t: "replicate (10 - (k + n)) (32 :: u8) = replicate (7 - (k + n)) 32 @ replicate 3 32"
    using k(2) by (simp flip: replicate_add)
  have "overwrite ((overwrite (replicate 11 32) 0 (take k base))[k := 126]) (k + 1) (rev (tail_digits tail))
      = take k base @ 126 # rev (tail_digits tail) @ replicate (7 - k - n) 32 @ replicate 3 32"
    using k(1,2) by (simp add: overwrite_def s t [unfolded n_def] list_update_append min_def n_def)
  then have "compose_short_alias base ext tail =
      overwrite ((take k base @ 126 # rev (tail_digits tail) @ replicate (7 - k - n) 32) @ replicate 3 32) 8 ext"
    by (simp only: compose_short_alias_def Let_def k_def append_assoc append_Cons) simp
  also have "\<dots> = (take k base @ 126 # rev (tail_digits tail) @ replicate (7 - k - n) 32)
      @ overwrite (replicate 3 32) 0 ext"
    by (rule overwrite_append) (use k n_def in simp)
  finally show ?thesis using assms(2) by (simp add: n_def overwrite_def)
qed

lemma tail_lt: "tail \<le> 999999 \<Longrightarrow> length (tail_digits tail) \<le> 6"
  by (rule length_tail_digits) simp

lemma length_compose_short_alias:
  "length base \<le> 8 \<Longrightarrow> length ext \<le> 3 \<Longrightarrow> tail \<le> 999999 \<Longrightarrow>
     length (compose_short_alias base ext tail) = 11"
  using tail_lt [of tail] by (simp add: compose_short_alias_eq min_def)

text \<open>The numeric tail can be read back from an alias, so distinct tails give distinct aliases.\<close>

definition alias_tail :: "bytes \<Rightarrow> bytes" where
  "alias_tail name = takeWhile (\<lambda>b. b \<noteq> 126) (dropWhile (\<lambda>b. b = 32) (rev (take 8 name)))"

lemma alias_tail_compose:
  assumes "length base \<le> 8" "length ext \<le> 3" "tail \<le> 999999" "0 < tail"
  shows "alias_tail (compose_short_alias base ext tail) = tail_digits tail"
proof -
  define ds where "ds = tail_digits tail"
  define k where "k = min (length base) (7 - length ds)"
  have n: "length ds \<le> 6" using tail_lt assms(3) by (simp add: ds_def)
  then have k: "k + length ds \<le> 7" "k \<le> length base" by (auto simp: k_def)
  have "compose_short_alias base ext tail =
      (take k base @ 126 # rev ds @ replicate (7 - k - length ds) 32)
        @ ext @ replicate (3 - length ext) 32" (is "_ = ?a @ ?b")
    using compose_short_alias_eq [of base ext tail] assms n by (simp add: ds_def k_def)
  moreover have "length ?a = 8" using k by simp
  ultimately have "take 8 (compose_short_alias base ext tail) =
      take k base @ 126 # rev ds @ replicate (7 - k - length ds) 32"
    by (metis append_eq_conv_conj)
  then have r: "rev (take 8 (compose_short_alias base ext tail)) =
      replicate (7 - k - length ds) 32 @ ds @ 126 # rev (take k base)"
    by simp
  have nd: "d \<noteq> 32 \<and> d \<noteq> 126" if "d \<in> set ds" for d
    using tail_digits_range [of d tail] that by (auto simp: ds_def)
  have ne: "ds \<noteq> []" using assms(4) by (simp add: ds_def tail_digits_pos)
  have "dropWhile (\<lambda>b. b = 32) (replicate m (32 :: u8) @ ds @ y) = ds @ y" for m y
    using ne nd by (induction m) (cases ds; auto)+
  then show ?thesis
    using nd by (simp add: alias_tail_def r ds_def [symmetric] takeWhile_append takeWhile_eq_all_conv)
qed

lemma compose_short_alias_inj:
  assumes "length base \<le> 8" "length ext \<le> 3"
  shows "inj_on (compose_short_alias base ext) {1..999999}"
proof (rule inj_onI)
  fix a b :: nat
  assume "a \<in> {1..999999}" "b \<in> {1..999999}"
    and "compose_short_alias base ext a = compose_short_alias base ext b"
  then have "tail_digits a = tail_digits b"
    using alias_tail_compose [OF assms] by (metis atLeastAtMost_iff less_eq_Suc_le One_nat_def)
  then show "a = b" by (rule tail_digits_inj)
qed

lemma alias_search_Some:
  "alias_search base ext taken tail = Some c \<Longrightarrow>
     c \<notin> set taken \<and> (\<exists>t \<ge> tail. t \<le> 999999 \<and> c = compose_short_alias base ext t)"
proof (induction base ext taken tail rule: alias_search.induct)
  case (1 base ext taken tail)
  show ?case
  proof (cases "tail \<le> 999999 \<and> compose_short_alias base ext tail \<in> set taken")
    case True
    then have "alias_search base ext taken tail = alias_search base ext taken (tail + 1)"
      by (subst alias_search.simps) simp
    with 1 True show ?thesis by (auto dest!: meta_mp intro: Suc_leD)
  next
    case False
    with 1(2) show ?thesis by (subst (asm) alias_search.simps) (auto simp: Let_def split: if_splits)
  qed
qed

lemma alias_search_None:
  "alias_search base ext taken tail = None \<Longrightarrow>
     tail \<le> t \<Longrightarrow> t \<le> 999999 \<Longrightarrow> compose_short_alias base ext t \<in> set taken"
proof (induction base ext taken tail rule: alias_search.induct)
  case (1 base ext taken tail)
  from 1(2,3,4) have i: "tail \<le> 999999" "compose_short_alias base ext tail \<in> set taken"
    and n: "alias_search base ext taken (tail + 1) = None"
    by (subst (asm) alias_search.simps, simp add: Let_def split: if_splits)+
  then show ?case using 1(1) [OF i(1) refl] 1(3,4) by (cases "t = tail") auto
qed

lemma generate_short_alias_search:
  "\<exists>base ext. length base \<le> 8 \<and> length ext \<le> 3 \<and> list_all short_byte base \<and> list_all short_byte ext
     \<and> generate_short_alias filename taken = alias_search base ext taken 1"
  unfolding generate_short_alias_def Let_def
  using length_sanitize sanitize_bytes by (metis (no_types, lifting) case_prod_beta)

lemma generate_short_alias_SomeD:
  assumes "generate_short_alias filename taken = Some c"
  shows "c \<notin> set taken" "length c = 11" "c ! 0 \<noteq> 0x00" "c ! 0 \<noteq> 0xE5"
proof -
  obtain base ext where b: "length base \<le> 8" "length ext \<le> 3" "list_all short_byte base"
      and s: "alias_search base ext taken 1 = Some c"
    using generate_short_alias_search [of filename taken] assms by auto
  from alias_search_Some [OF s] obtain t where t: "c \<notin> set taken" "t \<le> 999999"
      "c = compose_short_alias base ext t" by auto
  then show "c \<notin> set taken" "length c = 11" using b length_compose_short_alias by auto
  have "c ! 0 = 126 \<or> c ! 0 \<in> set base"
    using b t(2,3) compose_short_alias_eq [of base ext t] tail_lt [of t]
    by (cases base; cases "7 - length (tail_digits t)") (auto simp: min_def)
  then have "short_byte (c ! 0)"
    using b(3) by (auto simp: list_all_iff short_byte_def)
  then show "c ! 0 \<noteq> 0x00" "c ! 0 \<noteq> 0xE5" by (auto simp: short_byte_def)
qed

lemma generate_short_alias_exists:
  assumes "length taken < 999999"
  shows "\<exists>c. generate_short_alias filename taken = Some c"
proof (rule ccontr)
  obtain base ext where b: "length base \<le> 8" "length ext \<le> 3"
      and s: "generate_short_alias filename taken = alias_search base ext taken 1"
    using generate_short_alias_search [of filename taken] by auto
  assume "\<nexists>c. generate_short_alias filename taken = Some c"
  then have "alias_search base ext taken 1 = None" using s by simp
  then have "compose_short_alias base ext ` {1..999999} \<subseteq> set taken"
    by (auto intro: alias_search_None)
  then have "card (compose_short_alias base ext ` {1..999999}) \<le> length taken"
    by (meson card_length card_mono finite_set le_trans)
  then show False
    using assms compose_short_alias_inj [OF b] by (simp add: card_image)
qed

section \<open>8.3 names\<close>

lemma to_utf8_ascii: "is_ascii s \<Longrightarrow> to_utf8 s = map of_nat s"
  by (induction s) (auto simp: is_ascii_def to_utf8_def utf8_char_def)

lemma trim_end_pad:
  assumes "list_all (\<lambda>c. \<not> is_whitespace c) s"
  shows "trim_end (s @ replicate k 32) = s"
proof -
  have "dropWhile is_whitespace (replicate k 32 @ r) = dropWhile is_whitespace r" for r
    by (induction k) (auto simp: is_whitespace_def)
  moreover have "dropWhile is_whitespace (rev s) = rev s"
    using assms by (cases s rule: rev_cases) (auto simp: list_all_iff)
  ultimately show ?thesis by (simp add: trim_end_def)
qed

lemma get_fat_filename_SomeE:
  assumes "get_fat_filename uc f = Some n"
  obtains name ext where
    "name = to_uppercase uc (takeWhile (\<lambda>c. c \<noteq> 46) f)"
    "ext = to_uppercase uc (drop 1 (dropWhile (\<lambda>c. c \<noteq> 46) f))"
    "name \<noteq> []" "length name \<le> 8" "length ext \<le> 3" "is_ascii name" "is_ascii ext"
    "list_all (\<lambda>c. 32 < c) (name @ ext)"
    "n = map of_nat name @ replicate (8 - length name) 32 @ map of_nat ext @ replicate (3 - length ext) 32"
proof -
  define name ext where "name = to_uppercase uc (takeWhile (\<lambda>c. c \<noteq> 46) f)"
    and "ext = to_uppercase uc (drop 1 (dropWhile (\<lambda>c. c \<noteq> 46) f))"
  have a: "is_ascii name" "is_ascii ext" and "name \<noteq> []" "str_len name \<le> 8" "str_len ext \<le> 3"
    and v: "list_all (\<lambda>b. \<not> is_invalid_short_name_byte b) (to_utf8 name @ to_utf8 ext)"
    and n: "n = overwrite (overwrite (replicate 11 32) 0 (take 8 (to_utf8 name)))
                  8 (take 3 (to_utf8 ext))"
    using assms
    by (auto simp: get_fat_filename_def Let_def name_def ext_def list_ex_iff list_all_iff split: if_splits)
  then have l: "length name \<le> 8" "length ext \<le> 3"
    by (auto simp: str_len_def to_utf8_ascii)
  have "32 < c" if "c \<in> set (name @ ext)" for c
  proof -
    have "c < 0x80" using a that by (auto simp: is_ascii_def list_all_iff)
    moreover have "\<not> is_invalid_short_name_byte (of_nat c)"
      using v that a by (auto simp: list_all_iff to_utf8_ascii)
    ultimately have "short_byte (of_nat c)" by (rule valid_short_byte)
    with \<open>c < 0x80\<close> show ?thesis by (simp add: short_byte_def unat_of_nat_u8)
  qed
  then have "list_all (\<lambda>c. 32 < c) (name @ ext)" unfolding list_all_iff by blast
  moreover have "n = map of_nat name @ replicate (8 - length name) 32 @ map of_nat ext
      @ replicate (3 - length ext) 32"
  proof -
    have r: "replicate (11 - length name) (32 :: u8) = replicate (8 - length name) 32 @ replicate 3 32"
      using l(1) by (simp flip: replicate_add)
    have "n = overwrite ((map of_nat name @ replicate (8 - length name) 32) @ replicate 3 32) 8 (map of_nat ext)"
      using l a by (simp add: n to_utf8_ascii overwrite_def [of _ 0] r)
    also have "\<dots> = (map of_nat name @ replicate (8 - length name) 32) @ overwrite (replicate 3 32) 0 (map of_nat ext)"
      by (rule overwrite_append) (use l in simp)
    finally show ?thesis using l by (simp add: overwrite_def)
  qed
  ultimately show thesis using that [OF name_def ext_def] \<open>name \<noteq> []\<close> a l by blast
qed

lemma get_fat_filename_short:
  assumes "get_fat_filename uc f = Some n"
  shows "length n = 11" "n ! 0 \<noteq> 0x00" "n ! 0 \<noteq> 0xE5"
proof -
  from assms obtain name ext where e: "name \<noteq> []" "length name \<le> 8" "length ext \<le> 3"
    "is_ascii name" "list_all (\<lambda>c. 32 < c) (name @ ext)"
    "n = map of_nat name @ replicate (8 - length name) 32 @ map of_nat ext @ replicate (3 - length ext) 32"
    by (rule get_fat_filename_SomeE)
  then show "length n = 11" by simp
  from e obtain c cs where c: "name = c # cs" "32 < c" "c < 0x80"
    by (cases name) (auto simp: is_ascii_def)
  with e(6) have "unat (n ! 0) = c" by (simp add: unat_of_nat_u8)
  with c show "n ! 0 \<noteq> 0x00" "n ! 0 \<noteq> 0xE5" by auto
qed

lemma get_filename_component:
  assumes "is_ascii s" "list_all (\<lambda>c. 32 < c) s"
  shows "to_lowercase lc (trim_end (unwrap_str (from_utf8 (map of_nat s @ replicate k 32))))
         = map to_ascii_lowercase s"
proof -
  have "from_utf8 (map of_nat s @ replicate k 32) = Some (map unat (map of_nat s @ replicate k (32 :: u8)))"
    by (rule from_utf8_ascii) (use assms in \<open>auto simp: list_all_iff is_ascii_def unat_of_nat_u8\<close>)
  moreover have "map unat (map of_nat s @ replicate k (32 :: u8)) = s @ replicate k 32"
    using assms(1) by (auto simp: is_ascii_def list_all_iff unat_of_nat_u8 intro!: map_idI)
  moreover have "list_all (\<lambda>c. \<not> is_whitespace c) s"
    using assms by (fastforce simp: list_all_iff is_ascii_def is_whitespace_def)
  ultimately have "trim_end (unwrap_str (from_utf8 (map of_nat s @ replicate k 32))) = s"
    using trim_end_pad [of s k] by (simp add: unwrap_str_def)
  with assms(1) show ?thesis by (simp add: to_lowercase_def)
qed

lemma get_filename_from_fat_roundtrip:
  assumes "get_fat_filename uc f = Some n" "is_ascii f" "\<not> ends_with f 46"
  shows "get_filename_from_fat lc n = map to_ascii_lowercase f"
proof -
  from assms(1) obtain name ext where
    e: "name = to_uppercase uc (takeWhile (\<lambda>c. c \<noteq> 46) f)"
    "ext = to_uppercase uc (drop 1 (dropWhile (\<lambda>c. c \<noteq> 46) f))"
    "name \<noteq> []" "length name \<le> 8" "length ext \<le> 3" "is_ascii name" "is_ascii ext"
    "list_all (\<lambda>c. 32 < c) (name @ ext)"
    "n = map of_nat name @ replicate (8 - length name) 32 @ map of_nat ext @ replicate (3 - length ext) 32"
    by (rule get_fat_filename_SomeE)
  define N D where "N = takeWhile (\<lambda>c. c \<noteq> 46) f" and "D = dropWhile (\<lambda>c. c \<noteq> 46) f"
  have f: "f = N @ D" by (simp add: N_def D_def)
  have asc: "is_ascii N" "is_ascii (drop 1 D)"
    using assms(2) unfolding f by (auto simp: is_ascii_def list_all_iff dest: in_set_dropD)
  have nm: "map to_ascii_lowercase name = map to_ascii_lowercase N"
    "map to_ascii_lowercase ext = map to_ascii_lowercase (drop 1 D)"
    using asc by (simp_all add: e(1,2) N_def [symmetric] D_def [symmetric] to_uppercase_def)
  have "take 8 n = map of_nat name @ replicate (8 - length name) 32"
    "take 3 (drop 8 n) = map of_nat ext @ replicate (3 - length ext) 32"
    using e(4,5,9) by simp_all
  then have g: "get_filename_from_fat lc n =
      (if ext \<noteq> [] then map to_ascii_lowercase name @ 46 # map to_ascii_lowercase ext
       else map to_ascii_lowercase name)"
    using e(6,7,8) by (simp add: get_filename_from_fat_def get_filename_component)
  show ?thesis
  proof (cases D)
    case Nil
    then have "ext = []" using nm(2) by simp
    with g nm Nil f show ?thesis by simp
  next
    case (Cons d ds)
    then have d: "d = 46" using hd_dropWhile [of "\<lambda>c. c \<noteq> 46" f] by (auto simp: D_def)
    have "ds \<noteq> []" using assms(3) Cons d by (auto simp: f ends_with_def)
    then have "ext \<noteq> []" using nm(2) Cons by auto
    with g nm Cons d f show ?thesis by (simp add: to_ascii_lowercase_def)
  qed
qed

section \<open>Properties\<close>

text \<open>
  C28.  A generated short alias is fresh: \<open>generate_short_alias\<close> returns an 11-byte name that
  occurs in no entry of the directory and that no directory slot would read as deleted or as the
  end marker, and it finds one whenever the directory holds fewer than 999999 short names.
\<close>

theorem short_alias_fresh:
  "(\<forall>c. generate_short_alias filename taken = Some c \<longrightarrow>
      c \<notin> set taken \<and> length c = 11 \<and> c ! 0 \<noteq> 0x00 \<and> c ! 0 \<noteq> 0xE5)
   \<and> (length taken < 999999 \<longrightarrow> (\<exists>c. generate_short_alias filename taken = Some c))"
  using generate_short_alias_SomeD generate_short_alias_exists by blast

theorem short_alias_fresh_witness:
  "\<exists>c. generate_short_alias (lit ''long file name.text'') [] = Some c \<and> length c = 11"
  using short_alias_fresh [of "lit ''long file name.text''" "[]"] by auto

text \<open>
  C30.  The 8.3 codec.  A plain ASCII name that does not end in a dot and that
  \<open>get_fat_filename\<close> accepts is read back by \<open>get_filename_from_fat\<close> as the same name in lower
  case, so it is found again by the case-insensitive lookup.
\<close>

theorem short_name_roundtrip:
  assumes "get_fat_filename uc f = Some n" "is_ascii f" "\<not> ends_with f 46"
  shows "get_filename_from_fat lc n = map to_ascii_lowercase f
     \<and> eq_ignore_ascii_case (get_filename_from_fat lc n) f"
  using get_filename_from_fat_roundtrip [OF assms] by (simp add: eq_ignore_ascii_case_def comp_def)

theorem short_name_roundtrip_witness:
  "get_filename_from_fat id (map of_char ''README  TXT'') = lit ''readme.txt''"
proof -
  have "get_fat_filename id (lit ''ReadMe.txt'') = Some (map of_char ''README  TXT'')" by code_simp
  moreover have "is_ascii (lit ''ReadMe.txt'')" "\<not> ends_with (lit ''ReadMe.txt'') 46" by code_simp+
  ultimately have "get_filename_from_fat id (map of_char ''README  TXT'')
      = map to_ascii_lowercase (lit ''ReadMe.txt'')"
    using short_name_roundtrip [of id "lit ''ReadMe.txt''" "map of_char ''README  TXT''" id] by simp
  also have "\<dots> = lit ''readme.txt''" by code_simp
  finally show ?thesis .
qed

end
