(* ===== verification/Fat_Table.thy ===== *)
theory Fat_Table
  imports Prelude
begin

text \<open>
  The in-memory file allocation table, \<open>FatBuffer\<close> of \<open>src/fs/fat_fs.rs\<close>.  The raw pointer
  \<open>fat\<close> with its \<open>entries\<close> count is the list of the table's entries.  \<open>set\<close> returns the new
  table, \<open>None\<close> leaving it unchanged; \<open>free_chain\<close> and \<open>allocate_chain\<close> return the
  result together with the table they leave behind, because they have written to it even when
  they fail.

  A cluster chain is described by the list of its clusters (\<open>fat_chain\<close>).  The lemmas show that
  \<open>free_chain\<close> ends on every table, releases exactly the clusters of a chain, and that
  \<open>allocate_chain\<close> links the first free clusters or, when there are too few, leaves the
  table as it was.
\<close>

type_synonym fat_buffer = "u32 list"

definition FAT_CLUSTER_FREE :: u32 where "FAT_CLUSTER_FREE = 0x00000000"
definition FAT_CLUSTER_EOF :: u32 where "FAT_CLUSTER_EOF = 0x0FFFFFFF"

definition next_cluster :: "fat_buffer \<Rightarrow> nat \<Rightarrow> nat option" where
  "next_cluster fat current =
     (if length fat \<le> current then None
      else (let next = fat ! current
            in if 0x0FFFFFF8 \<le> next \<or> next = 0 then None else Some (unat next)))"

definition exists_cluster :: "fat_buffer \<Rightarrow> nat \<Rightarrow> bool" where
  "exists_cluster fat cluster =
     (case next_cluster fat cluster of Some n \<Rightarrow> n \<noteq> 0 | None \<Rightarrow> False)"

definition fat_set :: "fat_buffer \<Rightarrow> nat \<Rightarrow> u32 \<Rightarrow> fat_buffer option" where
  "fat_set fat cluster value =
     (if length fat \<le> cluster then None else Some (fat[cluster := value]))"

definition find_free_cluster :: "fat_buffer \<Rightarrow> nat option" where
  "find_free_cluster fat = List.find (\<lambda>cluster. fat ! cluster = FAT_CLUSTER_FREE) [2..<length fat]"

definition used_entries :: "fat_buffer \<Rightarrow> nat" where
  "used_entries fat = length (filter (\<lambda>v. v \<noteq> 0) fat)"

lemma used_entries_update:
  assumes "c < length fat" "fat ! c \<noteq> 0"
  shows "used_entries (fat[c := 0]) < used_entries fat"
proof -
  have "fat = take c fat @ fat ! c # drop (Suc c) fat"
    using assms(1) by (rule id_take_nth_drop)
  moreover have "fat[c := 0] = take c fat @ 0 # drop (Suc c) fat"
    using assms(1) by (simp add: upd_conv_take_nth_drop)
  moreover have "length (filter (\<lambda>v. v \<noteq> 0) (take c fat @ 0 # drop (Suc c) fat))
      < length (filter (\<lambda>v. v \<noteq> 0) (take c fat @ fat ! c # drop (Suc c) fat))"
    using assms(2) by simp
  ultimately show ?thesis unfolding used_entries_def by metis
qed

lemma next_cluster_SomeD:
  "next_cluster fat c = Some d \<Longrightarrow> c < length fat \<and> fat ! c \<noteq> 0 \<and> d = unat (fat ! c) \<and> fat ! c < 0x0FFFFFF8"
  by (auto simp: next_cluster_def Let_def not_le split: if_splits)

function free_chain :: "fat_buffer \<Rightarrow> nat \<Rightarrow> unit option \<times> fat_buffer" where
  "free_chain fat cluster =
     (if length fat \<le> cluster then (None, fat)
      else
        (let next = next_cluster fat cluster
         in case fat_set fat cluster FAT_CLUSTER_FREE of
              None \<Rightarrow> (None, fat)
            | Some fat' \<Rightarrow>
                (case next of
                   Some n \<Rightarrow> free_chain fat' n
                 | None \<Rightarrow> (Some (), fat'))))"
  by pat_completeness auto
termination
proof (relation "measure (\<lambda>(fat, _). used_entries fat)", goal_cases)
  case (2 fat cluster x fat' n)
  then have "next_cluster fat cluster = Some n" "fat' = fat[cluster := 0]"
    by (auto simp: fat_set_def FAT_CLUSTER_FREE_def)
  then show ?case by (auto intro: used_entries_update dest: next_cluster_SomeD)
qed simp

declare free_chain.simps [simp del]

fun allocate_loop ::
  "fat_buffer \<Rightarrow> nat \<Rightarrow> nat \<Rightarrow> nat option \<Rightarrow> nat option \<times> fat_buffer" where
  "allocate_loop fat 0 first_cluster prev_cluster = (Some first_cluster, fat)"
| "allocate_loop fat (Suc count) first_cluster prev_cluster =
     (case find_free_cluster fat of
        None \<Rightarrow> (None, if first_cluster \<noteq> 0 then snd (free_chain fat first_cluster) else fat)
      | Some cluster \<Rightarrow>
          (case fat_set fat cluster FAT_CLUSTER_EOF of
             None \<Rightarrow> (None, if first_cluster \<noteq> 0 then snd (free_chain fat first_cluster) else fat)
           | Some fat1 \<Rightarrow>
               (case prev_cluster of
                  Some prev \<Rightarrow>
                    (case fat_set fat1 prev (of_nat cluster) of
                       None \<Rightarrow>
                         (let fat2 = snd (free_chain fat1 first_cluster)
                          in (None, case fat_set fat2 cluster FAT_CLUSTER_FREE of
                                      None \<Rightarrow> fat2 | Some fat3 \<Rightarrow> fat3))
                     | Some fat2 \<Rightarrow> allocate_loop fat2 count first_cluster (Some cluster))
                | None \<Rightarrow> allocate_loop fat1 count cluster (Some cluster))))"

definition allocate_chain :: "fat_buffer \<Rightarrow> nat \<Rightarrow> nat option \<times> fat_buffer" where
  "allocate_chain fat count =
     (if count = 0 then (None, fat) else allocate_loop fat count 0 None)"

fun cluster_at :: "fat_buffer \<Rightarrow> nat \<Rightarrow> nat \<Rightarrow> nat option" where
  "cluster_at fat cluster 0 = Some cluster"
| "cluster_at fat cluster (Suc index) =
     (case next_cluster fat cluster of None \<Rightarrow> None | Some n \<Rightarrow> cluster_at fat n index)"

section \<open>Cluster chains\<close>

text \<open>\<open>fat_chain fat cs\<close>: following the table from the head of \<open>cs\<close> visits \<open>cs\<close> and ends.\<close>

fun fat_chain :: "fat_buffer \<Rightarrow> nat list \<Rightarrow> bool" where
  "fat_chain fat [] \<longleftrightarrow> False"
| "fat_chain fat [c] \<longleftrightarrow> c < length fat \<and> next_cluster fat c = None"
| "fat_chain fat (c # d # cs) \<longleftrightarrow>
     c < length fat \<and> next_cluster fat c = Some d \<and> fat_chain fat (d # cs)"

lemma fat_chain_functional:
  "fat_chain fat (c # cs) \<Longrightarrow> fat_chain fat (c # ds) \<Longrightarrow> cs = ds"
proof (induction cs arbitrary: c ds)
  case Nil
  then show ?case by (cases ds) auto
next
  case (Cons d cs)
  then show ?case by (cases ds) auto
qed

lemma fat_chain_append:
  "fat_chain fat (xs @ y # ys) \<Longrightarrow> fat_chain fat (y # ys)"
proof (induction xs)
  case (Cons x xs)
  then show ?case by (cases xs) auto
qed simp

lemma fat_chain_distinct: "fat_chain fat cs \<Longrightarrow> distinct cs"
proof (induction cs)
  case (Cons c cs)
  have "c \<notin> set cs"
  proof
    assume "c \<in> set cs"
    then obtain xs ys where cs: "cs = xs @ c # ys" by (meson split_list)
    then have "fat_chain fat (c # ys)" using Cons.prems fat_chain_append [of fat "c # xs" c ys] by simp
    then have "ys = cs" using Cons.prems fat_chain_functional by blast
    with cs show False by simp
  qed
  moreover have "distinct cs" using Cons by (cases cs) auto
  ultimately show ?case by simp
qed simp

lemma fat_chain_range: "fat_chain fat cs \<Longrightarrow> c \<in> set cs \<Longrightarrow> c < length fat"
  by (induction fat cs rule: fat_chain.induct) auto

lemma cluster_at_chain:
  "fat_chain fat (c # cs) \<Longrightarrow> cluster_at fat c i = (if i \<le> length cs then Some ((c # cs) ! i) else None)"
proof (induction i arbitrary: c cs)
  case (Suc i)
  then show ?case by (cases cs) auto
qed simp

lemma fat_chain_cong:
  "fat_chain fat cs \<Longrightarrow> length fat' = length fat \<Longrightarrow> (\<forall>c \<in> set cs. fat' ! c = fat ! c) \<Longrightarrow>
     fat_chain fat' cs"
  by (induction fat cs rule: fat_chain.induct) (auto simp: next_cluster_def)

text \<open>The table with the clusters of a list released.\<close>

definition fat_release :: "fat_buffer \<Rightarrow> nat list \<Rightarrow> fat_buffer" where
  "fat_release fat cs = fold (\<lambda>c fat. fat[c := 0]) cs fat"

lemma length_fat_release [simp]: "length (fat_release fat cs) = length fat"
  unfolding fat_release_def by (induction cs arbitrary: fat) auto

lemma nth_fat_release:
  "i < length fat \<Longrightarrow> fat_release fat cs ! i = (if i \<in> set cs then 0 else fat ! i)"
  unfolding fat_release_def
  by (induction cs arbitrary: fat) (auto simp: nth_list_update)

lemma free_chain_step:
  "c < length fat \<Longrightarrow> free_chain fat c =
     (case next_cluster fat c of
        Some n \<Rightarrow> free_chain (fat[c := 0]) n
      | None \<Rightarrow> (Some (), fat[c := 0]))"
  by (subst free_chain.simps) (simp add: fat_set_def FAT_CLUSTER_FREE_def Let_def)

lemma free_chain_chain:
  "fat_chain fat (c # cs) \<Longrightarrow> free_chain fat c = (Some (), fat_release fat (c # cs))"
proof (induction cs arbitrary: fat c)
  case Nil
  then show ?case by (simp add: free_chain_step fat_release_def)
next
  case (Cons d cs)
  then have c: "c < length fat" "next_cluster fat c = Some d" and d: "fat_chain fat (d # cs)"
    by auto
  have "c \<notin> set (d # cs)" using fat_chain_distinct [OF Cons.prems] by auto
  then have "fat_chain (fat[c := 0]) (d # cs)"
    using d by (elim fat_chain_cong) (auto intro!: nth_list_update_neq)
  then have "free_chain (fat[c := 0]) d = (Some (), fat_release (fat[c := 0]) (d # cs))"
    by (rule Cons.IH)
  with c show ?case by (simp add: free_chain_step fat_release_def)
qed


section \<open>Allocation\<close>

text \<open>The free clusters in the order the search finds them, and a list of clusters linked up.\<close>

definition free_clusters :: "fat_buffer \<Rightarrow> nat list" where
  "free_clusters fat = filter (\<lambda>c. fat ! c = FAT_CLUSTER_FREE) [2..<length fat]"

fun fat_link :: "fat_buffer \<Rightarrow> nat list \<Rightarrow> fat_buffer" where
  "fat_link fat [] = fat"
| "fat_link fat [c] = fat[c := FAT_CLUSTER_EOF]"
| "fat_link fat (c # d # cs) = (fat_link fat (d # cs))[c := of_nat d]"

text \<open>Cluster numbers below the end-of-chain markers.\<close>

abbreviation small_table :: "fat_buffer \<Rightarrow> bool" where
  "small_table fat \<equiv> length fat \<le> 0x0FFFFFF8"

lemma length_fat_link [simp]: "length (fat_link fat cs) = length fat"
  by (induction fat cs rule: fat_link.induct) auto

lemma fat_link_other: "i \<notin> set cs \<Longrightarrow> fat_link fat cs ! i = fat ! i"
  by (induction fat cs rule: fat_link.induct) auto

lemma free_clusters_set:
  "c \<in> set (free_clusters fat) \<longleftrightarrow> 2 \<le> c \<and> c < length fat \<and> fat ! c = 0"
  by (auto simp: free_clusters_def FAT_CLUSTER_FREE_def)

lemma free_clusters_distinct [simp]: "distinct (free_clusters fat)"
  by (simp add: free_clusters_def)

lemma unat_cluster:
  assumes "c < 0x0FFFFFF8"
  shows "unat (of_nat c :: u32) = c"
  using assms by (simp add: unat_of_nat)

lemma next_cluster_link:
  assumes "fat ! c = of_nat d" "c < length fat" "0 < d" "d < 0x0FFFFFF8"
  shows "next_cluster fat c = Some d"
proof -
  have "unat (of_nat d :: u32) = d" using assms(4) by (rule unat_cluster)
  then have "(of_nat d :: u32) < 0x0FFFFFF8" "(of_nat d :: u32) \<noteq> 0"
    using assms(3,4) by (auto simp: word_less_nat_alt)
  then show ?thesis using assms \<open>unat _ = d\<close> by (simp add: next_cluster_def Let_def)
qed

lemma next_cluster_eof:
  "fat ! c = FAT_CLUSTER_EOF \<Longrightarrow> next_cluster fat c = None"
  by (simp add: next_cluster_def FAT_CLUSTER_EOF_def)

lemma fat_link_chain:
  assumes "cs \<noteq> []" "distinct cs" "\<forall>c \<in> set cs. 2 \<le> c \<and> c < length fat" "small_table fat"
  shows "fat_chain (fat_link fat cs) cs"
  using assms
proof (induction fat cs rule: fat_link.induct)
  case (2 fat c)
  then show ?case by (simp add: next_cluster_eof)
next
  case (3 fat c d cs)
  have "fat_chain ((fat_link fat (d # cs))[c := of_nat d]) (d # cs)"
    using 3 by (intro fat_chain_cong [OF 3(1)]) (auto intro!: nth_list_update_neq)
  moreover have "next_cluster ((fat_link fat (d # cs))[c := of_nat d]) c = Some d"
    by (rule next_cluster_link) (use 3 in auto)
  ultimately show ?case using 3 by simp
qed simp

lemma fat_link_used:
  assumes "\<forall>c \<in> set cs. 2 \<le> c \<and> c < length fat" "small_table fat" "i \<in> set cs"
  shows "fat_link fat cs ! i \<noteq> 0"
  using assms
proof (induction fat cs rule: fat_link.induct)
  case (3 fat c d cs)
  have "unat (of_nat d :: u32) = d" by (rule unat_cluster) (use 3 in auto)
  then have "(of_nat d :: u32) \<noteq> 0" using 3 by auto
  then show ?case using 3 by (cases "i = c") auto
qed (auto simp: FAT_CLUSTER_EOF_def)

lemma fat_link_snoc:
  assumes "distinct (cs @ [p, c])" "p < length fat"
  shows "fat_link fat (cs @ [p, c]) = (fat_link fat (cs @ [p]))[c := FAT_CLUSTER_EOF, p := of_nat c]"
  using assms
proof (induction cs)
  case Nil
  then show ?case by (auto simp: list_update_swap)
next
  case (Cons x xs)
  then show ?case by (cases xs) (auto simp: list_update_swap)
qed

lemma fat_release_link:
  assumes "\<forall>c \<in> set cs. fat ! c = 0"
  shows "fat_release (fat_link fat cs) cs = fat"
  by (rule nth_equalityI) (use assms in \<open>auto simp: nth_fat_release fat_link_other\<close>)

lemma find_filter: "List.find P xs = (case filter P xs of [] \<Rightarrow> None | x # _ \<Rightarrow> Some x)"
  by (induction xs) auto

lemma find_free_cluster_filter:
  "find_free_cluster fat = (case free_clusters fat of [] \<Rightarrow> None | c # _ \<Rightarrow> Some c)"
  unfolding find_free_cluster_def free_clusters_def by (rule find_filter)

lemma filter_not_take: "distinct xs \<Longrightarrow> filter (\<lambda>x. x \<notin> set (take k xs)) xs = drop k xs"
proof -
  assume d: "distinct xs"
  have "filter (\<lambda>x. x \<notin> set (take k xs)) (take k xs @ drop k xs) = drop k xs"
    using d unfolding filter_append
    by (metis (no_types, lifting) append_Nil disjoint_iff filter_False filter_True set_take_disj_set_drop_if_distinct order_refl)
  then show ?thesis by simp
qed

lemma free_clusters_link:
  assumes "small_table fat"
  shows "free_clusters (fat_link fat (take k (free_clusters fat))) = drop k (free_clusters fat)"
proof -
  let ?F = "free_clusters fat"
  have r: "\<forall>c \<in> set (take k ?F). 2 \<le> c \<and> c < length fat"
    using free_clusters_set by (metis in_set_takeD)
  have "fat_link fat (take k ?F) ! c = 0 \<longleftrightarrow> fat ! c = 0 \<and> c \<notin> set (take k ?F)" for c
    using fat_link_used [OF r assms, of c] fat_link_other [of c "take k ?F" fat]
    by (cases "c \<in> set (take k ?F)") simp_all
  then have "free_clusters (fat_link fat (take k ?F)) = filter (\<lambda>c. c \<notin> set (take k ?F)) ?F"
    unfolding free_clusters_def length_fat_link FAT_CLUSTER_FREE_def filter_filter
    by (intro filter_cong) auto
  then show ?thesis by (simp add: filter_not_take)
qed

lemma free_chain_link:
  assumes "cs \<noteq> []" "distinct cs" "\<forall>c \<in> set cs. 2 \<le> c \<and> c < length fat \<and> fat ! c = 0" "small_table fat"
  shows "free_chain (fat_link fat cs) (hd cs) = (Some (), fat)"
proof -
  have "fat_chain (fat_link fat cs) cs" using assms by (intro fat_link_chain) auto
  then have "free_chain (fat_link fat cs) (hd cs) = (Some (), fat_release (fat_link fat cs) cs)"
    using free_chain_chain [of _ "hd cs" "tl cs"] assms(1) by simp
  also have "fat_release (fat_link fat cs) cs = fat"
    using assms(3) by (intro fat_release_link) auto
  finally show ?thesis .
qed

lemma take_Suc_link:
  assumes "Suc k < length (free_clusters fat)"
  defines "F \<equiv> free_clusters fat"
  shows "fat_link fat (take (Suc (Suc k)) F) =
     (fat_link fat (take (Suc k) F))[F ! Suc k := FAT_CLUSTER_EOF, F ! k := of_nat (F ! Suc k)]"
proof -
  have t: "take (Suc (Suc k)) F = take k F @ [F ! k, F ! Suc k]" "take (Suc k) F = take k F @ [F ! k]"
    using assms by (simp_all add: take_Suc_conv_app_nth)
  have "distinct (take (Suc (Suc k)) F)" by (simp add: F_def)
  moreover have "F ! k < length fat"
    using assms free_clusters_set [of "F ! k" fat] by (simp add: F_def)
  ultimately show ?thesis unfolding t by (intro fat_link_snoc) simp_all
qed

lemma allocate_loop_link:
  assumes small: "small_table fat" and k: "k \<le> length (free_clusters fat)" "0 < k + m"
  defines "F \<equiv> free_clusters fat"
  shows "allocate_loop (fat_link fat (take k F)) m (if k = 0 then 0 else hd F)
           (if k = 0 then None else Some (F ! (k - 1))) =
         (if k + m \<le> length F then (Some (hd F), fat_link fat (take (k + m) F)) else (None, fat))"
  using k
proof (induction m arbitrary: k)
  case 0
  then show ?case by (simp add: F_def)
next
  case (Suc m)
  have ff: "find_free_cluster (fat_link fat (take k F)) = (case drop k F of [] \<Rightarrow> None | c # _ \<Rightarrow> Some c)"
    using free_clusters_link [OF small] by (simp add: find_free_cluster_filter F_def)
  have range: "2 \<le> F ! i \<and> F ! i < length fat \<and> fat ! (F ! i) = 0" if "i < length F" for i
    using free_clusters_set [of "F ! i" fat] that by (simp add: F_def)
  show ?case
  proof (cases "k < length F")
    case True
    then have c: "find_free_cluster (fat_link fat (take k F)) = Some (F ! k)"
      using ff by (simp add: Cons_nth_drop_Suc [symmetric])
    show ?thesis
    proof (cases k)
      case 0
      have "take 1 F = [hd F]" "F ! 0 = hd F" using True 0 by (cases F; simp)+
      then show ?thesis
        using Suc.IH [of 1] c 0 True range [of 0]
        by (simp add: fat_set_def F_def [symmetric] Suc_le_eq)
    next
      case (Suc j)
      have "F ! j < length fat" using range [of j] Suc True by simp
      then show ?thesis
        using Suc.IH [of "Suc k"] c Suc True range [of k] take_Suc_link [of j fat]
        by (simp add: fat_set_def F_def)
    qed
  next
    case False
    with Suc.prems have kl: "k = length F" by (simp add: F_def)
    then have n: "find_free_cluster (fat_link fat (take k F)) = None" using ff by simp
    show ?thesis
    proof (cases "k = 0")
      case True
      with n kl show ?thesis by simp
    next
      case False
      then have "F \<noteq> []" "hd F \<noteq> 0" using kl range [of 0] by (auto simp: hd_conv_nth)
      moreover have "free_chain (fat_link fat F) (hd F) = (Some (), fat)"
        using \<open>F \<noteq> []\<close> small free_clusters_set by (intro free_chain_link) (auto simp: F_def)
      ultimately show ?thesis using n kl False by simp
    qed
  qed
qed

text \<open>What \<open>allocate_chain\<close> computes: the first free clusters, linked, or nothing at all.\<close>

lemma allocate_chain_eq:
  assumes "small_table fat"
  shows "allocate_chain fat count =
    (if count = 0 \<or> length (free_clusters fat) < count then (None, fat)
     else (Some (hd (free_clusters fat)), fat_link fat (take count (free_clusters fat))))"
  using allocate_loop_link [OF assms, of 0 count] by (auto simp: allocate_chain_def)

lemma allocate_chain_SomeD:
  assumes "allocate_chain fat count = (Some c, fat')" "small_table fat"
  obtains cs where "length cs = count" "hd cs = c" "cs \<noteq> []" "distinct cs" "fat_chain fat' cs"
    "\<forall>x \<in> set cs. 2 \<le> x \<and> x < length fat \<and> fat ! x = 0"
    "fat' = fat_link fat cs" "length fat' = length fat"
    "\<forall>x. x \<notin> set cs \<longrightarrow> fat' ! x = fat ! x"
proof -
  let ?cs = "take count (free_clusters fat)"
  from assms have n: "0 < count" "count \<le> length (free_clusters fat)"
    and c: "c = hd (free_clusters fat)" and f: "fat' = fat_link fat ?cs"
    by (auto simp: allocate_chain_eq not_less split: if_splits)
  have r: "\<forall>x \<in> set ?cs. 2 \<le> x \<and> x < length fat \<and> fat ! x = 0"
    using free_clusters_set by (metis in_set_takeD)
  have ne: "?cs \<noteq> []" using n by auto
  have "fat_chain fat' ?cs"
    unfolding f using ne r assms(2) by (intro fat_link_chain) auto
  moreover have "hd ?cs = c" using n c by (cases "free_clusters fat") (auto simp: take_Cons split: nat.splits)
  ultimately show thesis using that [of ?cs] ne r n f by (simp add: fat_link_other)
qed

section \<open>Extending and cutting a chain\<close>

lemma fat_chain_used:
  "fat_chain fat cs \<Longrightarrow> fat ! last cs \<noteq> 0 \<Longrightarrow> c \<in> set cs \<Longrightarrow> fat ! c \<noteq> 0"
  by (induction fat cs rule: fat_chain.induct) (auto split: if_splits dest: next_cluster_SomeD)

lemma next_cluster_cong:
  "length fat' = length fat \<Longrightarrow> fat' ! c = fat ! c \<Longrightarrow> next_cluster fat' c = next_cluster fat c"
  by (simp add: next_cluster_def)

lemma fat_chain_relink:
  assumes "fat_chain fat cs" "fat_chain fat' (n # ns)" "length fat' = length fat" "last cs < length fat"
    and "\<forall>c \<in> set cs - {last cs}. fat' ! c = fat ! c" "fat' ! last cs = of_nat n"
    and "0 < n" "n < 0x0FFFFFF8"
  shows "fat_chain fat' (cs @ n # ns)"
  using assms
proof (induction fat cs rule: fat_chain.induct)
  case (2 fat c)
  then show ?case using next_cluster_link [of fat' c n] by simp
next
  case (3 fat c d cs)
  have "c \<noteq> last (d # cs)" using fat_chain_distinct [OF 3(2)] last_in_set [of "d # cs"] by auto
  then have "fat' ! c = fat ! c" using 3(6) by simp
  then have "next_cluster fat' c = Some d" using 3(2) next_cluster_cong [OF 3(4)] by simp
  moreover have "fat_chain fat' ((d # cs) @ n # ns)"
    by (rule 3(1)) (use 3 \<open>c \<noteq> _\<close> in auto)
  ultimately show ?case using 3(2,4) by simp
qed simp

lemma fat_chain_extend:
  assumes ch: "fat_chain fat cs" "fat ! last cs \<noteq> 0" and small: "small_table fat"
    and ns: "ns \<noteq> []" "distinct ns" "\<forall>c \<in> set ns. 2 \<le> c \<and> c < length fat \<and> fat ! c = 0"
  shows "fat_chain ((fat_link fat ns)[last cs := of_nat (hd ns)]) (cs @ ns)"
proof -
  let ?t = "(fat_link fat ns)[last cs := of_nat (hd ns)]"
  obtain n r where n: "ns = n # r" using ns(1) by (cases ns) auto
  have ne: "cs \<noteq> []" using ch(1) by auto
  have disj: "c \<notin> set ns" if "c \<in> set cs" for c using fat_chain_used [OF ch] ns(3) that by auto
  have l: "last cs < length fat" using fat_chain_range [OF ch(1)] ne by simp
  have ln: "last cs \<notin> set ns" using disj ne by simp
  have "fat_chain (fat_link fat ns) ns" by (rule fat_link_chain [OF ns(1,2) _ small]) (use ns(3) in blast)
  then have t: "fat_chain ?t ns"
    by (rule fat_chain_cong) (use ln in \<open>auto intro!: nth_list_update_neq\<close>)
  have same: "?t ! c = fat ! c" if "c \<in> set cs - {last cs}" for c
    using that disj [of c] fat_link_other [of c ns fat] by auto
  have "2 \<le> n" "n < length fat" using ns(3) n by auto
  then show ?thesis
    using fat_chain_relink [OF ch(1) t [unfolded n]] l same n small by auto
qed

lemma fat_chain_cut:
  assumes "fat_chain fat (cs @ ds)" "cs \<noteq> []"
  shows "fat_chain (fat[last cs := FAT_CLUSTER_EOF]) cs"
  using assms
proof (induction cs)
  case (Cons c cs)
  show ?case
  proof (cases cs)
    case Nil
    then have "c < length fat" using Cons.prems fat_chain_range by fastforce
    with Nil show ?thesis by (simp add: next_cluster_eof)
  next
    case (Cons d r)
    have ch: "fat_chain fat (c # d # r @ ds)" using Cons.prems Cons by simp
    have "c \<noteq> last cs" using fat_chain_distinct [OF ch] Cons last_in_set [of cs] by auto
    then have "next_cluster (fat[last cs := FAT_CLUSTER_EOF]) c = Some d"
      using ch next_cluster_cong [of "fat[last cs := FAT_CLUSTER_EOF]" fat c] by simp
    moreover have "fat_chain (fat[last cs := FAT_CLUSTER_EOF]) cs"
      using Cons.IH ch Cons by simp
    ultimately show ?thesis using ch Cons by simp
  qed
qed simp

text \<open>Cutting a chain and releasing the rest keeps the front part.\<close>

lemma fat_chain_cut_release:
  assumes "fat_chain fat (cs @ ds)" "cs \<noteq> []"
  defines "t \<equiv> fat[last cs := FAT_CLUSTER_EOF]"
  shows "fat_chain (fat_release t ds) cs"
    and "ds \<noteq> [] \<Longrightarrow> next_cluster fat (last cs) = Some (hd ds)"
    and "ds = [] \<Longrightarrow> next_cluster fat (last cs) = None"
    and "ds \<noteq> [] \<Longrightarrow> free_chain t (hd ds) = (Some (), fat_release t ds)"
proof -
  have d: "distinct (cs @ ds)" using fat_chain_distinct [OF assms(1)] .
  have len: "length t = length fat" by (simp add: t_def)
  have same: "fat_release t ds ! c = t ! c" if c: "c \<in> set cs" for c
  proof -
    have "c < length fat" by (rule fat_chain_range [OF assms(1)]) (use c in simp)
    moreover have "c \<notin> set ds" using d c by auto
    ultimately show ?thesis by (simp add: nth_fat_release len)
  qed
  have "fat_chain t cs" unfolding t_def by (rule fat_chain_cut [OF assms(1,2)])
  then show "fat_chain (fat_release t ds) cs"
    by (rule fat_chain_cong) (simp_all add: same)
  have "cs @ ds = butlast cs @ last cs # ds" using assms(2) by simp
  then have l: "fat_chain fat (last cs # ds)" using assms(1) fat_chain_append by metis
  show "next_cluster fat (last cs) = Some (hd ds)" if "ds \<noteq> []" using l that by (cases ds) simp_all
  show "next_cluster fat (last cs) = None" if "ds = []" using l that by simp
  show "free_chain t (hd ds) = (Some (), fat_release t ds)" if ne: "ds \<noteq> []"
  proof -
    obtain x r where x: "ds = x # r" using ne by (cases ds) auto
    have "fat_chain fat ds" using assms(1) fat_chain_append x by metis
    moreover have "last cs \<notin> set ds" using d last_in_set [OF assms(2)] by auto
    moreover have "t ! c = fat ! c" if "c \<in> set ds" for c
      using that \<open>last cs \<notin> set ds\<close> unfolding t_def by (intro nth_list_update_neq) auto
    ultimately have "fat_chain t ds" by (intro fat_chain_cong [of fat ds t]) (simp_all add: len)
    then show ?thesis using free_chain_chain [of t x r] x by simp
  qed
qed

section \<open>The allocator as an interface\<close>

text \<open>
  What files and directories rely on of the table: allocation hands out a new chain of clusters
  that were not in use and keeps the chains there are, a failed allocation changes nothing, and
  releasing a chain gives back exactly its clusters.
\<close>

locale chain_allocator =
  fixes inv :: "'t \<Rightarrow> bool"
    and alloc :: "'t \<Rightarrow> nat \<Rightarrow> nat option \<times> 't"
    and release :: "'t \<Rightarrow> nat \<Rightarrow> unit option \<times> 't"
    and chain :: "'t \<Rightarrow> nat list \<Rightarrow> bool"
    and used :: "'t \<Rightarrow> nat set"
  assumes alloc_Some: "inv t \<Longrightarrow> alloc t n = (Some c, t') \<Longrightarrow>
      inv t' \<and> (\<exists>cs. chain t' cs \<and> hd cs = c \<and> length cs = n \<and> set cs \<inter> used t = {}
        \<and> used t' = used t \<union> set cs)"
    and alloc_None: "inv t \<Longrightarrow> alloc t n = (None, t') \<Longrightarrow> t' = t"
    and alloc_keeps: "inv t \<Longrightarrow> alloc t n = (r, t') \<Longrightarrow> chain t ds \<Longrightarrow> set ds \<subseteq> used t \<Longrightarrow> chain t' ds"
    and release_chain: "inv t \<Longrightarrow> chain t cs \<Longrightarrow>
      \<exists>t'. release t (hd cs) = (Some (), t') \<and> inv t' \<and> used t' = used t - set cs"
    and release_keeps: "inv t \<Longrightarrow> chain t cs \<Longrightarrow> release t (hd cs) = (r2, t') \<Longrightarrow> chain t ds \<Longrightarrow>
      set ds \<inter> set cs = {} \<Longrightarrow> chain t' ds"
begin

lemma alloc_twice:
  assumes "inv t" "alloc t m = (Some a, t1)" "alloc t1 n = (Some b, t2)"
  shows "\<exists>xs ys. chain t2 xs \<and> chain t2 ys \<and> hd xs = a \<and> hd ys = b \<and> length xs = m \<and> length ys = n
     \<and> set xs \<inter> set ys = {}"
proof -
  obtain xs where xs: "inv t1" "chain t1 xs" "hd xs = a" "length xs = m" "used t1 = used t \<union> set xs"
    using alloc_Some [OF assms(1,2)] by blast
  obtain ys where ys: "chain t2 ys" "hd ys = b" "length ys = n" "set ys \<inter> used t1 = {}"
    using alloc_Some [OF xs(1) assms(3)] by blast
  have "chain t2 xs" using alloc_keeps [OF xs(1) assms(3) xs(2)] xs(5) by simp
  with xs ys show ?thesis by blast
qed

lemma alloc_release:
  assumes "inv t" "alloc t n = (Some c, t1)"
  shows "\<exists>t2. release t1 c = (Some (), t2) \<and> used t2 = used t"
proof -
  obtain cs where cs: "inv t1" "chain t1 cs" "hd cs = c" "set cs \<inter> used t = {}" "used t1 = used t \<union> set cs"
    using alloc_Some [OF assms] by blast
  from release_chain [OF cs(1,2)] show ?thesis using cs by auto
qed

end

definition used_clusters :: "fat_buffer \<Rightarrow> nat set" where
  "used_clusters fat = {c. c < length fat \<and> fat ! c \<noteq> 0}"

lemma allocate_chain_keeps:
  assumes "small_table fat" "allocate_chain fat n = (r, fat')" "fat_chain fat ds" "set ds \<subseteq> used_clusters fat"
  shows "fat_chain fat' ds"
proof (cases r)
  case None
  then show ?thesis using assms by (auto simp: allocate_chain_eq split: if_splits)
next
  case (Some c)
  with assms(2) have a: "allocate_chain fat n = (Some c, fat')" by simp
  obtain cs where cs: "\<forall>x \<in> set cs. 2 \<le> x \<and> x < length fat \<and> fat ! x = 0" "length fat' = length fat"
      "\<forall>x. x \<notin> set cs \<longrightarrow> fat' ! x = fat ! x"
    by (rule allocate_chain_SomeD [OF a assms(1)]) blast
  have "fat' ! x = fat ! x" if "x \<in> set ds" for x
    using cs assms(4) that by (auto simp: used_clusters_def)
  then show ?thesis using fat_chain_cong [OF assms(3) cs(2)] by simp
qed

interpretation fat_alloc: chain_allocator small_table allocate_chain free_chain fat_chain used_clusters
proof (unfold_locales, goal_cases)
  case (1 t n c t')
  obtain cs where cs: "length cs = n" "hd cs = c" "fat_chain t' cs"
      "\<forall>x \<in> set cs. 2 \<le> x \<and> x < length t \<and> t ! x = 0" "t' = fat_link t cs" "length t' = length t"
      "\<forall>x. x \<notin> set cs \<longrightarrow> t' ! x = t ! x"
    by (rule allocate_chain_SomeD [OF 1(2,1)]) blast
  have "t' ! x \<noteq> 0" if "x \<in> set cs" for x
    unfolding cs(5) by (rule fat_link_used) (use cs(4) 1(1) that in auto)
  then have "used_clusters t' = used_clusters t \<union> set cs"
    using cs(4,6,7) by (auto simp: used_clusters_def)
  then show ?case using cs 1(1) by (auto simp: used_clusters_def)
next
  case (2 t n t')
  then show ?case by (auto simp: allocate_chain_eq split: if_splits)
next
  case (3 t n r t' ds)
  then show ?case by (rule allocate_chain_keeps)
next
  case (4 t cs)
  then obtain c r where cs: "cs = c # r" by (cases cs) auto
  have "used_clusters (fat_release t cs) = used_clusters t - set cs"
    by (auto simp: used_clusters_def nth_fat_release split: if_splits)
  then show ?case using free_chain_chain [of t c r] 4 cs by simp
next
  case (5 t cs r t' ds)
  then obtain c x where cs: "cs = c # x" by (cases cs) auto
  then have t': "t' = fat_release t cs" using free_chain_chain [of t c x] 5 by simp
  have "t' ! d = t ! d" if "d \<in> set ds" for d
    using 5(5) that fat_chain_range [OF 5(4) that] by (auto simp: t' nth_fat_release)
  then show ?case using fat_chain_cong [OF 5(4), of t'] t' by simp
qed

section \<open>Properties\<close>

text \<open>
  C11.  Allocation.  \<open>allocate_chain\<close> of \<open>count\<close> clusters either fails, exactly when the count is
  zero or exceeds the number of free clusters, and then the table is what it was, or it returns the
  head of a chain of exactly \<open>count\<close> clusters, all of them free before, and no other entry of
  the table has changed.
\<close>

theorem allocate_chain_correct:
  assumes "length fat \<le> 0x0FFFFFF8"
  shows "case allocate_chain fat count of
      (None, fat') \<Rightarrow> fat' = fat \<and> (count = 0 \<or> length (free_clusters fat) < count)
    | (Some c, fat') \<Rightarrow> \<exists>cs. hd cs = c \<and> length cs = count \<and> distinct cs \<and> fat_chain fat' cs
        \<and> (\<forall>x \<in> set cs. 2 \<le> x \<and> x < length fat \<and> fat ! x = 0)
        \<and> (\<forall>x. x \<notin> set cs \<longrightarrow> fat' ! x = fat ! x)"
proof (cases "allocate_chain fat count")
  case (Pair r fat')
  show ?thesis
  proof (cases r)
    case None
    then show ?thesis using Pair assms by (auto simp: allocate_chain_eq split: if_splits)
  next
    case (Some c)
    with Pair have a: "allocate_chain fat count = (Some c, fat')" by simp
    obtain cs where "length cs = count" "hd cs = c" "distinct cs" "fat_chain fat' cs"
        "\<forall>x \<in> set cs. 2 \<le> x \<and> x < length fat \<and> fat ! x = 0" "\<forall>x. x \<notin> set cs \<longrightarrow> fat' ! x = fat ! x"
      by (rule allocate_chain_SomeD [OF a assms]) blast
    then show ?thesis unfolding Pair Some prod.case option.case by blast
  qed
qed

theorem allocate_chain_correct_witness:
  "\<exists>cs. hd cs = 2 \<and> length cs = 2 \<and> fat_chain [0, 0, 4, 7, 0x0FFFFFFF, 0] cs"
proof -
  have "allocate_chain [0, 0, 0, 7, 0, 0] 2 = (Some 2, [0, 0, 4, 7, 0x0FFFFFFF, 0])"
    by code_simp
  then show ?thesis using allocate_chain_correct [of "[0, 0, 0, 7, 0, 0]" 2] by auto
qed



text \<open>
  C24.  Allocating and releasing are inverse: after \<open>free_chain\<close> on the chain that
  \<open>allocate_chain\<close> returned, the table is the one before the allocation.
\<close>

theorem allocate_then_free:
  assumes "length fat \<le> 0x0FFFFFF8" "allocate_chain fat count = (Some c, fat')"
  shows "free_chain fat' c = (Some (), fat)"
proof -
  obtain cs where "hd cs = c" "cs \<noteq> []" "distinct cs" "fat' = fat_link fat cs"
      "\<forall>x \<in> set cs. 2 \<le> x \<and> x < length fat \<and> fat ! x = 0"
    by (rule allocate_chain_SomeD [OF assms(2,1)]) blast
  then show ?thesis using free_chain_link [of cs fat] assms(1) by auto
qed

theorem allocate_then_free_witness:
  "free_chain [0, 0, 4, 7, 0x0FFFFFFF, 0] 2 = (Some (), [0, 0, 0, 7, 0, 0])"
proof -
  have "allocate_chain [0, 0, 0, 7, 0, 0] 2 = (Some 2, [0, 0, 4, 7, 0x0FFFFFFF, 0])"
    by code_simp
  then show ?thesis by (intro allocate_then_free [of _ 2]) simp_all
qed

text \<open>
  C25.  Two chains that are allocated one after the other share no cluster, and the first is still
  a chain after the second allocation.
\<close>

theorem allocated_chains_disjoint:
  assumes "length fat \<le> 0x0FFFFFF8"
    and "allocate_chain fat m = (Some a, fat1)" "allocate_chain fat1 n = (Some b, fat2)"
  shows "\<exists>xs ys. fat_chain fat2 xs \<and> fat_chain fat2 ys \<and> hd xs = a \<and> hd ys = b
     \<and> length xs = m \<and> length ys = n \<and> set xs \<inter> set ys = {}"
  using assms by (rule fat_alloc.alloc_twice)

theorem allocated_chains_disjoint_witness:
  "\<exists>xs ys. fat_chain [0, 0, 0x0FFFFFFF, 0x0FFFFFFF] xs \<and> fat_chain [0, 0, 0x0FFFFFFF, 0x0FFFFFFF] ys
     \<and> hd xs = 2 \<and> hd ys = 3 \<and> length xs = 1 \<and> length ys = 1 \<and> set xs \<inter> set ys = {}"
proof (rule allocated_chains_disjoint)
  show "allocate_chain [0, 0, 0, 0] 1 = (Some 2, [0, 0, 0x0FFFFFFF, 0])" by code_simp
  show "allocate_chain [0, 0, 0x0FFFFFFF, 0] 1 = (Some 3, [0, 0, 0x0FFFFFFF, 0x0FFFFFFF])" by code_simp
qed simp

end
