(* ===== verification/Fat_Dir.thy ===== *)
theory Fat_Dir
  imports Fat_Names
begin

text \<open>
  Decoding directory slots into live entries and deriving the on-disk entries of a new name:
  \<open>parse_directory_entries\<close>, \<open>find_parsed_entry\<close>, \<open>prepare_name_entries\<close> and the small
  constructors of \<open>FATFileSystem\<close> in \<open>src/fs/fat_fs.rs\<close> that do not touch the disk.

  The lemmas show that what \<open>prepare_name_entries\<close> writes is what
  \<open>parse_directory_entries\<close> reads back, that deleted slots vanish from the listing, and that
  parsing stops at the end marker.
\<close>

record directory_entry_location =
  loc_cluster :: nat
  loc_index :: nat
  loc_offset :: nat

record located_directory_entry =
  located_entry :: directory_entry
  located_location :: directory_entry_location
  located_name :: ustr
  located_lfn_locations :: "directory_entry_location list"

type_synonym slot = "directory_entry \<times> directory_entry_location"

text \<open>The local variables of \<open>parse_directory_entries\<close> that survive an iteration.\<close>

record lfn_state =
  lfn_chunks :: "u16 list list"
  lfn_locations :: "directory_entry_location list"
  lfn_expected_sequence :: u8
  lfn_checksum_value :: u8

definition lfn_init :: lfn_state where
  "lfn_init = \<lparr> lfn_chunks = [], lfn_locations = [], lfn_expected_sequence = 0, lfn_checksum_value = 0 \<rparr>"

definition lfn_clear :: "lfn_state \<Rightarrow> lfn_state" where
  "lfn_clear st = st\<lparr> lfn_chunks := [], lfn_locations := [], lfn_expected_sequence := 0 \<rparr>"

definition lfn_start :: "lfn_state \<Rightarrow> long_directory_entry \<Rightarrow> lfn_state" where
  "lfn_start st lfn =
     (if lfn_is_last lfn then
        st\<lparr> lfn_chunks := [], lfn_locations := [], lfn_checksum_value := lde_checksum lfn,
           lfn_expected_sequence :=
             (if 1 \<le> lfn_sequence lfn \<and> unat (lfn_sequence lfn) \<le> LFN_MAX_ENTRIES
              then lfn_sequence lfn else 0) \<rparr>
      else st)"

definition lfn_step :: "lfn_state \<Rightarrow> directory_entry \<Rightarrow> directory_entry_location \<Rightarrow> lfn_state" where
  "lfn_step st entry location =
     (let lfn = from_directory_entry entry;
          sequence = lfn_sequence lfn;
          st1 = lfn_start st lfn
      in if lfn_expected_sequence st1 = 0 \<or> sequence \<noteq> lfn_expected_sequence st1
            \<or> lde_checksum lfn \<noteq> lfn_checksum_value st1
         then lfn_clear st1
         else st1\<lparr> lfn_chunks := lfn_chunks st1 @ [name_units lfn],
                   lfn_locations := lfn_locations st1 @ [location],
                   lfn_expected_sequence := lfn_expected_sequence st1 - 1 \<rparr>)"

definition lfn_finish ::
  "(ustr \<Rightarrow> ustr) \<Rightarrow> lfn_state \<Rightarrow> directory_entry \<Rightarrow> directory_entry_location \<Rightarrow> located_directory_entry"
where
  "lfn_finish lc st entry location =
     (let short_name = de_name entry;
          lfn_complete = (lfn_expected_sequence st = 0 \<and> lfn_chunks st \<noteq> []
                          \<and> lfn_checksum_value st = lfn_checksum short_name);
          long_name = (if lfn_complete then decode_long_filename (concat (rev (lfn_chunks st))) else None);
          (name, locations) = (case long_name of
             Some name \<Rightarrow> (name, lfn_locations st)
           | None \<Rightarrow> (get_filename_from_fat lc short_name, []))
      in \<lparr> located_entry = entry, located_location = location, located_name = name,
           located_lfn_locations = locations \<rparr>)"

fun parse_loop :: "(ustr \<Rightarrow> ustr) \<Rightarrow> lfn_state \<Rightarrow> slot list \<Rightarrow> located_directory_entry list" where
  "parse_loop lc st [] = []"
| "parse_loop lc st ((entry, location) # slots) =
     (if is_end_marker entry then []
      else if is_deleted entry then parse_loop lc (lfn_clear st) slots
      else if is_long_filename entry then parse_loop lc (lfn_step st entry location) slots
      else if is_volume_label entry then parse_loop lc (lfn_clear st) slots
      else lfn_finish lc st entry location # parse_loop lc (lfn_clear st) slots)"

definition parse_directory_entries :: "(ustr \<Rightarrow> ustr) \<Rightarrow> slot list \<Rightarrow> located_directory_entry list" where
  "parse_directory_entries lc slots = parse_loop lc lfn_init slots"

definition find_parsed_entry ::
  "(ustr \<Rightarrow> ustr) \<Rightarrow> located_directory_entry list \<Rightarrow> ustr \<Rightarrow> located_directory_entry option" where
  "find_parsed_entry lc parsed name =
     List.find (\<lambda>candidate.
       eq_ignore_ascii_case (located_name candidate) name
       \<or> eq_ignore_ascii_case (get_filename_from_fat lc (de_name (located_entry candidate))) name) parsed"

definition lfn_chunk :: "u16 list \<Rightarrow> nat \<Rightarrow> u16 list" where
  "lfn_chunk units chunk_index =
     (let start = chunk_index * LFN_UNITS_PER_ENTRY;
          stop = min (start + LFN_UNITS_PER_ENTRY) (length units)
      in take (stop - start) (drop start units))"

definition prepare_name_entries ::
  "(ustr \<Rightarrow> ustr) \<Rightarrow> located_directory_entry list \<Rightarrow> ustr \<Rightarrow> (bytes \<times> long_directory_entry list) option"
where
  "prepare_name_entries uc parsed filename =
     (case get_fat_filename uc filename of
        Some short_name \<Rightarrow> Some (short_name, [])
      | None \<Rightarrow> do {
          units \<leftarrow> encode_long_filename filename;
          let taken = map (\<lambda>entry. de_name (located_entry entry)) parsed;
          short_name \<leftarrow> generate_short_alias filename taken;
          let checksum = lfn_checksum short_name;
          let chunk_count = (length units + LFN_UNITS_PER_ENTRY - 1) div LFN_UNITS_PER_ENTRY;
          Some (short_name,
            map (\<lambda>chunk_index.
                   lfn_new (of_nat (chunk_index + 1)) (chunk_index = chunk_count - 1) checksum
                     (lfn_chunk units chunk_index))
              (rev [0..<chunk_count]))
        })"

definition new_file_entry :: "bytes \<Rightarrow> directory_entry" where
  "new_file_entry short_name =
     \<lparr> de_name = short_name, de_attributes = 0x20, de_reserved = 0,
       de_creation_time_centiseconds = 0, de_creation_time = 0, de_creation_date = 0,
       de_last_accessed_date = 0, de_first_cluster_high = 0, de_modified_time = 0,
       de_modified_date = 0, de_first_cluster_low = 0, de_size = 0 \<rparr>"

definition directory_entry_for :: "bytes \<Rightarrow> nat \<Rightarrow> directory_entry" where
  "directory_entry_for name cluster =
     set_cluster
       \<lparr> de_name = name, de_attributes = 0x10, de_reserved = 0,
         de_creation_time_centiseconds = 0, de_creation_time = 0, de_creation_date = 0,
         de_last_accessed_date = 0, de_first_cluster_high = 0, de_modified_time = 0,
         de_modified_date = 0, de_first_cluster_low = 0, de_size = 0 \<rparr> cluster"

definition dot_name :: "bool \<Rightarrow> bytes" where
  "dot_name parent =
     (let name = (replicate 11 32)[0 := 46] in if parent then name[1 := 46] else name)"

definition is_dot_name :: "bytes \<Rightarrow> bool" where
  "is_dot_name name \<longleftrightarrow> name = dot_name False \<or> name = dot_name True"

section \<open>Reading back a prepared name\<close>

lemma lfn_clear_sel [simp]:
  "lfn_chunks (lfn_clear st) = []" "lfn_locations (lfn_clear st) = []"
  "lfn_expected_sequence (lfn_clear st) = 0"
  "lfn_checksum_value (lfn_clear st) = lfn_checksum_value st"
  by (simp_all add: lfn_clear_def)

lemma sequence_numbers:
  assumes "1 \<le> n" "n \<le> 20"
  defines "s \<equiv> of_nat n :: u8"
  shows "unat s = n" "s AND LFN_SEQUENCE_MASK = s" "s AND LFN_LAST_ENTRY_FLAG = 0"
    "(s OR LFN_LAST_ENTRY_FLAG) AND LFN_SEQUENCE_MASK = s"
    "(s OR LFN_LAST_ENTRY_FLAG) AND LFN_LAST_ENTRY_FLAG \<noteq> 0"
    "s \<noteq> 0" "s \<noteq> 0xE5" "s OR LFN_LAST_ENTRY_FLAG \<noteq> 0" "s OR LFN_LAST_ENTRY_FLAG \<noteq> 0xE5"
proof -
  have "n \<in> set [1..<21]" using assms by simp
  then have "n \<in> {1,2,3,4,5,6,7,8,9,10,11,12,13,14,15,16,17,18,19,20}"
    by (simp add: upt_rec numeral_eq_Suc)
  then show "unat s = n" "s AND LFN_SEQUENCE_MASK = s" "s AND LFN_LAST_ENTRY_FLAG = 0"
    "(s OR LFN_LAST_ENTRY_FLAG) AND LFN_SEQUENCE_MASK = s"
    "(s OR LFN_LAST_ENTRY_FLAG) AND LFN_LAST_ENTRY_FLAG \<noteq> 0"
    "s \<noteq> 0" "s \<noteq> 0xE5" "s OR LFN_LAST_ENTRY_FLAG \<noteq> 0" "s OR LFN_LAST_ENTRY_FLAG \<noteq> 0xE5"
    by (auto simp: s_def lfn_consts)
qed

lemma length_lfn_chunk: "length (lfn_chunk units i) \<le> 13"
  by (auto simp: lfn_chunk_def LFN_UNITS_PER_ENTRY_def Let_def)

lemma parse_loop_lfn:
  assumes "length units \<le> 13" "1 \<le> n" "n \<le> 20"
    and "last_chunk \<or> lfn_expected_sequence st = of_nat n \<and> lfn_checksum_value st = ck"
  shows "parse_loop lc st ((to_directory_entry (lfn_new (of_nat n) last_chunk ck units), l) # slots) =
     parse_loop lc
       \<lparr> lfn_chunks = (if last_chunk then [] else lfn_chunks st) @ [lfn_pad units],
         lfn_locations = (if last_chunk then [] else lfn_locations st) @ [l],
         lfn_expected_sequence = of_nat n - 1, lfn_checksum_value = ck \<rparr> slots"
proof -
  note sn = sequence_numbers [OF assms(2,3)]
  let ?l = "lfn_new (of_nat n) last_chunk ck units"
  have o: "lde_order ?l \<noteq> 0" "lde_order ?l \<noteq> 0xE5" using sn by auto
  have seq: "lfn_sequence ?l = of_nat n" "lfn_is_last ?l = last_chunk"
    using sn by (simp_all add: lfn_sequence_def lfn_is_last_def)
  have "1 \<le> (of_nat n :: u8)" using sn(1) assms(2) by (simp add: word_le_nat_alt)
  then have "lfn_step st (to_directory_entry ?l) l =
      \<lparr> lfn_chunks = (if last_chunk then [] else lfn_chunks st) @ [lfn_pad units],
         lfn_locations = (if last_chunk then [] else lfn_locations st) @ [l],
         lfn_expected_sequence = of_nat n - 1, lfn_checksum_value = ck \<rparr>"
    using assms sn(1,6) seq
    by (cases st) (auto simp: lfn_step_def lfn_start_def Let_def lfn_consts)
  then show ?thesis using assms(1) o by (simp add: lfn_entry_flags)
qed

definition lfn_entries_for :: "u16 list \<Rightarrow> u8 \<Rightarrow> nat \<Rightarrow> nat \<Rightarrow> directory_entry list" where
  "lfn_entries_for units ck n j =
     map (\<lambda>i. to_directory_entry (lfn_new (of_nat (i + 1)) (i = n - 1) ck (lfn_chunk units i))) (rev [0..<j])"

lemma length_lfn_entries_for [simp]: "length (lfn_entries_for units ck n j) = j"
  by (simp add: lfn_entries_for_def)

lemma lfn_entries_for_Suc:
  "lfn_entries_for units ck n (Suc j) =
     to_directory_entry (lfn_new (of_nat (Suc j)) (j = n - 1) ck (lfn_chunk units j))
       # lfn_entries_for units ck n j"
  by (simp add: lfn_entries_for_def)

lemma parse_loop_run:
  assumes "j < n" "n \<le> 20" "length locs = j"
    and "lfn_expected_sequence st = of_nat j" "lfn_checksum_value st = ck"
  shows "parse_loop lc st (zip (lfn_entries_for units ck n j) locs @ rest) =
     parse_loop lc
       \<lparr> lfn_chunks = lfn_chunks st @ map (\<lambda>i. lfn_pad (lfn_chunk units i)) (rev [0..<j]),
         lfn_locations = lfn_locations st @ locs,
         lfn_expected_sequence = 0, lfn_checksum_value = ck \<rparr> rest"
  using assms
proof (induction j arbitrary: st locs)
  case 0
  then show ?case by (cases st) (simp add: lfn_entries_for_def)
next
  case (Suc j)
  then obtain l ls where locs: "locs = l # ls" "length ls = j" by (cases locs) auto
  let ?st = "\<lparr> lfn_chunks = lfn_chunks st @ [lfn_pad (lfn_chunk units j)],
       lfn_locations = lfn_locations st @ [l], lfn_expected_sequence = of_nat j, lfn_checksum_value = ck \<rparr>"
  have "parse_loop lc st (zip (lfn_entries_for units ck n (Suc j)) locs @ rest) =
      parse_loop lc ?st (zip (lfn_entries_for units ck n j) ls @ rest)"
  proof -
    have "j \<noteq> n - 1" using Suc.prems by simp
    then have "lfn_entries_for units ck n (Suc j) =
        to_directory_entry (lfn_new (of_nat (Suc j)) False ck (lfn_chunk units j)) # lfn_entries_for units ck n j"
      by (simp only: lfn_entries_for_Suc simp_thms)
    then show ?thesis
      using parse_loop_lfn [of "lfn_chunk units j" "Suc j" False st ck lc l
          "zip (lfn_entries_for units ck n j) ls @ rest"] Suc.prems locs
      by (simp add: length_lfn_chunk del: parse_loop.simps)
  qed
  with Suc locs show ?case by (simp del: parse_loop.simps)
qed

lemma parse_loop_lfns:
  assumes "1 \<le> n" "n \<le> 20" "length locs = n"
  shows "parse_loop lc st (zip (lfn_entries_for units ck n n) locs @ rest) =
     parse_loop lc
       \<lparr> lfn_chunks = map (\<lambda>i. lfn_pad (lfn_chunk units i)) (rev [0..<n]), lfn_locations = locs,
         lfn_expected_sequence = 0, lfn_checksum_value = ck \<rparr> rest"
proof -
  obtain j where j: "n = Suc j" using assms(1) by (cases n) auto
  then obtain l ls where locs: "locs = l # ls" "length ls = j" using assms(3) by (cases locs) auto
  have "parse_loop lc st (zip (lfn_entries_for units ck n n) locs @ rest) =
      parse_loop lc \<lparr> lfn_chunks = [lfn_pad (lfn_chunk units j)],
       lfn_locations = [l], lfn_expected_sequence = of_nat j, lfn_checksum_value = ck \<rparr>
       (zip (lfn_entries_for units ck n j) ls @ rest)"
    using parse_loop_lfn [of "lfn_chunk units j" n True st ck lc l
        "zip (lfn_entries_for units ck n j) ls @ rest"] assms locs j
    by (simp add: lfn_entries_for_Suc length_lfn_chunk del: parse_loop.simps)
  with parse_loop_run [of j n ls "\<lparr> lfn_chunks = [lfn_pad (lfn_chunk units j)],
       lfn_locations = [l], lfn_expected_sequence = of_nat j, lfn_checksum_value = ck \<rparr>" ck lc units rest]
  show ?thesis using assms j locs by (simp del: parse_loop.simps)
qed

text \<open>The padded chunks, put together, are the units followed by nothing or by a terminator.\<close>

lemma lfn_chunk_full: "(i + 1) * 13 \<le> length units \<Longrightarrow> lfn_chunk units i = take 13 (drop (i * 13) units)"
  by (simp add: lfn_chunk_def LFN_UNITS_PER_ENTRY_def Let_def)

lemma concat_full_chunks:
  "k * 13 \<le> length units \<Longrightarrow>
     concat (map (\<lambda>i. lfn_pad (lfn_chunk units i)) [0..<k]) = take (k * 13) units"
proof (induction k)
  case (Suc k)
  then have "lfn_pad (lfn_chunk units k) = take 13 (drop (k * 13) units)"
    by (simp add: lfn_chunk_full lfn_pad_def)
  with Suc show ?case by (simp add: take_add [symmetric] add.commute)
qed simp

lemma concat_chunks:
  assumes "units \<noteq> []"
  defines "n \<equiv> (12 + length units) div 13"
  shows "\<exists>pad. (pad = [] \<or> hd pad = 0) \<and>
     concat (map (\<lambda>i. lfn_pad (lfn_chunk units i)) [0..<n]) = units @ pad"
proof -
  obtain k where n: "n = Suc k" using assms by (cases n) (auto simp: n_def div_eq_0_iff)
  have k: "k * 13 < length units" "length units \<le> k * 13 + 13"
    using n unfolding n_def by linarith+
  let ?r = "drop (k * 13) units"
  have "lfn_chunk units k = ?r"
    using k by (simp add: lfn_chunk_def LFN_UNITS_PER_ENTRY_def Let_def min_def)
  then have "concat (map (\<lambda>i. lfn_pad (lfn_chunk units i)) [0..<n]) = take (k * 13) units @ lfn_pad ?r"
    using k(1) by (simp add: n concat_full_chunks)
  also have "\<dots> = units @ (if length ?r < 13 then 0 # replicate (12 - length ?r) 0xFFFF else [])"
    by (simp only: lfn_pad_def append_assoc [symmetric] append_take_drop_id)
  finally show ?thesis by fastforce
qed

text \<open>Once the pending chain is cleared, the last checksum no longer matters.\<close>

lemma lfn_start_last: "lfn_is_last lfn \<Longrightarrow> lfn_start s lfn = lfn_start t lfn"
  by (cases s; cases t) (simp only: lfn_start_def if_True lfn_state.simps)

lemma lfn_step_orphan:
  assumes "lfn_expected_sequence s = 0" "\<not> lfn_is_last (from_directory_entry e)"
  shows "lfn_step s e l = lfn_clear s"
  using assms unfolding lfn_step_def Let_def by (simp add: lfn_start_def)

lemma parse_loop_cleared:
  assumes "lfn_chunks s = []" "lfn_locations s = []" "lfn_expected_sequence s = 0"
    and "lfn_chunks t = []" "lfn_locations t = []" "lfn_expected_sequence t = 0"
  shows "parse_loop lc s slots = parse_loop lc t slots"
  using assms
proof (induction slots arbitrary: s t)
  case (Cons x slots)
  obtain e l where x: "x = (e, l)" by fastforce
  let ?f = "from_directory_entry e"
  have c: "parse_loop lc (lfn_clear s) slots = parse_loop lc (lfn_clear t) slots"
    by (rule Cons.IH) simp_all
  have "lfn_finish lc s e l = lfn_finish lc t e l"
    using Cons.prems by (simp add: lfn_finish_def)
  moreover have "parse_loop lc (lfn_step s e l) slots = parse_loop lc (lfn_step t e l) slots"
  proof (cases "lfn_is_last ?f")
    case True
    then have "lfn_start s ?f = lfn_start t ?f"
      by (rule lfn_start_last)
    then have "lfn_step s e l = lfn_step t e l" by (simp only: lfn_step_def Let_def)
    then show ?thesis by (simp only:)
  next
    case False
    then have "lfn_step s e l = lfn_clear s" "lfn_step t e l = lfn_clear t"
      using Cons.prems by (simp_all add: lfn_step_orphan)
    then show ?thesis using c by (simp only:)
  qed
  ultimately show ?case using c by (simp only: x parse_loop.simps)
qed simp

lemma parse_loop_clear: "parse_loop lc (lfn_clear st) slots = parse_loop lc lfn_init slots"
  by (rule parse_loop_cleared) (simp_all add: lfn_init_def)

lemma prepare_name_entries_cases:
  assumes "prepare_name_entries uc parsed f = Some (sn, lfns)"
  obtains (short) "get_fat_filename uc f = Some sn" "lfns = []"
  | (long) units n where "get_fat_filename uc f = None" "encode_long_filename f = Some units"
      "generate_short_alias f (map (\<lambda>p. de_name (located_entry p)) parsed) = Some sn"
      "n = (12 + length units) div 13" "length lfns = n"
      "map to_directory_entry lfns = lfn_entries_for units (lfn_checksum sn) n n"
      "\<forall>x \<in> set lfns. wf_lfn x"
proof (cases "get_fat_filename uc f")
  case None
  with assms obtain units where u1: "encode_long_filename f = Some units"
    by (cases "encode_long_filename f") (simp_all add: prepare_name_entries_def)
  with None assms have u2: "generate_short_alias f (map (\<lambda>p. de_name (located_entry p)) parsed) = Some sn"
    by (cases "generate_short_alias f (map (\<lambda>p. de_name (located_entry p)) parsed)")
       (simp_all add: prepare_name_entries_def Let_def)
  note u = u1 u2
  have l: "lfns = map (\<lambda>chunk_index.
                   lfn_new (of_nat (chunk_index + 1)) (chunk_index = (12 + length units) div 13 - 1)
                     (lfn_checksum sn) (lfn_chunk units chunk_index)) (rev [0..<(12 + length units) div 13])"
    using assms None u by (simp add: prepare_name_entries_def LFN_UNITS_PER_ENTRY_def Let_def)
  have "\<forall>x \<in> set lfns. wf_lfn x" unfolding l by (auto simp: length_lfn_chunk)
  then show thesis
    by (intro long [OF None u refl]) (simp_all add: l lfn_entries_for_def)
next
  case (Some sn')
  with assms show thesis by (intro short) (simp_all add: prepare_name_entries_def)
qed

lemma prepare_name_entries_short_name:
  assumes "prepare_name_entries uc parsed f = Some (sn, lfns)"
  shows "length sn = 11" "sn ! 0 \<noteq> 0x00" "sn ! 0 \<noteq> 0xE5"
  using assms
  by (cases rule: prepare_name_entries_cases;
      simp add: get_fat_filename_short generate_short_alias_SomeD)+

lemma parse_prepared_entries:
  assumes prep: "prepare_name_entries uc parsed f = Some (sn, lfns)" and f: "is_str f"
    and e: "de_name e = sn" "\<not> is_long_filename e" "\<not> is_volume_label e"
    and locs: "length locs = length lfns" and st: "lfns = [] \<Longrightarrow> lfn_chunks st = []"
  shows "parse_loop lc st (zip (map to_directory_entry lfns) locs @ (e, l) # rest) =
     \<lparr> located_entry = e, located_location = l,
       located_name = (if lfns = [] then get_filename_from_fat lc sn else f),
       located_lfn_locations = locs \<rparr> # parse_loop lc lfn_init rest"
proof -
  note sn = prepare_name_entries_short_name [OF prep]
  have live: "\<not> is_end_marker e" "\<not> is_deleted e"
    using sn e(1) by (simp_all add: is_end_marker_def is_deleted_def)
  from prep show ?thesis
  proof (cases rule: prepare_name_entries_cases)
    case short
    then show ?thesis
      using live e locs st by (simp add: lfn_finish_def parse_loop_clear)
  next
    case (long units n)
    note u = encode_long_filename_SomeD [OF long(2) f]
    have n: "1 \<le> n" "n \<le> 20" using u(3,4) long(4) by (cases units; auto)+
    then have ne: "lfns \<noteq> []" using long(5) by auto
    let ?cs = "map (\<lambda>i. lfn_pad (lfn_chunk units i)) (rev [0..<n])"
    let ?st = "\<lparr> lfn_chunks = ?cs, lfn_locations = locs,
         lfn_expected_sequence = 0, lfn_checksum_value = lfn_checksum sn \<rparr>"
    obtain pad where pad: "pad = [] \<or> hd pad = 0"
        "concat (map (\<lambda>i. lfn_pad (lfn_chunk units i)) [0..<n]) = units @ pad"
      using concat_chunks [OF u(3)] long(4) by auto
    have "decode_long_filename (concat (rev ?cs)) = Some f"
      using decode_encode_long_filename [OF long(2) f pad(1)] pad(2) by (simp add: rev_map)
    moreover have "?cs \<noteq> []" using n by simp
    ultimately have "lfn_finish lc ?st e l =
        \<lparr> located_entry = e, located_location = l, located_name = f, located_lfn_locations = locs \<rparr>"
      by (simp add: lfn_finish_def e(1) Let_def)
    then show ?thesis
      using live e ne parse_loop_lfns [OF n, of locs lc st units "lfn_checksum sn" "(e, l) # rest"] locs long(5,6)
      by (simp add: parse_loop_clear)
  qed
qed

section \<open>Splitting a listing\<close>

text \<open>The pending-chain state after a run of slots that holds no end marker.\<close>

fun lfn_scan :: "lfn_state \<Rightarrow> slot list \<Rightarrow> lfn_state" where
  "lfn_scan st [] = st"
| "lfn_scan st ((e, l) # slots) =
     (if \<not> is_deleted e \<and> is_long_filename e then lfn_scan (lfn_step st e l) slots
      else lfn_scan (lfn_clear st) slots)"

abbreviation no_end :: "slot list \<Rightarrow> bool" where
  "no_end slots \<equiv> (\<forall>s \<in> set slots. \<not> is_end_marker (fst s))"

abbreviation lfn_slots :: "slot list \<Rightarrow> bool" where
  "lfn_slots slots \<equiv> (\<forall>s \<in> set slots. \<not> is_end_marker (fst s) \<and> \<not> is_deleted (fst s) \<and> is_long_filename (fst s))"

lemma parse_loop_append:
  "no_end pre \<Longrightarrow> parse_loop lc st (pre @ rest) = parse_loop lc st pre @ parse_loop lc (lfn_scan st pre) rest"
proof (induction pre arbitrary: st)
  case (Cons s pre)
  then show ?case by (cases s) auto
qed simp

lemma lfn_scan_append: "lfn_scan st (a @ b) = lfn_scan (lfn_scan st a) b"
  by (induction st a rule: lfn_scan.induct) auto


text \<open>A deleted slot clears the pending chain, whatever came before.\<close>

lemma parse_loop_deleted:
  assumes "is_deleted e"
  shows "parse_loop lc st ((e, l) # rest) = parse_loop lc lfn_init rest"
proof -
  have "\<not> is_end_marker e" using assms by (simp add: is_deleted_def is_end_marker_def)
  with assms show ?thesis by (simp add: parse_loop_clear)
qed

lemma parse_loop_deleted_run:
  assumes "ds \<noteq> []" "\<forall>s \<in> set ds. is_deleted (fst s)"
  shows "parse_loop lc st (ds @ rest) = parse_loop lc lfn_init rest"
  using assms
proof (induction ds arbitrary: st)
  case (Cons d ds)
  obtain e l where d: "d = (e, l)" by fastforce
  then have "parse_loop lc st ((d # ds) @ rest) = parse_loop lc lfn_init (ds @ rest)"
    using Cons.prems by (simp add: parse_loop_deleted del: parse_loop.simps)
  with Cons show ?case by (cases "ds = []") auto
qed simp

text \<open>The pending locations are those of the slots just before, all of them long name entries.\<close>

definition pending :: "lfn_state \<Rightarrow> slot list \<Rightarrow> bool" where
  "pending st slots \<longleftrightarrow> (\<exists>pre mid. slots = pre @ mid \<and> lfn_slots mid \<and> map snd mid = lfn_locations st)"

lemma lfn_step_locations:
  "lfn_locations (lfn_step st e l) = [] \<or> lfn_locations (lfn_step st e l) = [l]
   \<or> lfn_locations (lfn_step st e l) = lfn_locations st @ [l]"
  unfolding lfn_step_def Let_def by (auto simp: lfn_start_def)

lemma pending_clear [simp]: "pending (lfn_clear st) slots"
  unfolding pending_def by (intro exI [of _ slots] exI [of _ "[]"]) simp

lemma pending_step:
  assumes "pending st slots" "\<not> is_end_marker e" "\<not> is_deleted e" "is_long_filename e"
  shows "pending (lfn_step st e l) (slots @ [(e, l)])"
proof -
  from assms(1) obtain pre mid where m: "slots = pre @ mid" "lfn_slots mid" "map snd mid = lfn_locations st"
    by (auto simp: pending_def)
  from lfn_step_locations [of st e l] consider "lfn_locations (lfn_step st e l) = []"
    | "lfn_locations (lfn_step st e l) = [l]" | "lfn_locations (lfn_step st e l) = lfn_locations st @ [l]"
    by blast
  then show ?thesis
  proof cases
    case 1
    then show ?thesis unfolding pending_def by (intro exI [of _ "slots @ [(e, l)]"] exI [of _ "[]"]) simp
  next
    case 2
    then show ?thesis unfolding pending_def using assms by (intro exI [of _ slots] exI [of _ "[(e, l)]"]) simp
  next
    case 3
    then show ?thesis
      unfolding pending_def using assms m by (intro exI [of _ pre] exI [of _ "mid @ [(e, l)]"]) auto
  qed
qed

text \<open>Every parsed entry is one slot, directly preceded by the slots of its long name.\<close>

definition parsed_slot :: "slot list \<Rightarrow> located_directory_entry \<Rightarrow> bool" where
  "parsed_slot slots p \<longleftrightarrow>
     (\<exists>pre mid post. slots = pre @ mid @ (located_entry p, located_location p) # post
        \<and> no_end pre \<and> lfn_slots mid \<and> map snd mid = located_lfn_locations p
        \<and> is_normal_entry (located_entry p))"

lemma lfn_finish_sel [simp]:
  "located_entry (lfn_finish lc st e l) = e" "located_location (lfn_finish lc st e l) = l"
  by (auto simp: lfn_finish_def Let_def split: option.splits)

lemma lfn_finish_locations:
  "located_lfn_locations (lfn_finish lc st e l) = lfn_locations st
   \<or> located_lfn_locations (lfn_finish lc st e l) = []"
  by (auto simp: lfn_finish_def Let_def split: option.splits)

lemma parsed_slot_finish:
  assumes "pending st before" "no_end before" "is_normal_entry e"
  shows "parsed_slot (before @ (e, l) # slots) (lfn_finish lc st e l)"
proof -
  obtain pre mid where m: "before = pre @ mid" "lfn_slots mid" "map snd mid = lfn_locations st"
    using assms(1) by (auto simp: pending_def)
  from lfn_finish_locations show ?thesis
  proof
    assume "located_lfn_locations (lfn_finish lc st e l) = lfn_locations st"
    then show ?thesis unfolding parsed_slot_def
      using m assms by (intro exI [of _ pre] exI [of _ mid] exI [of _ slots]) simp
  next
    assume "located_lfn_locations (lfn_finish lc st e l) = []"
    then show ?thesis unfolding parsed_slot_def
      using assms by (intro exI [of _ before] exI [of _ "[]"] exI [of _ slots]) simp
  qed
qed

lemma parse_loop_split:
  assumes "p \<in> set (parse_loop lc st slots)" "pending st before" "no_end before"
  shows "parsed_slot (before @ slots) p"
  using assms
proof (induction lc st slots arbitrary: before rule: parse_loop.induct)
  case (2 lc st e l slots)
  have ne: "\<not> is_end_marker e" using 2(5) by (auto split: if_splits)
  then have nb: "no_end (before @ [(e, l)])" using 2(7) by auto
  have shift: "parsed_slot (before @ (e, l) # slots) p" if "parsed_slot ((before @ [(e, l)]) @ slots) p"
    using that by (simp only: append_assoc append_Cons append_Nil)
  consider (del) "is_deleted e" | (lfn) "\<not> is_deleted e" "is_long_filename e"
    | (vol) "\<not> is_deleted e" "\<not> is_long_filename e" "is_volume_label e"
    | (norm) "\<not> is_deleted e" "\<not> is_long_filename e" "\<not> is_volume_label e" by blast
  then show ?case
  proof cases
    case del
    show ?thesis by (rule shift, rule 2(1) [OF ne del _ pending_clear nb]) (use 2(5) ne del in simp)
  next
    case lfn
    show ?thesis
      by (rule shift, rule 2(2) [OF ne lfn _ pending_step [OF 2(6) ne lfn] nb]) (use 2(5) ne lfn in simp)
  next
    case vol
    show ?thesis by (rule shift, rule 2(3) [OF ne vol _ pending_clear nb]) (use 2(5) ne vol in simp)
  next
    case norm
    then have n: "is_normal_entry e" using ne by (simp add: is_normal_entry_def)
    from 2(5) ne norm have "p = lfn_finish lc st e l \<or> p \<in> set (parse_loop lc (lfn_clear st) slots)" by simp
    then show ?thesis
    proof
      assume "p = lfn_finish lc st e l"
      then show ?thesis using parsed_slot_finish [OF 2(6,7) n] by simp
    next
      assume p: "p \<in> set (parse_loop lc (lfn_clear st) slots)"
      show ?thesis by (rule shift, rule 2(4) [OF ne norm p pending_clear nb])
    qed
  qed
qed simp

lemma parse_directory_entries_slot:
  assumes "p \<in> set (parse_directory_entries lc slots)"
  shows "parsed_slot slots p"
  using parse_loop_split [of p lc lfn_init slots "[]"] assms
  by (simp add: parse_directory_entries_def pending_def lfn_init_def)

section \<open>Free slots, creation and deletion\<close>

text \<open>
  The search of \<open>allocate_directory_slots\<close> over the loaded slots: \<open>(True, run)\<close> is its early
  return, \<open>(False, run)\<close> the run at the end of the directory that has to be extended.
\<close>

fun slot_run ::
  "nat \<Rightarrow> bool \<Rightarrow> directory_entry_location list \<Rightarrow> slot list \<Rightarrow> bool \<times> directory_entry_location list" where
  "slot_run needed past_end run [] = (False, run)"
| "slot_run needed past_end run ((entry, location) # slots) =
     (let past_end = (past_end \<or> is_end_marker entry)
      in if past_end \<or> is_deleted entry then
           (let run = run @ [location]
            in if length run = needed then (True, run) else slot_run needed past_end run slots)
         else slot_run needed past_end [] slots)"

abbreviation in_use :: "slot \<Rightarrow> bool" where
  "in_use s \<equiv> \<not> is_end_marker (fst s)"

definition free_run :: "slot list \<Rightarrow> bool" where
  "free_run mid \<longleftrightarrow> (\<forall>s \<in> set (takeWhile in_use mid). is_deleted (fst s))"

text \<open>Nothing but end markers follows the first end marker.\<close>

definition zero_tail :: "slot list \<Rightarrow> bool" where
  "zero_tail slots \<longleftrightarrow> (\<forall>s \<in> set (dropWhile in_use slots). is_end_marker (fst s))"

lemma free_run_Nil [simp]: "free_run []"
  by (simp add: free_run_def)

lemma free_run_snoc:
  "free_run mid \<Longrightarrow> \<not> no_end mid \<or> is_end_marker (fst s) \<or> is_deleted (fst s) \<Longrightarrow> free_run (mid @ [s])"
  by (cases "no_end mid")
     (auto simp: free_run_def takeWhile_append takeWhile_eq_all_conv [THEN iffD2])

lemma slot_run_found:
  assumes "slot_run needed past run slots = (found, r)" "free_run mid" "map snd mid = run"
    and "past \<longleftrightarrow> \<not> no_end mid" "no_end pre" "length run < needed"
  shows "\<exists>pre' mid' post. pre @ mid @ slots = pre' @ mid' @ post \<and> no_end pre' \<and> free_run mid'
     \<and> map snd mid' = r \<and> (if found then length r = needed else post = [] \<and> length r < needed)"
  using assms
proof (induction needed past run slots arbitrary: pre mid rule: slot_run.induct)
  case (1 needed past run)
  then show ?case by (intro exI [of _ pre] exI [of _ mid] exI [of _ "[]"]) auto
next
  case (2 needed past run e l slots)
  let ?past = "past \<or> is_end_marker e"
  show ?case
  proof (cases "?past \<or> is_deleted e")
    case True
    have fr: "free_run (mid @ [(e, l)])"
      using 2(4,6) True by (intro free_run_snoc) auto
    show ?thesis
    proof (cases "length (run @ [l]) = needed")
      case len: True
      then have "found" "r = run @ [l]" using 2(3) True by (simp_all add: Let_def)
      then show ?thesis
        using len fr 2(5,7)
        by (intro exI [of _ pre] exI [of _ "mid @ [(e, l)]"] exI [of _ slots]) auto
    next
      case False
      with True 2(3) have s: "slot_run needed ?past (run @ [l]) slots = (found, r)" by (simp add: Let_def)
      have "?past \<longleftrightarrow> \<not> no_end (mid @ [(e, l)])" using 2(6) by auto
      moreover have "map snd (mid @ [(e, l)]) = run @ [l]" using 2(5) by simp
      moreover have "length (run @ [l]) < needed" using False 2(8) by simp
      ultimately show ?thesis
        using 2(1) [OF refl True refl False s fr _ _ 2(7)] by simp
    qed
  next
    case False
    then have s: "slot_run needed ?past [] slots = (found, r)" using 2(3) by (simp add: Let_def)
    have "no_end (pre @ mid @ [(e, l)])" using False 2(6,7) by auto
    then show ?thesis
      using 2(2) [OF refl False s, of "[]" "pre @ mid @ [(e, l)]"] False 2(8) by simp
  qed
qed

lemma parse_loop_free_run:
  assumes "free_run mid" "mid \<noteq> []"
  shows "parse_loop lc st (mid @ post) = (if no_end mid then parse_loop lc lfn_init post else [])"
proof (cases "no_end mid")
  case True
  then have "takeWhile in_use mid = mid" by (simp add: takeWhile_eq_all_conv)
  with assms True show ?thesis using parse_loop_deleted_run [of mid] by (simp add: free_run_def)
next
  case False
  define ds where "ds = takeWhile in_use mid"
  have "dropWhile in_use mid \<noteq> []" using False by (auto simp: dropWhile_eq_Nil_conv)
  then obtain z rs where d: "dropWhile in_use mid = z # rs" "is_end_marker (fst z)"
    using hd_dropWhile [of in_use mid] by (cases "dropWhile in_use mid") auto
  then have mid: "mid = ds @ z # rs" "is_end_marker (fst z)"
    using takeWhile_dropWhile_id [of in_use mid] by (simp_all add: ds_def)
  have nil: "parse_loop lc s (z # rs @ post) = []" for s using mid(2) by (cases z) simp
  have "\<forall>s \<in> set ds. is_deleted (fst s)" using assms(1) by (simp add: ds_def free_run_def)
  then have "parse_loop lc st (ds @ z # rs @ post) = []"
    using parse_loop_deleted_run [of ds lc st "z # rs @ post"] nil by (cases "ds = []") (simp_all del: parse_loop.simps)
  with False mid show ?thesis by auto
qed

lemma parse_loop_end: "is_end_marker (fst a) \<Longrightarrow> parse_loop lc st (a # r) = []"
  by (cases a) simp

lemma dropWhile_in_use:
  assumes "no_end pre" "\<not> no_end mid"
  shows "dropWhile in_use (pre @ mid @ post) = dropWhile in_use mid @ post"
proof -
  obtain s where s: "s \<in> set mid" "is_end_marker (fst s)" using assms(2) by blast
  have "dropWhile in_use (mid @ post) = dropWhile in_use mid @ post"
    by (rule dropWhile_append1 [of s mid in_use post]) (use s in simp_all)
  moreover have "dropWhile in_use (pre @ mid @ post) = dropWhile in_use (mid @ post)"
    by (rule dropWhile_append2 [of pre in_use]) (use assms(1) in simp)
  ultimately show ?thesis by (simp only:)
qed

lemma parse_zero_tail:
  assumes "zero_tail (pre @ mid @ post)" "no_end pre" "\<not> no_end mid"
  shows "parse_loop lc st post = []"
proof (cases post)
  case (Cons a r)
  then have "is_end_marker (fst a)"
    using assms(1) unfolding zero_tail_def dropWhile_in_use [OF assms(2,3)] by simp
  then show ?thesis unfolding Cons by (rule parse_loop_end)
qed simp

text \<open>Writing a prepared name into a free run adds exactly one entry to the listing.\<close>

lemma parse_create:
  fixes lc :: "ustr \<Rightarrow> ustr"
  assumes prep: "prepare_name_entries uc parsed f = Some (sn, lfns)" and f: "is_str f"
    and e: "de_name e = sn" "\<not> is_long_filename e" "\<not> is_volume_label e"
    and mid: "free_run mid" "length mid = Suc (length lfns)" and pre: "no_end pre"
    and tail: "zero_tail (pre @ mid @ post)"
    and st: "lfns = [] \<Longrightarrow> lfn_chunks (lfn_scan lfn_init pre) = []"
  defines "new \<equiv> \<lparr> located_entry = e, located_location = snd (last mid),
       located_name = (if lfns = [] then get_filename_from_fat lc sn else f),
       located_lfn_locations = butlast (map snd mid) \<rparr>"
  shows "\<exists>xs ys. parse_directory_entries lc (pre @ mid @ post) = xs @ ys \<and>
     parse_directory_entries lc (pre @ zip (map to_directory_entry lfns @ [e]) (map snd mid) @ post)
       = xs @ new # ys"
proof -
  let ?st = "lfn_scan lfn_init pre"
  have ne: "mid \<noteq> []" using mid by auto
  have "map snd mid = butlast (map snd mid) @ [snd (last mid)]"
    using ne by (metis append_butlast_last_id last_map list.map_disc_iff)
  then have "zip (map to_directory_entry lfns @ [e]) (map snd mid) =
      zip (map to_directory_entry lfns) (butlast (map snd mid)) @ [(e, snd (last mid))]"
    using mid(2) by (metis length_butlast length_map diff_Suc_1 zip_append zip_Cons_Cons zip_Nil)
  then have "parse_loop lc ?st (zip (map to_directory_entry lfns @ [e]) (map snd mid) @ post) =
      new # parse_loop lc lfn_init post"
    using parse_prepared_entries [OF prep f e, of "butlast (map snd mid)" ?st lc "snd (last mid)" post] mid(2) st
    by (simp add: new_def)
  moreover have "parse_loop lc ?st (mid @ post) = parse_loop lc lfn_init post"
    using parse_loop_free_run [OF mid(1) ne] parse_zero_tail [OF tail pre] by auto
  ultimately show ?thesis
    using parse_loop_append [OF pre] by (simp add: parse_directory_entries_def) blast
qed


section \<open>Names that are stored under a different name\<close>

lemma get_fat_filename_trailing_dot:
  assumes "is_ascii s" "46 \<notin> set s" "get_fat_filename uc s = Some n"
  shows "get_fat_filename uc (s @ [46]) = Some n"
proof -
  have tw: "takeWhile (\<lambda>c. c \<noteq> 46) s = s" "dropWhile (\<lambda>c. c \<noteq> 46) s = []"
    using assms(2) by (auto simp: takeWhile_eq_all_conv dropWhile_eq_Nil_conv)
  have tw': "takeWhile (\<lambda>c. c \<noteq> 46) (s @ [46]) = s" "dropWhile (\<lambda>c. c \<noteq> 46) (s @ [46]) = [46]"
    using assms(2) by (auto simp: takeWhile_append dropWhile_append tw)
  have ne: "(of_nat c :: u8) \<noteq> 46" if "c \<in> set s" for c
  proof -
    have "c < 0x80" "c \<noteq> 46" using assms(1,2) that by (auto simp: is_ascii_def list_all_iff)
    then have "unat (of_nat c :: u8) \<noteq> 46" by (simp add: unat_of_nat_u8)
    then show ?thesis by auto
  qed
  have asc: "is_ascii (s @ [46])" using assms(1) by (simp add: is_ascii_def)
  have "filter (\<lambda>b. b = 46) (to_utf8 s) = []" using ne by (auto simp: to_utf8_ascii [OF assms(1)] filter_empty_conv)
  moreover have "filter (\<lambda>b. b = 46) (to_utf8 (s @ [46])) = [46]"
    using ne by (auto simp: to_utf8_ascii [OF asc] filter_empty_conv)
  ultimately show ?thesis
    using assms(3) unfolding get_fat_filename_def Let_def tw tw' by (simp split: if_splits)
qed

section \<open>Properties\<close>

text \<open>
  C13.  Creating a name.  When the long name entries and the short entry that
  \<open>prepare_name_entries\<close> derives for a requested name are written into a run of free slots, the
  directory listing afterwards is the old listing with exactly one entry inserted: the new entry at
  the last slot of the run, under the requested name (the decoded 8.3 name when no long name is
  needed), remembering the slots of its long name.
\<close>

theorem created_name_is_listed:
  fixes lc :: "ustr \<Rightarrow> ustr"
  assumes "prepare_name_entries uc parsed f = Some (sn, lfns)" "is_str f"
    and "de_name e = sn" "\<not> is_long_filename e" "\<not> is_volume_label e"
    and "free_run mid" "length mid = Suc (length lfns)" "\<forall>s \<in> set pre. \<not> is_end_marker (fst s)"
    and "zero_tail (pre @ mid @ post)" "lfns = [] \<longrightarrow> lfn_chunks (lfn_scan lfn_init pre) = []"
  shows "\<exists>xs ys. parse_directory_entries lc (pre @ mid @ post) = xs @ ys \<and>
     parse_directory_entries lc (pre @ zip (map to_directory_entry lfns @ [e]) (map snd mid) @ post)
       = xs @ \<lparr> located_entry = e, located_location = snd (last mid),
                located_name = (if lfns = [] then get_filename_from_fat lc sn else f),
                located_lfn_locations = butlast (map snd mid) \<rparr> # ys"
  using parse_create [OF assms(1-9)] assms(10) by simp

theorem created_name_is_listed_witness:
  "\<exists>sn lfns p. prepare_name_entries id [] (lit ''a b.txt'') = Some (sn, lfns) \<and> length lfns = 1
     \<and> parse_directory_entries id
         (zip (map to_directory_entry lfns @ [new_file_entry sn])
            [\<lparr> loc_cluster = 2, loc_index = 0, loc_offset = 0 \<rparr>, \<lparr> loc_cluster = 2, loc_index = 1, loc_offset = 32 \<rparr>]) = [p]
     \<and> located_name p = lit ''a b.txt''"
proof -
  let ?f = "lit ''a b.txt''"
  let ?z = "dirent_of_bytes (replicate 32 0)"
  let ?mid = "[(?z, \<lparr> loc_cluster = 2, loc_index = 0, loc_offset = 0 \<rparr>), (?z, \<lparr> loc_cluster = 2, loc_index = 1, loc_offset = 32 \<rparr>)]"
  have z: "is_end_marker ?z" by (simp add: is_end_marker_def dirent_of_bytes_def rdn_def)
  have n: "get_fat_filename id ?f = None" by code_simp
  obtain sn lfns where p: "prepare_name_entries id [] ?f = Some (sn, lfns)" "length lfns = 1"
  proof -
    have l: "length (encode_utf16 ?f) = 7" by (simp add: lit_def encode_utf16_def utf16_char_def)
    have u: "encode_long_filename ?f = Some (encode_utf16 ?f)"
      by (simp add: encode_long_filename_def l LFN_MAX_UNITS_def) (simp add: lit_def ends_with_def is_invalid_long_name_char_def)
    obtain c where "generate_short_alias ?f [] = Some c" using generate_short_alias_exists [of "[]" ?f] by auto
    then show thesis using n u l that by (simp add: prepare_name_entries_def LFN_UNITS_PER_ENTRY_def)
  qed
  have str: "is_str ?f" by (simp add: is_str_def lit_def is_char_def)
  have run: "free_run ?mid" "zero_tail ([] @ ?mid @ [])" using z by (simp_all add: free_run_def zero_tail_def)
  have old: "parse_directory_entries id ([] @ ?mid @ []) = []" using z by (simp add: parse_directory_entries_def)
  have ne: "lfns \<noteq> []" using p(2) by auto
  have e: "de_name (new_file_entry sn) = sn" "\<not> is_long_filename (new_file_entry sn)" "\<not> is_volume_label (new_file_entry sn)"
    by (simp_all add: new_file_entry_def is_long_filename_def is_volume_label_def)
  have len: "length ?mid = Suc (length lfns)" using p(2) by simp
  obtain xs ys q where x: "parse_directory_entries id ([] @ ?mid @ []) = xs @ ys"
    "parse_directory_entries id ([] @ zip (map to_directory_entry lfns @ [new_file_entry sn]) (map snd ?mid) @ []) = xs @ q # ys"
    "located_name q = ?f"
    using created_name_is_listed [OF p(1) str e run(1) len _ run(2), of id] ne by fastforce
  from x(1) have "xs = []" "ys = []" unfolding old by simp_all
  with x(2,3) p show ?thesis by (intro exI [of _ sn] exI [of _ lfns] exI [of _ q]) simp
qed



text \<open>
  A trailing dot hides an existing file.  For a name \<open>s\<close> without a dot that is stored as the
  short name \<open>n\<close>, the name \<open>s.\<close> is stored as \<open>n\<close> too, but the existence check of
  \<open>create_file\<close> does not find the entry: the directory ends up with two entries of the same
  short name.
\<close>

lemma trailing_dot_duplicates_entry:
  fixes lc :: "ustr \<Rightarrow> ustr" and l :: directory_entry_location
  assumes "is_ascii s" "46 \<notin> set s" "get_fat_filename uc s = Some n"
  defines "p \<equiv> \<lparr> located_entry = new_file_entry n, located_location = l,
                 located_name = get_filename_from_fat lc n, located_lfn_locations = [] \<rparr>"
  shows "find_parsed_entry lc [p] s = Some p
     \<and> find_parsed_entry lc [p] (s @ [46]) = None
     \<and> prepare_name_entries uc [p] (s @ [46]) = Some (de_name (located_entry p), [])"
proof -
  have "\<not> ends_with s 46" using assms(2) by (metis ends_with_def last_in_set)
  then have g: "get_filename_from_fat lc n = map to_ascii_lowercase s"
    by (rule get_filename_from_fat_roundtrip [OF assms(3,1)])
  have "length (map to_ascii_lowercase s) \<noteq> length (map to_ascii_lowercase (s @ [46]))" by simp
  then have "map to_ascii_lowercase s \<noteq> map to_ascii_lowercase (s @ [46])" by metis
  then show ?thesis
    using g get_fat_filename_trailing_dot [OF assms(1-3)]
    by (simp add: p_def find_parsed_entry_def eq_ignore_ascii_case_def comp_def prepare_name_entries_def
        new_file_entry_def)
qed

end
