(* ===== verification/Fat_Volume.thy ===== *)
theory Fat_Volume
  imports Fat_Table Fat_Dir
begin

text \<open>
  Disk access of \<open>FATFileSystem\<close> (\<open>src/fs/fat_fs.rs\<close>): mounting, clusters, directory entries,
  directory slots and the copies of the allocation table.

  What lies outside the file system is a parameter: a state of type \<open>'w\<close> holding the AHCI port
  and the kernel heap, and the operations of \<open>fs_env\<close> on it.  \<open>env_read w s n\<close> stands for
  \<open>AHCIPort::read\<close> of \<open>n\<close> sectors from sector \<open>s\<close> (\<open>None\<close> when it returns \<open>false\<close>),
  \<open>env_write w s n b\<close> for \<open>AHCIPort::write_sectors\<close>, \<open>env_alloc w k\<close> tells whether the heap
  can serve \<open>k\<close> bytes, and \<open>env_upper\<close>, \<open>env_lower\<close> are the Unicode case tables.
  A port transfers 512 bytes per sector, whatever the boot sector says; a volume with
  another sector size makes the transfer run past the kernel's buffer, which is outside the
  model.

  Every operation returns \<open>None\<close> when the call does not return (a panic or an endless loop) and
  otherwise Rust's own result with the new file system state.
\<close>

record 'w fs_env =
  env_upper :: "ustr \<Rightarrow> ustr"
  env_lower :: "ustr \<Rightarrow> ustr"
  env_alloc :: "'w \<Rightarrow> nat \<Rightarrow> bool"
  env_read :: "'w \<Rightarrow> nat \<Rightarrow> nat \<Rightarrow> bytes option \<times> 'w"
  env_write :: "'w \<Rightarrow> nat \<Rightarrow> nat \<Rightarrow> bytes \<Rightarrow> bool \<times> 'w"

record 'w fat_file_system =
  port :: 'w
  fat :: fat_buffer
  bs :: fat_boot_sector
  bs_32 :: fat32_extended_boot_sector

type_synonym ('a, 'w) fs_result = "('a option \<times> 'w fat_file_system) option"

section \<open>Mounting\<close>

definition read_boot_sector ::
  "'w fs_env \<Rightarrow> 'w \<Rightarrow> (fat_boot_sector \<times> fat32_extended_boot_sector) option \<times> 'w" where
  "read_boot_sector E w =
     (if \<not> env_alloc E w 512 then (None, w)
      else (case env_read E w 0 1 of
              (None, w') \<Rightarrow> (None, w')
            | (Some b, w') \<Rightarrow>
                (let buffer = overwrite (replicate 512 0) 0 b
                 in (Some (fat_boot_sector_of buffer, fat32_extended_boot_sector_of (drop 36 buffer)), w'))))"

fun words_of_bytes :: "bytes \<Rightarrow> u32 list" where
  "words_of_bytes (a # b # c # d # r) = of_le32 a b c d # words_of_bytes r"
| "words_of_bytes _ = []"

definition read_fat ::
  "'w fs_env \<Rightarrow> 'w \<Rightarrow> fat_boot_sector \<Rightarrow> fat32_extended_boot_sector \<Rightarrow> fat_buffer option \<times> 'w" where
  "read_fat E w b b32 =
     (let fat_start = unat (reserved_sector_count b);
          sectors_per_fat = (if table_size_16 b \<noteq> 0 then unat (table_size_16 b) else unat (table_size b32));
          fat_size_bytes = sectors_per_fat * unat (bytes_per_sector b)
      in if \<not> env_alloc E w fat_size_bytes then (None, w)
         else (case env_read E w fat_start sectors_per_fat of
                 (None, w') \<Rightarrow> (None, w')
               | (Some bytes, w') \<Rightarrow>
                   (Some (words_of_bytes (take fat_size_bytes (overwrite (replicate fat_size_bytes 0) 0 bytes))), w')))"

definition fat_new :: "'w fs_env \<Rightarrow> 'w \<Rightarrow> 'w fat_file_system option \<times> 'w" where
  "fat_new E w =
     (case read_boot_sector E w of
        (None, w1) \<Rightarrow> (None, w1)
      | (Some (b, b32), w1) \<Rightarrow>
          (case read_fat E w1 b b32 of
             (None, w2) \<Rightarrow> (None, w2)
           | (Some table, w2) \<Rightarrow>
               (Some \<lparr> port = w2, fat = table, bs = b, bs_32 = b32 \<rparr>, w2)))"

section \<open>Geometry\<close>

definition cluster_size :: "'w fat_file_system \<Rightarrow> nat" where
  "cluster_size fs = unat (bytes_per_sector (bs fs)) * unat (sectors_per_cluster (bs fs))"

definition clusters_for_size :: "'w fat_file_system \<Rightarrow> nat \<Rightarrow> nat option" where
  "clusters_for_size fs sz =
     (if sz = 0 then Some 0
      else if cluster_size fs = 0 then None
      else Some ((sz + cluster_size fs - 1) div cluster_size fs))"

definition get_sector :: "'w fat_file_system \<Rightarrow> nat \<Rightarrow> nat option" where
  "get_sector fs cluster =
     (let first_data_sector = unat (reserved_sector_count (bs fs))
            + unat (table_count (bs fs)) * unat (table_size (bs_32 fs))
      in map_option (\<lambda>k. first_data_sector + k * unat (sectors_per_cluster (bs fs)))
           (checked_sub cluster 2))"

definition sectors_per_fat :: "'w fat_file_system \<Rightarrow> nat" where
  "sectors_per_fat fs =
     (if table_size_16 (bs fs) \<noteq> 0 then unat (table_size_16 (bs fs)) else unat (table_size (bs_32 fs)))"

definition fat_start_sector :: "'w fat_file_system \<Rightarrow> nat \<Rightarrow> nat" where
  "fat_start_sector fs table_index =
     unat (reserved_sector_count (bs fs)) + table_index * sectors_per_fat fs"

definition root :: "'w fs_env \<Rightarrow> 'w fat_file_system \<Rightarrow> directory_entry option" where
  "root E fs =
     map_option (\<lambda>root_name.
       \<lparr> de_name = root_name, de_attributes = 0x10, de_reserved = 0,
         de_creation_time_centiseconds = 0, de_creation_time = 0, de_creation_date = 0,
         de_last_accessed_date = 0,
         de_first_cluster_high = ucast (drop_bit 16 (root_cluster (bs_32 fs)) AND 0xFFF),
         de_modified_time = 0, de_modified_date = 0,
         de_first_cluster_low = ucast (root_cluster (bs_32 fs) AND 0xFFFF), de_size = 0 \<rparr>)
       (get_fat_filename (env_upper E) (lit ''root''))"

definition directory_cluster :: "'w fs_env \<Rightarrow> 'w fat_file_system \<Rightarrow> directory_entry \<Rightarrow> nat option" where
  "directory_cluster E fs dir =
     (let cluster = get_cluster dir
      in if cluster = 0 then map_option get_cluster (root E fs) else Some cluster)"

section \<open>Clusters\<close>

definition read_cluster ::
  "'w fs_env \<Rightarrow> 'w fat_file_system \<Rightarrow> nat \<Rightarrow> (bytes, 'w) fs_result" where
  "read_cluster E fs cluster = do {
     dir_sector \<leftarrow> get_sector fs cluster;
     let num_sectors = unat (sectors_per_cluster (bs fs));
     let buffer_size = unat (bytes_per_sector (bs fs)) * num_sectors;
     if \<not> env_alloc E (port fs) buffer_size then None
     else (case env_read E (port fs) dir_sector num_sectors of
             (None, w) \<Rightarrow> Some (None, fs\<lparr>port := w\<rparr>)
           | (Some b, w) \<Rightarrow>
               Some (Some (take buffer_size (overwrite (replicate buffer_size 0) 0 b)), fs\<lparr>port := w\<rparr>))
   }"

definition write_cluster ::
  "'w fs_env \<Rightarrow> 'w fat_file_system \<Rightarrow> nat \<Rightarrow> bytes \<Rightarrow> (bool \<times> 'w fat_file_system) option" where
  "write_cluster E fs cluster buffer = do {
     sector \<leftarrow> get_sector fs cluster;
     let num_sectors = unat (sectors_per_cluster (bs fs));
     let (status, w) = env_write E (port fs) sector num_sectors buffer;
     Some (status, fs\<lparr>port := w\<rparr>)
   }"

definition clear_cluster ::
  "'w fs_env \<Rightarrow> 'w fat_file_system \<Rightarrow> nat \<Rightarrow> (bool \<times> 'w fat_file_system) option" where
  "clear_cluster E fs cluster =
     (let size = cluster_size fs
      in if \<not> env_alloc E (port fs) size then Some (False, fs)
         else write_cluster E fs cluster (replicate size 0))"

fun persist_fat_loop ::
  "'w fs_env \<Rightarrow> 'w fat_file_system \<Rightarrow> nat list \<Rightarrow> unit option \<times> 'w fat_file_system" where
  "persist_fat_loop E fs [] = (Some (), fs)"
| "persist_fat_loop E fs (table_index # rest) =
     (let (status, w) = env_write E (port fs) (fat_start_sector fs table_index) (sectors_per_fat fs)
                          (concat (map le32 (fat fs)));
          fs = fs\<lparr>port := w\<rparr>
      in if \<not> status then (None, fs) else persist_fat_loop E fs rest)"

definition persist_fat :: "'w fs_env \<Rightarrow> 'w fat_file_system \<Rightarrow> unit option \<times> 'w fat_file_system" where
  "persist_fat E fs = persist_fat_loop E fs [0..<unat (table_count (bs fs))]"

section \<open>Directory entries on disk\<close>

definition entry_end :: "directory_entry_location \<Rightarrow> nat option" where
  "entry_end location =
     (case checked_mul (loc_index location) 32 of
        None \<Rightarrow> None
      | Some expected_offset \<Rightarrow>
          if expected_offset \<noteq> loc_offset location then None
          else checked_add (loc_offset location) 32)"

definition read_directory_entry ::
  "'w fs_env \<Rightarrow> 'w fat_file_system \<Rightarrow> directory_entry_location \<Rightarrow> (directory_entry, 'w) fs_result" where
  "read_directory_entry E fs location =
     (case entry_end location of
        None \<Rightarrow> Some (None, fs)
      | Some end_offset \<Rightarrow> do {
          (region, fs) \<leftarrow> read_cluster E fs (loc_cluster location);
          case region of
            None \<Rightarrow> Some (None, fs)
          | Some buffer \<Rightarrow>
              if length buffer < end_offset then Some (None, fs)
              else Some (Some (dirent_of_bytes (take 32 (drop (loc_offset location) buffer))), fs)
        })"

definition persist_directory_entry ::
  "'w fs_env \<Rightarrow> 'w fat_file_system \<Rightarrow> directory_entry_location \<Rightarrow> directory_entry \<Rightarrow> (unit, 'w) fs_result"
where
  "persist_directory_entry E fs location entry =
     (case entry_end location of
        None \<Rightarrow> Some (None, fs)
      | Some end_offset \<Rightarrow> do {
          (region, fs) \<leftarrow> read_cluster E fs (loc_cluster location);
          case region of
            None \<Rightarrow> Some (None, fs)
          | Some buffer \<Rightarrow>
              if length buffer < end_offset then Some (None, fs)
              else do {
                (status, fs) \<leftarrow> write_cluster E fs (loc_cluster location)
                                 (overwrite buffer (loc_offset location) (dirent_bytes entry));
                Some (if status then Some () else None, fs)
              }
        })"

definition slots_of_region :: "nat \<Rightarrow> bytes \<Rightarrow> slot list" where
  "slots_of_region cluster region =
     map (\<lambda>index. (dirent_of_bytes (take 32 (drop (index * 32) region)),
                   \<lparr> loc_cluster = cluster, loc_index = index, loc_offset = index * 32 \<rparr>))
       [0..<length region div 32]"

partial_function (option) load_slots_loop ::
  "'w fs_env \<Rightarrow> 'w fat_file_system \<Rightarrow> slot list \<Rightarrow> nat \<Rightarrow> (slot list \<times> nat, 'w) fs_result" where
  "load_slots_loop E fs slots cluster = do {
     (region, fs) \<leftarrow> read_cluster E fs cluster;
     case region of
       None \<Rightarrow> Some (None, fs)
     | Some buffer \<Rightarrow>
         (let slots = slots @ slots_of_region cluster buffer
          in case next_cluster (fat fs) cluster of
               Some n \<Rightarrow> load_slots_loop E fs slots n
             | None \<Rightarrow> Some (Some (slots, cluster), fs))
   }"

definition load_directory_slots ::
  "'w fs_env \<Rightarrow> 'w fat_file_system \<Rightarrow> nat \<Rightarrow> (slot list \<times> nat, 'w) fs_result" where
  "load_directory_slots E fs first_cluster = load_slots_loop E fs [] first_cluster"

section \<open>The disk behind the operations\<close>

text \<open>
  What the file system relies on of the port: \<open>view w s\<close> is the content of sector \<open>s\<close>; reads
  return it and change nothing, a successful write stores its buffer, and a failed write leaves
  the sectors outside its range alone.
\<close>

definition device_laws :: "'w fs_env \<Rightarrow> ('w \<Rightarrow> nat \<Rightarrow> bytes) \<Rightarrow> bool" where
  "device_laws E view \<longleftrightarrow>
     (\<forall>w s. length (view w s) = 512) \<and>
     (\<forall>w s n r w'. env_read E w s n = (r, w') \<longrightarrow>
        view w' = view w \<and> (r = None \<or> r = Some (concat (map (view w) [s..<s + n])))) \<and>
     (\<forall>w s n b w' t. env_write E w s n b = (True, w') \<and> length b = n * 512 \<longrightarrow>
        view w' t = (if s \<le> t \<and> t < s + n then take 512 (drop ((t - s) * 512) b) else view w t)) \<and>
     (\<forall>w s n b w' t. env_write E w s n b = (False, w') \<and> (t < s \<or> s + n \<le> t) \<longrightarrow> view w' t = view w t)"

lemma device_read:
  assumes "device_laws E view" "env_read E w s n = (r, w')"
  shows "view w' = view w" "r = None \<or> r = Some (concat (map (view w) [s..<s + n]))"
  using assms unfolding device_laws_def by blast+

lemma device_write_ok:
  assumes "device_laws E view" "env_write E w s n b = (True, w')" "length b = n * 512"
  shows "view w' t = (if s \<le> t \<and> t < s + n then take 512 (drop ((t - s) * 512) b) else view w t)"
  using assms unfolding device_laws_def by blast

lemma device_write_out:
  assumes "device_laws E view" "env_write E w s n b = (ok, w')" "length b = n * 512" "t < s \<or> s + n \<le> t"
  shows "view w' t = view w t"
proof (cases ok)
  case True
  with device_write_ok [of E view w s n b w' t] assms show ?thesis by auto
next
  case False
  then have "env_write E w s n b = (False, w')" using assms(2) by simp
  with assms(1,4) show ?thesis unfolding device_laws_def by blast
qed

text \<open>The content of a run of sectors.\<close>

definition sector_run :: "('w \<Rightarrow> nat \<Rightarrow> bytes) \<Rightarrow> 'w \<Rightarrow> nat \<Rightarrow> nat \<Rightarrow> bytes" where
  "sector_run view w s n = concat (map (view w) [s..<s + n])"

lemma length_sector_run:
  assumes "device_laws E view"
  shows "length (sector_run view w s n) = 512 * n"
proof -
  have "\<forall>t \<in> set [s..<s + n]. length (view w t) = 512"
    using assms by (simp add: device_laws_def)
  from length_concat_const [OF this] show ?thesis by (simp add: sector_run_def)
qed

lemma sector_run_written:
  assumes "device_laws E view" "env_write E w s n b = (True, w')" "length b = n * 512"
  shows "sector_run view w' s n = b"
proof -
  have "view w' (s + i) = take 512 (drop (i * 512) b)" if "i < n" for i
    using device_write_ok [OF assms, of "s + i"] that by simp
  then have "map (view w') [s..<s + n] = map (\<lambda>i. take 512 (drop (i * 512) b)) [0..<n]"
    by (simp add: map_equality_iff)
  then have "sector_run view w' s n = concat (map (\<lambda>i. take 512 (drop (i * 512) b)) [0..<n])"
    by (simp only: sector_run_def)
  also have "\<dots> = b" using assms(3) by (rule concat_take_drop_chunks)
  finally show ?thesis .
qed

lemma sector_run_other:
  assumes "device_laws E view" "env_write E w s n b = (ok, w')" "length b = n * 512"
    and "s' + n' \<le> s \<or> s + n \<le> s'"
  shows "sector_run view w' s' n' = sector_run view w s' n'"
proof -
  have "map (view w') [s'..<s' + n'] = map (view w) [s'..<s' + n']"
    using device_write_out [OF assms(1-3)] assms(4) by auto
  then show ?thesis by (simp only: sector_run_def)
qed

text \<open>A port that never fails and a heap that never runs out.\<close>

definition reliable :: "'w fs_env \<Rightarrow> bool" where
  "reliable E \<longleftrightarrow> (\<forall>w n. env_alloc E w n) \<and> (\<forall>w s n. fst (env_read E w s n) \<noteq> None)
     \<and> (\<forall>w s n b. fst (env_write E w s n b))"

lemma reliable_write: "reliable E \<Longrightarrow> \<exists>w'. env_write E w s n b = (True, w')"
  unfolding reliable_def by (metis (full_types) prod.collapse)

lemma reliable_read: "reliable E \<Longrightarrow> \<exists>b w'. env_read E w s n = (Some b, w')"
  unfolding reliable_def by (metis option.collapse prod.collapse)

definition wf_volume :: "'w fat_file_system \<Rightarrow> bool" where
  "wf_volume fs \<longleftrightarrow> bytes_per_sector (bs fs) = 512 \<and> sectors_per_cluster (bs fs) \<noteq> 0
     \<and> table_size_16 (bs fs) = 0 \<and> small_table (fat fs)
     \<and> length (fat fs) * 4 = sectors_per_fat fs * 512"

definition data_sector :: "'w fat_file_system \<Rightarrow> nat \<Rightarrow> nat" where
  "data_sector fs c = unat (reserved_sector_count (bs fs))
     + unat (table_count (bs fs)) * unat (table_size (bs_32 fs))
     + (c - 2) * unat (sectors_per_cluster (bs fs))"

definition cluster_data :: "('w \<Rightarrow> nat \<Rightarrow> bytes) \<Rightarrow> 'w fat_file_system \<Rightarrow> nat \<Rightarrow> bytes" where
  "cluster_data view fs c =
     (if c < 2 then []
      else sector_run view (port fs) (data_sector fs c) (unat (sectors_per_cluster (bs fs))))"

text \<open>The state differs at most in the port.\<close>

definition same_volume :: "'w fat_file_system \<Rightarrow> 'w fat_file_system \<Rightarrow> bool" where
  "same_volume fs fs' \<longleftrightarrow> fat fs' = fat fs \<and> bs fs' = bs fs \<and> bs_32 fs' = bs_32 fs"

definition same_disk :: "('w \<Rightarrow> nat \<Rightarrow> bytes) \<Rightarrow> 'w fat_file_system \<Rightarrow> 'w fat_file_system \<Rightarrow> bool" where
  "same_disk view fs fs' \<longleftrightarrow> same_volume fs fs' \<and> view (port fs') = view (port fs)"

lemma same_volumeD:
  "same_volume fs fs' \<Longrightarrow> fat fs' = fat fs \<and> bs fs' = bs fs \<and> bs_32 fs' = bs_32 fs"
  by (simp add: same_volume_def)

lemma same_diskD:
  "same_disk view fs fs' \<Longrightarrow> fat fs' = fat fs \<and> bs fs' = bs fs \<and> bs_32 fs' = bs_32 fs
     \<and> view (port fs') = view (port fs)"
  by (simp add: same_disk_def same_volume_def)

lemma same_disk_refl [simp]: "same_disk view fs fs" "same_volume fs fs"
  by (simp_all add: same_disk_def same_volume_def)

lemma same_disk_trans: "same_disk view a b \<Longrightarrow> same_disk view b c \<Longrightarrow> same_disk view a c"
  by (simp add: same_disk_def same_volume_def)

lemma same_volume_trans: "same_volume a b \<Longrightarrow> same_volume b c \<Longrightarrow> same_volume a c"
  by (simp add: same_volume_def)

lemma same_volume_geometry:
  assumes "same_volume fs fs'"
  shows "cluster_size fs' = cluster_size fs" "data_sector fs' = data_sector fs"
    "sectors_per_fat fs' = sectors_per_fat fs" "wf_volume fs' = wf_volume fs"
    "get_sector fs' = get_sector fs"
  using assms
  by (auto simp: same_volume_def cluster_size_def data_sector_def sectors_per_fat_def wf_volume_def
      get_sector_def fun_eq_iff)

lemma same_disk_cluster_data: "same_disk view fs fs' \<Longrightarrow> cluster_data view fs' = cluster_data view fs"
  by (intro ext) (simp add: cluster_data_def sector_run_def data_sector_def same_disk_def same_volume_def)

lemma get_sector_Some: "2 \<le> c \<Longrightarrow> get_sector fs c = Some (data_sector fs c)"
  by (simp add: get_sector_def data_sector_def checked_sub_def)

lemma get_sector_None: "c < 2 \<Longrightarrow> get_sector fs c = None"
  by (simp add: get_sector_def checked_sub_def)

lemma cluster_size_wf:
  "wf_volume fs \<Longrightarrow> cluster_size fs = 512 * unat (sectors_per_cluster (bs fs)) \<and> 0 < cluster_size fs"
  by (auto simp: wf_volume_def cluster_size_def unat_gt_0)

lemma length_cluster_data:
  assumes "device_laws E view" "wf_volume fs" "2 \<le> c"
  shows "length (cluster_data view fs c) = cluster_size fs"
  using assms length_sector_run [OF assms(1)] by (simp add: cluster_data_def cluster_size_wf)

lemma data_sector_disjoint:
  fixes fs :: "'w fat_file_system"
  assumes "2 \<le> c" "2 \<le> d" "c \<noteq> d"
  defines "n \<equiv> unat (sectors_per_cluster (bs fs))"
  shows "data_sector fs c + n \<le> data_sector fs d \<or> data_sector fs d + n \<le> data_sector fs c"
proof -
  have "(a - 2) * n + n \<le> (b - 2) * n" if "2 \<le> a" "a < b" for a b :: nat
  proof -
    have "Suc (a - 2) * n \<le> (b - 2) * n" using that by (intro mult_le_mono1) simp
    then show ?thesis by (simp add: add.commute)
  qed
  from this [of c d] this [of d c] assms show ?thesis
    by (cases c d rule: linorder_cases) (simp_all add: data_sector_def add.assoc)
qed

lemma read_cluster_disk:
  assumes dev: "device_laws E view" and wf: "wf_volume fs" and c: "2 \<le> c"
    and r: "read_cluster E fs c = Some (r, fs')"
  shows "same_disk view fs fs' \<and> (r = None \<or> r = Some (cluster_data view fs c))"
proof -
  let ?n = "unat (sectors_per_cluster (bs fs))" and ?s = "data_sector fs c"
  obtain x w where x: "env_read E (port fs) ?s ?n = (x, w)" by fastforce
  then have v: "view w = view (port fs)" and xs: "x = None \<or> x = Some (cluster_data view fs c)"
    using device_read [OF dev x] c by (auto simp: cluster_data_def sector_run_def)
  have l: "length (cluster_data view fs c) = cluster_size fs"
    using length_cluster_data [OF dev wf c] .
  have s: "unat (bytes_per_sector (bs fs)) * ?n = cluster_size fs" by (simp add: cluster_size_def)
  from r show ?thesis
    using x v xs c l
    by (auto simp: read_cluster_def get_sector_Some Let_def s same_disk_def same_volume_def
        split: if_splits option.splits)
qed

lemma read_cluster_reliable:
  assumes "reliable E" "2 \<le> c"
  shows "\<exists>b fs'. read_cluster E fs c = Some (Some b, fs')"
proof -
  obtain b w where "env_read E (port fs) (data_sector fs c) (unat (sectors_per_cluster (bs fs))) = (Some b, w)"
    using reliable_read [OF assms(1)] by blast
  then show ?thesis
    using assms by (simp add: read_cluster_def get_sector_Some Let_def reliable_def)
qed

lemma read_cluster_Some:
  assumes "device_laws E view" "wf_volume fs" "2 \<le> c" "reliable E"
  obtains fs' where "read_cluster E fs c = Some (Some (cluster_data view fs c), fs')" "same_disk view fs fs'"
  using read_cluster_reliable [OF assms(4,3)] read_cluster_disk [OF assms(1-3)]
  by (metis option.distinct(1))

text \<open>Sectors outside the data area, where the copies of the table are.\<close>

definition outside_data :: "'w fat_file_system \<Rightarrow> nat \<Rightarrow> bool" where
  "outside_data fs t \<longleftrightarrow> t < data_sector fs 2"

lemma write_cluster_disk:
  assumes dev: "device_laws E view" and wf: "wf_volume fs" and c: "2 \<le> c"
    and b: "length b = cluster_size fs" and w: "write_cluster E fs c b = Some (ok, fs')"
  shows "same_volume fs fs'"
    and "\<forall>t. outside_data fs t \<longrightarrow> view (port fs') t = view (port fs) t"
    and "\<forall>d. d \<noteq> c \<longrightarrow> cluster_data view fs' d = cluster_data view fs d"
    and "ok \<longrightarrow> cluster_data view fs' c = b"
proof -
  let ?n = "unat (sectors_per_cluster (bs fs))" and ?s = "data_sector fs c"
  obtain w' where e: "env_write E (port fs) ?s ?n b = (ok, w')" and fs': "fs' = fs\<lparr>port := w'\<rparr>"
    using w c by (auto simp: write_cluster_def get_sector_Some Let_def split: prod.splits)
  show sv: "same_volume fs fs'" by (simp add: fs' same_volume_def)
  have len: "length b = ?n * 512" using b cluster_size_wf [OF wf] by simp
  have cd: "cluster_data view fs' d = (if d < 2 then [] else sector_run view w' (data_sector fs d) ?n)" for d
    unfolding cluster_data_def same_volume_geometry(2) [OF sv] by (simp add: fs')
  show "\<forall>t. outside_data fs t \<longrightarrow> view (port fs') t = view (port fs) t"
    using device_write_out [OF dev e len] c by (auto simp: outside_data_def fs' data_sector_def)
  show "\<forall>d. d \<noteq> c \<longrightarrow> cluster_data view fs' d = cluster_data view fs d"
    unfolding cd using sector_run_other [OF dev e len] data_sector_disjoint [of _ c fs] c
    by (auto simp: cluster_data_def)
  show "ok \<longrightarrow> cluster_data view fs' c = b"
    using sector_run_written [OF dev _ len] e c by (auto simp: cd)
qed

lemma write_cluster_reliable:
  assumes "reliable E" "2 \<le> c"
  shows "\<exists>fs'. write_cluster E fs c b = Some (True, fs')"
  using reliable_write [OF assms(1), of "port fs" "data_sector fs c" "unat (sectors_per_cluster (bs fs))" b] assms(2)
  by (auto simp: write_cluster_def get_sector_Some Let_def)

section \<open>The copies of the table\<close>

definition fat_copy :: "('w \<Rightarrow> nat \<Rightarrow> bytes) \<Rightarrow> 'w fat_file_system \<Rightarrow> nat \<Rightarrow> bytes" where
  "fat_copy view fs i = sector_run view (port fs) (fat_start_sector fs i) (sectors_per_fat fs)"

abbreviation table_bytes :: "fat_buffer \<Rightarrow> bytes" where
  "table_bytes table \<equiv> concat (map le32 table)"

lemma length_table_bytes [simp, layout]: "length (table_bytes table) = 4 * length table"
  by (induction table) auto

lemma words_of_table_bytes [simp, codec]: "words_of_bytes (table_bytes table) = table"
  by (induction table) (auto simp: le32_def)

lemma fat_copy_area:
  assumes "wf_volume fs" "i < unat (table_count (bs fs))"
  shows "fat_start_sector fs i + sectors_per_fat fs \<le> data_sector fs 2"
proof -
  have "Suc i * sectors_per_fat fs \<le> unat (table_count (bs fs)) * sectors_per_fat fs"
    using assms(2) by (intro mult_le_mono1) simp
  then show ?thesis
    using assms(1) by (simp add: wf_volume_def sectors_per_fat_def fat_start_sector_def data_sector_def)
qed

lemma fat_copy_disjoint:
  assumes "i \<noteq> j"
  shows "fat_start_sector fs i + sectors_per_fat fs \<le> fat_start_sector fs j
     \<or> fat_start_sector fs j + sectors_per_fat fs \<le> fat_start_sector fs i"
proof -
  have "a * n + n \<le> b * n" if "a < b" for a b n :: nat
    using mult_le_mono1 [of "Suc a" b n] that by simp
  from this [of i j] this [of j i] show ?thesis
    using assms by (cases i j rule: linorder_cases) (simp_all add: fat_start_sector_def add.assoc)
qed

lemma persist_fat_loop_disk:
  assumes "device_laws E view" "wf_volume fs" "persist_fat_loop E fs idxs = (r, fs')"
    and "distinct idxs" "\<forall>i \<in> set idxs. i < unat (table_count (bs fs))"
  shows "same_volume fs fs'
     \<and> (\<forall>s n. data_sector fs 2 \<le> s \<longrightarrow> sector_run view (port fs') s n = sector_run view (port fs) s n)
     \<and> (\<forall>i. i \<notin> set idxs \<longrightarrow> fat_copy view fs' i = fat_copy view fs i)
     \<and> (r = Some () \<longrightarrow> (\<forall>i \<in> set idxs. fat_copy view fs' i = table_bytes (fat fs)))"
  using assms
proof (induction idxs arbitrary: fs)
  case (Cons i idxs)
  let ?s = "fat_start_sector fs i" and ?n = "sectors_per_fat fs"
  obtain ok w where w: "env_write E (port fs) ?s ?n (table_bytes (fat fs)) = (ok, w)" by fastforce
  let ?fs = "fs\<lparr>port := w\<rparr>"
  have sv: "same_volume fs ?fs" by (simp add: same_volume_def)
  have geo: "fat_start_sector ?fs = fat_start_sector fs" "sectors_per_fat ?fs = sectors_per_fat fs"
    "data_sector ?fs = data_sector fs" "wf_volume ?fs"
    using same_volume_geometry [OF sv] Cons.prems(2) by (auto simp: fat_start_sector_def fun_eq_iff)
  have len: "length (table_bytes (fat fs)) = ?n * 512"
    using Cons.prems(2) by (simp add: wf_volume_def)
  note other = sector_run_other [OF Cons.prems(1) w len]
  have area: "?s + ?n \<le> data_sector fs 2"
    by (rule fat_copy_area) (use Cons.prems(2,5) in simp_all)
  have data: "\<forall>s n. data_sector fs 2 \<le> s \<longrightarrow> sector_run view w s n = sector_run view (port fs) s n"
    using other area le_trans by blast
  have copies: "\<forall>j. j \<noteq> i \<longrightarrow> fat_copy view ?fs j = fat_copy view fs j"
    using other fat_copy_disjoint unfolding fat_copy_def geo by simp blast
  show ?case
  proof (cases ok)
    case True
    have "fat_copy view ?fs i = table_bytes (fat fs)"
      unfolding fat_copy_def geo
      using sector_run_written [OF Cons.prems(1) _ len] w True by simp
    moreover have "persist_fat_loop E ?fs idxs = (r, fs')"
      using Cons.prems(3) w True by simp
    note Cons.IH [OF Cons.prems(1) geo(4) this]
    ultimately show ?thesis
      using Cons.prems(4,5) sv data copies by (auto simp: geo intro: same_volume_trans)
  next
    case False
    then have "r = None" "fs' = ?fs" using Cons.prems(3) w by simp_all
    then show ?thesis using sv data copies by auto
  qed
qed simp

lemma persist_fat_disk:
  assumes "device_laws E view" "wf_volume fs" "persist_fat E fs = (r, fs')"
  shows "same_volume fs fs'" "cluster_data view fs' = cluster_data view fs"
    and "r = Some () \<Longrightarrow> i < unat (table_count (bs fs)) \<Longrightarrow> fat_copy view fs' i = table_bytes (fat fs)"
proof -
  have in_range: "\<forall>i \<in> set [0..<unat (table_count (bs fs))]. i < unat (table_count (bs fs))" by simp
  note p = persist_fat_loop_disk [OF assms(1,2) assms(3) [unfolded persist_fat_def] distinct_upt in_range]
  show sv: "same_volume fs fs'" using p by blast
  have "data_sector fs 2 \<le> data_sector fs c" for c by (simp add: data_sector_def)
  then have "sector_run view (port fs') (data_sector fs c) n = sector_run view (port fs) (data_sector fs c) n" for c n
    using p by blast
  then show "cluster_data view fs' = cluster_data view fs"
    by (intro ext) (simp add: cluster_data_def same_volume_geometry(2) [OF sv] same_volumeD [OF sv])
  show "r = Some () \<Longrightarrow> i < unat (table_count (bs fs)) \<Longrightarrow> fat_copy view fs' i = table_bytes (fat fs)"
    using p by (metis atLeastLessThan_iff le0 set_upt)
qed

lemma persist_fat_reliable:
  assumes "reliable E"
  shows "\<exists>fs'. persist_fat E fs = (Some (), fs')"
proof -
  have "\<exists>fs'. persist_fat_loop E fs idxs = (Some (), fs')" for idxs
  proof (induction idxs arbitrary: fs)
    case (Cons i idxs)
    obtain w where "env_write E (port fs) (fat_start_sector fs i) (sectors_per_fat fs)
        (table_bytes (fat fs)) = (True, w)"
      using reliable_write [OF assms] by blast
    with Cons show ?case by simp
  qed simp
  then show ?thesis by (simp add: persist_fat_def)
qed

text \<open>Mounting reads the first copy of the table.\<close>

lemma read_fat_copy:
  assumes "device_laws E view" "wf_volume fs" "reliable E" "fat_copy view fs 0 = table_bytes table"
  shows "\<exists>w'. read_fat E (port fs) (bs fs) (bs_32 fs) = (Some table, w')"
proof -
  let ?s = "unat (reserved_sector_count (bs fs))" and ?n = "sectors_per_fat fs"
  obtain b w where r: "env_read E (port fs) ?s ?n = (Some b, w)"
    using reliable_read [OF assms(3)] by blast
  then have b: "b = table_bytes table"
    using device_read [OF assms(1) r] assms(4)
    by (simp add: fat_copy_def sector_run_def fat_start_sector_def)
  have "length b = ?n * 512"
    unfolding b assms(4) [symmetric] fat_copy_def using length_sector_run [OF assms(1)] by simp
  then have "take (?n * 512) (overwrite (replicate (?n * 512) 0) 0 b) = b" by simp
  then show ?thesis
    using r assms(2,3) b
    by (simp add: read_fat_def Let_def sectors_per_fat_def wf_volume_def reliable_def)
qed

section \<open>Directory entries and slots\<close>

definition valid_location :: "'w fat_file_system \<Rightarrow> directory_entry_location \<Rightarrow> bool" where
  "valid_location fs l \<longleftrightarrow> 2 \<le> loc_cluster l \<and> loc_offset l = loc_index l * 32
     \<and> loc_offset l + 32 \<le> cluster_size fs"

definition entry_at :: "('w \<Rightarrow> nat \<Rightarrow> bytes) \<Rightarrow> 'w fat_file_system \<Rightarrow> directory_entry_location \<Rightarrow> directory_entry" where
  "entry_at view fs l = dirent_of_bytes (take 32 (drop (loc_offset l) (cluster_data view fs (loc_cluster l))))"

lemma cluster_size_bound: "cluster_size fs < 2 ^ 24"
proof -
  have "unat (bytes_per_sector (bs fs)) < 2 ^ LENGTH(16)" "unat (sectors_per_cluster (bs fs)) < 2 ^ LENGTH(8)"
    by (rule unsigned_less)+
  then have "unat (bytes_per_sector (bs fs)) \<le> 65535" "unat (sectors_per_cluster (bs fs)) \<le> 255"
    by simp_all
  then have "cluster_size fs \<le> 65535 * 255" unfolding cluster_size_def by (rule mult_le_mono)
  then show ?thesis by simp
qed

lemma entry_end_valid: "valid_location fs l \<Longrightarrow> entry_end l = Some (loc_offset l + 32)"
  using cluster_size_bound [of fs]
  by (auto simp: entry_end_def valid_location_def checked_mul_def checked_add_def usize_bound_def)

lemma read_directory_entry_disk:
  assumes "device_laws E view" "wf_volume fs" "valid_location fs l"
    and "read_directory_entry E fs l = Some (r, fs')"
  shows "same_disk view fs fs' \<and> (r = None \<or> r = Some (entry_at view fs l))"
proof -
  obtain x fs1 where x: "read_cluster E fs (loc_cluster l) = Some (x, fs1)"
    using assms(4) by (auto simp: read_directory_entry_def entry_end_valid [OF assms(3)] split: bind_splits)
  have c: "2 \<le> loc_cluster l" using assms(3) by (simp add: valid_location_def)
  have d: "same_disk view fs fs1" "x = None \<or> x = Some (cluster_data view fs (loc_cluster l))"
    using read_cluster_disk [OF assms(1,2) c x] by simp_all
  have "loc_offset l + 32 \<le> length (cluster_data view fs (loc_cluster l))"
    using length_cluster_data [OF assms(1,2) c] assms(3) by (simp add: valid_location_def)
  with d assms(4) x show ?thesis
    by (auto simp: read_directory_entry_def entry_end_valid [OF assms(3)] entry_at_def)
qed

lemma read_directory_entry_reliable:
  assumes "device_laws E view" "wf_volume fs" "valid_location fs l" "reliable E"
  obtains fs' where "read_directory_entry E fs l = Some (Some (entry_at view fs l), fs')" "same_disk view fs fs'"
proof -
  have c: "2 \<le> loc_cluster l" using assms(3) by (simp add: valid_location_def)
  obtain fs' where r: "read_cluster E fs (loc_cluster l) = Some (Some (cluster_data view fs (loc_cluster l)), fs')"
      "same_disk view fs fs'"
    using read_cluster_Some [OF assms(1,2) c assms(4)] by blast
  have "loc_offset l + 32 \<le> length (cluster_data view fs (loc_cluster l))"
    using length_cluster_data [OF assms(1,2) c] assms(3) by (simp add: valid_location_def)
  then show thesis
    using r by (intro that [of fs']) (simp_all add: read_directory_entry_def entry_end_valid [OF assms(3)] entry_at_def)
qed

lemma persist_directory_entry_disk:
  assumes dev: "device_laws E view" and wf: "wf_volume fs" and l: "valid_location fs l" and e: "wf_dirent e"
    and p: "persist_directory_entry E fs l e = Some (r, fs')"
  shows "same_volume fs fs'"
    and "\<forall>t. outside_data fs t \<longrightarrow> view (port fs') t = view (port fs) t"
    and "\<forall>d. d \<noteq> loc_cluster l \<longrightarrow> cluster_data view fs' d = cluster_data view fs d"
    and "r = Some () \<Longrightarrow> cluster_data view fs' (loc_cluster l)
           = overwrite (cluster_data view fs (loc_cluster l)) (loc_offset l) (dirent_bytes e)"
proof -
  let ?c = "loc_cluster l"
  have c: "2 \<le> ?c" using l by (simp add: valid_location_def)
  have len: "loc_offset l + 32 \<le> length (cluster_data view fs ?c)"
      "length (cluster_data view fs ?c) = cluster_size fs"
    using length_cluster_data [OF dev wf c] l by (simp_all add: valid_location_def)
  obtain x fs1 where x: "read_cluster E fs ?c = Some (x, fs1)"
    using p by (auto simp: persist_directory_entry_def entry_end_valid [OF l] split: bind_splits)
  have d: "same_disk view fs fs1" "x = None \<or> x = Some (cluster_data view fs ?c)"
    using read_cluster_disk [OF dev wf c x] by simp_all
  note D = same_diskD [OF d(1)] same_disk_cluster_data [OF d(1)]
  have sv: "same_volume fs fs1" using d(1) by (simp add: same_disk_def)
  let ?b = "overwrite (cluster_data view fs ?c) (loc_offset l) (dirent_bytes e)"
  have b: "length ?b = cluster_size fs1"
    using len e same_volume_geometry(1) [OF sv] by simp
  have wf1: "wf_volume fs1" using same_volume_geometry(4) [OF sv] wf by simp
  have out: "outside_data fs1 = outside_data fs"
    using same_volume_geometry(2) [OF sv] by (simp add: outside_data_def fun_eq_iff)
  consider "x = None" "r = None" "fs' = fs1"
    | ok where "x = Some (cluster_data view fs ?c)" "write_cluster E fs1 ?c ?b = Some (ok, fs')"
        "r = (if ok then Some () else None)"
    using d(2) p x len(1)
    by (auto simp: persist_directory_entry_def entry_end_valid [OF l] split: bind_splits)
  then have "same_volume fs fs' \<and> (\<forall>t. outside_data fs t \<longrightarrow> view (port fs') t = view (port fs) t)
      \<and> (\<forall>d. d \<noteq> ?c \<longrightarrow> cluster_data view fs' d = cluster_data view fs d)
      \<and> (r = Some () \<longrightarrow> cluster_data view fs' ?c = ?b)"
  proof cases
    case 1
    then show ?thesis using sv D by simp
  next
    case (2 ok)
    note w = write_cluster_disk [OF dev wf1 c b 2(2)]
    show ?thesis
      using same_volume_trans [OF sv w(1)] w(2-4) D 2(3) by (simp add: out split: if_splits)
  qed
  then show "same_volume fs fs'"
    and "\<forall>t. outside_data fs t \<longrightarrow> view (port fs') t = view (port fs) t"
    and "\<forall>d. d \<noteq> ?c \<longrightarrow> cluster_data view fs' d = cluster_data view fs d"
    and "r = Some () \<Longrightarrow> cluster_data view fs' ?c = ?b"
    by simp_all
qed

lemma persist_directory_entry_reliable:
  assumes "device_laws E view" "wf_volume fs" "valid_location fs l" "reliable E"
  shows "\<exists>fs'. persist_directory_entry E fs l e = Some (Some (), fs')"
proof -
  have c: "2 \<le> loc_cluster l" using assms(3) by (simp add: valid_location_def)
  obtain fs1 where r: "read_cluster E fs (loc_cluster l) = Some (Some (cluster_data view fs (loc_cluster l)), fs1)"
    using read_cluster_Some [OF assms(1,2) c assms(4)] by blast
  have "loc_offset l + 32 \<le> length (cluster_data view fs (loc_cluster l))"
    using length_cluster_data [OF assms(1,2) c] assms(3) by (simp add: valid_location_def)
  moreover obtain fs2 where "write_cluster E fs1 (loc_cluster l)
      (overwrite (cluster_data view fs (loc_cluster l)) (loc_offset l) (dirent_bytes e)) = Some (True, fs2)"
    using write_cluster_reliable [OF assms(4) c] by blast
  ultimately show ?thesis
    using r by (simp add: persist_directory_entry_def entry_end_valid [OF assms(3)])
qed

text \<open>The slots of a directory given by its cluster chain.\<close>

definition dir_slots :: "('w \<Rightarrow> nat \<Rightarrow> bytes) \<Rightarrow> 'w fat_file_system \<Rightarrow> nat list \<Rightarrow> slot list" where
  "dir_slots view fs cs = concat (map (\<lambda>c. slots_of_region c (cluster_data view fs c)) cs)"

lemma length_slots_of_region [simp]: "length (slots_of_region c b) = length b div 32"
  by (simp add: slots_of_region_def)

lemma slots_of_region_locations:
  "map snd (slots_of_region c b) =
     map (\<lambda>i. \<lparr> loc_cluster = c, loc_index = i, loc_offset = i * 32 \<rparr>) [0..<length b div 32]"
  by (simp add: slots_of_region_def)

lemma slots_of_region_overwrite:
  assumes "i * 32 + 32 \<le> length b" "wf_dirent e"
  shows "slots_of_region c (overwrite b (i * 32) (dirent_bytes e)) =
    (slots_of_region c b)[i := (e, \<lparr> loc_cluster = c, loc_index = i, loc_offset = i * 32 \<rparr>)]"
proof (rule nth_equalityI)
  let ?o = "overwrite b (i * 32) (dirent_bytes e)"
  have len: "length ?o = length b" using assms by simp
  then show "length (slots_of_region c ?o) = length ((slots_of_region c b)[i := (e, \<lparr> loc_cluster = c, loc_index = i, loc_offset = i * 32 \<rparr>)])"
    by simp
  fix j
  assume "j < length (slots_of_region c ?o)"
  then have j: "j < length b div 32" using len by simp
  then have jb: "j * 32 + 32 \<le> length b"
    by (metis Suc_leI div_le_mono mult.commute mult_Suc mult_le_mono2 div_times_less_eq_dividend add.commute le_trans mult_le_mono1)
  have "take 32 (drop (j * 32) ?o) = (if j = i then dirent_bytes e else take 32 (drop (j * 32) b))"
  proof -
    consider "j = i" | "j < i" | "i < j" by linarith
    then show ?thesis
    proof cases
      case 1
      have "take (length (dirent_bytes e)) (drop (i * 32) ?o) = dirent_bytes e"
        by (rule overwrite_same) (use assms in simp)
      then show ?thesis using 1 assms(2) by simp
    next
      case 2
      then have "j * 32 + 32 \<le> i * 32" using mult_le_mono1 [of "Suc j" i 32] by simp
      then have "take (j * 32 + 32) ?o = take (j * 32 + 32) b" using assms by (intro take_overwrite) auto
      then show ?thesis using 2 by (metis add.commute drop_take add_diff_cancel_left' nat_neq_iff)
    next
      case 3
      then have "i * 32 + 32 \<le> j * 32" using mult_le_mono1 [of "Suc i" j 32] by simp
      then have "drop (j * 32) ?o = drop (j * 32) b" using assms by (intro drop_overwrite) auto
      then show ?thesis using 3 by simp
    qed
  qed
  with j len assms show "slots_of_region c ?o ! j =
      (slots_of_region c b)[i := (e, \<lparr> loc_cluster = c, loc_index = i, loc_offset = i * 32 \<rparr>)] ! j"
    by (auto simp: slots_of_region_def nth_list_update)
qed

lemma load_slots_step:
  assumes "read_cluster E fs c = Some (Some b, fs')" "next_cluster (fat fs') c = r"
  shows "load_slots_loop E fs slots c =
    (case r of Some n \<Rightarrow> load_slots_loop E fs' (slots @ slots_of_region c b) n
     | None \<Rightarrow> Some (Some (slots @ slots_of_region c b, c), fs'))"
  using assms by (subst load_slots_loop.simps) (simp add: Let_def)

text \<open>A chain that ends is loaded completely, whatever else the table holds.\<close>

lemma load_slots_loop_chain:
  assumes "device_laws E view" "reliable E"
  shows "wf_volume fs \<Longrightarrow> fat_chain (fat fs) (c # cs) \<Longrightarrow> \<forall>x \<in> set (c # cs). 2 \<le> x \<Longrightarrow>
    \<exists>fs'. load_slots_loop E fs slots c = Some (Some (slots @ dir_slots view fs (c # cs), last (c # cs)), fs')
      \<and> same_disk view fs fs'"
proof (induction cs arbitrary: c fs slots)
  case Nil
  then obtain fs' where r: "read_cluster E fs c = Some (Some (cluster_data view fs c), fs')" "same_disk view fs fs'"
    using read_cluster_Some [OF assms(1) _ _ assms(2)] by (metis list.set_intros(1))
  then show ?case
    using Nil same_diskD [OF r(2)] by (subst load_slots_step [OF r(1) refl]) (simp add: dir_slots_def)
next
  case (Cons d cs)
  then obtain fs1 where r: "read_cluster E fs c = Some (Some (cluster_data view fs c), fs1)" "same_disk view fs fs1"
    using read_cluster_Some [OF assms(1) _ _ assms(2)] by (metis list.set_intros(1))
  note D = same_diskD [OF r(2)]
  have "wf_volume fs1" using Cons.prems(1) r(2) same_volume_geometry(4) by (auto simp: same_disk_def)
  then obtain fs2 where l: "load_slots_loop E fs1 (slots @ slots_of_region c (cluster_data view fs c)) d
      = Some (Some ((slots @ slots_of_region c (cluster_data view fs c)) @ dir_slots view fs1 (d # cs), last (d # cs)), fs2)"
    "same_disk view fs1 fs2"
    using Cons.IH [of fs1 d "slots @ slots_of_region c (cluster_data view fs c)"] Cons.prems(2,3) D by auto
  have "next_cluster (fat fs1) c = Some d" using Cons.prems(2) D by simp
  then show ?case
    using l same_disk_trans [OF r(2)] same_disk_cluster_data [OF r(2)]
    by (subst load_slots_step [OF r(1)]) (auto simp: dir_slots_def)
qed

lemma load_directory_slots_chain:
  assumes "device_laws E view" "reliable E" "wf_volume fs" "fat_chain (fat fs) cs" "\<forall>x \<in> set cs. 2 \<le> x"
  obtains fs' where "load_directory_slots E fs (hd cs) = Some (Some (dir_slots view fs cs, last cs), fs')"
    "same_disk view fs fs'"
proof -
  obtain c r where "cs = c # r" using assms(4) by (cases cs) auto
  then show thesis
    using load_slots_loop_chain [OF assms(1,2,3), of c r "[]"] assms(4,5) that
    by (auto simp: load_directory_slots_def)
qed


text \<open>
  The loop has no bound of its own: when the table never ends the chain, because it is cyclic,
  and no read fails, the call does not return.
\<close>

lemma read_cluster_fat: "read_cluster E fs c = Some (r, fs') \<Longrightarrow> fat fs' = fat fs"
  by (auto simp: read_cluster_def Let_def split: bind_splits if_splits prod.splits option.splits)

lemma read_cluster_no_failure: "reliable E \<Longrightarrow> read_cluster E fs c \<noteq> Some (None, fs')"
proof (cases "2 \<le> c")
  case True
  then show "reliable E \<Longrightarrow> ?thesis" using read_cluster_reliable [of E c fs] by auto
qed (simp add: read_cluster_def get_sector_None)

lemma load_slots_loop_ends:
  assumes "load_slots_loop E fs slots c = Some y" "reliable E"
  shows "\<exists>k. cluster_at (fat fs) c k = None"
  using assms(2)
proof (induction rule: load_slots_loop.raw_induct [OF _ assms(1)])
  case (1 f E fs slots c y)
  from 1(2) obtain r fs1 where r: "read_cluster E fs c = Some (r, fs1)" by (auto split: bind_splits)
  then obtain b where b: "r = Some b" using read_cluster_no_failure [OF 1(3)] by (cases r) auto
  have ft: "fat fs1 = fat fs" using read_cluster_fat [OF r] .
  show ?case
  proof (cases "next_cluster (fat fs) c")
    case None
    then have "cluster_at (fat fs) c (Suc 0) = None" by simp
    then show ?thesis by blast
  next
    case (Some n)
    then have "f E fs1 (slots @ slots_of_region c b) n = Some y"
      using 1(2) r b ft by (simp add: Let_def)
    from 1(1) [OF this 1(3)] obtain k where "cluster_at (fat fs) n k = None" using ft by auto
    then have "cluster_at (fat fs) c (Suc k) = None" using Some by simp
    then show ?thesis by blast
  qed
qed

text \<open>Writing an entry back to its slot, on a reliable port.\<close>

lemma persist_directory_entry_ok:
  assumes "device_laws E view" "wf_volume fs" "reliable E" "valid_location fs l" "wf_dirent e"
  obtains fs' where "persist_directory_entry E fs l e = Some (Some (), fs')" "same_volume fs fs'"
    "entry_at view fs' l = e"
    "\<forall>d. d \<noteq> loc_cluster l \<longrightarrow> cluster_data view fs' d = cluster_data view fs d"
    "cluster_data view fs' (loc_cluster l) = overwrite (cluster_data view fs (loc_cluster l)) (loc_offset l) (dirent_bytes e)"
proof -
  obtain fs' where p: "persist_directory_entry E fs l e = Some (Some (), fs')"
    using persist_directory_entry_reliable [OF assms(1,2,4,3)] by blast
  note d = persist_directory_entry_disk [OF assms(1,2,4,5) p]
  have "loc_offset l + length (dirent_bytes e) \<le> length (cluster_data view fs (loc_cluster l))"
    using assms(4,5) length_cluster_data [OF assms(1,2)] by (simp add: valid_location_def)
  from overwrite_same [OF this] have "entry_at view fs' l = e"
    using d(4) assms(5) by (simp add: entry_at_def)
  with p d show thesis using that by blast
qed

section \<open>A concrete volume\<close>

text \<open>
  A disk held in memory and a one-table volume with 512-byte clusters on it, to evaluate the
  operations at a concrete input.
\<close>

definition ram_view :: "(nat \<Rightarrow> bytes) \<Rightarrow> nat \<Rightarrow> bytes" where
  "ram_view w s = take 512 (w s @ replicate 512 0)"

definition ram_env :: "(nat \<Rightarrow> bytes) fs_env" where
  "ram_env = \<lparr> env_upper = id, env_lower = id, env_alloc = (\<lambda>_ _. True),
     env_read = (\<lambda>w s n. (Some (concat (map (ram_view w) [s..<s + n])), w)),
     env_write = (\<lambda>w s n b. (True, \<lambda>t. if s \<le> t \<and> t < s + n then take 512 (drop ((t - s) * 512) b) else w t)) \<rparr>"

lemma ram_reliable [simp]: "reliable ram_env"
  by (simp add: reliable_def ram_env_def)

lemma ram_device [simp]: "device_laws ram_env ram_view"
  unfolding device_laws_def
proof (intro conjI allI impI, goal_cases)
  case (4 w s n b w' t)
  then have len: "length b = n * 512" by simp
  show ?case
  proof (cases "s \<le> t \<and> t < s + n")
    case True
    then have "(t - s) * 512 + 512 \<le> length b"
      using mult_le_mono1 [of "Suc (t - s)" n 512] len by auto
    then show ?thesis using 4 True by (auto simp: ram_env_def ram_view_def)
  qed (use 4 in \<open>auto simp: ram_env_def ram_view_def\<close>)
qed (auto simp: ram_view_def ram_env_def)

definition demo_boot :: fat_boot_sector where
  "demo_boot = (fat_boot_sector_of (replicate 36 0))
     \<lparr> bytes_per_sector := 512, sectors_per_cluster := 1, reserved_sector_count := 1, table_count := 1 \<rparr>"

definition demo_boot_32 :: fat32_extended_boot_sector where
  "demo_boot_32 = (fat32_extended_boot_sector_of (replicate 54 0))\<lparr> table_size := 1, root_cluster := 2 \<rparr>"

definition demo_volume :: "u32 list \<Rightarrow> (nat \<Rightarrow> bytes) fat_file_system" where
  "demo_volume used =
     \<lparr> port = (\<lambda>_. []), fat = used @ replicate (128 - length used) 0, bs = demo_boot, bs_32 = demo_boot_32 \<rparr>"

lemma demo_boot_sel [simp]:
  "bytes_per_sector demo_boot = 512" "sectors_per_cluster demo_boot = 1" "reserved_sector_count demo_boot = 1"
  "table_count demo_boot = 1" "table_size_16 demo_boot = 0" "table_size demo_boot_32 = 1"
  "root_cluster demo_boot_32 = 2"
  by (simp_all add: demo_boot_def demo_boot_32_def fat_boot_sector_of_def rd16_def of_le16_def)

lemma demo_volume_sel [simp]:
  "fat (demo_volume used) = used @ replicate (128 - length used) 0" "bs (demo_volume used) = demo_boot"
  "bs_32 (demo_volume used) = demo_boot_32" "port (demo_volume used) = (\<lambda>_. [])"
  by (simp_all add: demo_volume_def)

lemma demo_volume_wf [simp]: "length used \<le> 128 \<Longrightarrow> wf_volume (demo_volume used)"
  by (simp add: wf_volume_def sectors_per_fat_def)

lemma demo_cluster_size [simp]: "cluster_size (demo_volume used) = 512"
  by (simp add: cluster_size_def)

section \<open>Properties\<close>

text \<open>
  C23.  What \<open>persist_fat\<close> has written is what mounting reads: once the table has been persisted,
  \<open>read_fat\<close> on the resulting disk returns the table in memory, and no data cluster has changed.
\<close>

theorem persisted_table_remounts:
  assumes "device_laws E view" "wf_volume fs" "reliable E" "table_count (bs fs) \<noteq> 0"
  shows "\<exists>fs' w'. persist_fat E fs = (Some (), fs') \<and> cluster_data view fs' = cluster_data view fs
     \<and> read_fat E (port fs') (bs fs') (bs_32 fs') = (Some (fat fs), w')"
proof -
  obtain fs' where p: "persist_fat E fs = (Some (), fs')" using persist_fat_reliable [OF assms(3)] by blast
  note d = persist_fat_disk [OF assms(1,2) p]
  have "0 < unat (table_count (bs fs))" using assms(4) by (simp add: unat_gt_0)
  then have "fat_copy view fs' 0 = table_bytes (fat fs)" using d(3) by simp
  moreover have "wf_volume fs'" using same_volume_geometry(4) [OF d(1)] assms(2) by simp
  ultimately show ?thesis using read_fat_copy [OF assms(1) _ assms(3)] p d(2) by metis
qed

theorem persisted_table_remounts_witness:
  "\<exists>fs' w'. persist_fat ram_env (demo_volume [0, 0, 0x0FFFFFFF]) = (Some (), fs')
     \<and> read_fat ram_env (port fs') (bs fs') (bs_32 fs')
         = (Some ([0, 0, 0x0FFFFFFF] @ replicate 125 0), w')"
  using persisted_table_remounts [OF ram_device demo_volume_wf [of "[0, 0, 0x0FFFFFFF]"] ram_reliable] by auto

text \<open>
  C39.  Loading a directory follows its cluster chain without a bound of its own.  On a port that
  never fails, when the table never ends the chain that starts at the directory's first cluster
  (because the chain is cyclic), \<open>load_directory_slots\<close> does not return.
\<close>

theorem cyclic_directory_does_not_return:
  assumes "reliable E" "\<And>k. cluster_at (fat fs) c k \<noteq> None"
  shows "load_directory_slots E fs c = None"
  using load_slots_loop_ends [of E fs "[]" c] assms
  by (cases "load_directory_slots E fs c") (auto simp: load_directory_slots_def)

theorem cyclic_directory_does_not_return_witness:
  "load_directory_slots ram_env (demo_volume [0, 0, 3, 2]) 2 = None"
proof (rule cyclic_directory_does_not_return [OF ram_reliable])
  fix k
  have "cluster_at (fat (demo_volume [0, 0, 3, 2])) 2 k \<noteq> None
      \<and> cluster_at (fat (demo_volume [0, 0, 3, 2])) 3 k \<noteq> None"
    by (induction k) (auto simp: next_cluster_def)
  then show "cluster_at (fat (demo_volume [0, 0, 3, 2])) 2 k \<noteq> None" ..
qed

text \<open>
  C27.  A directory whose chain ends is loaded completely: with a reliable port
  \<open>load_directory_slots\<close> returns every 32-byte slot of every cluster of the chain in order,
  together with the last cluster, and the disk is unchanged.
\<close>

theorem directory_chain_loads:
  assumes "device_laws E view" "reliable E" "wf_volume fs" "fat_chain (fat fs) cs" "\<forall>x \<in> set cs. 2 \<le> x"
  shows "\<exists>fs'. load_directory_slots E fs (hd cs) = Some (Some (dir_slots view fs cs, last cs), fs')
     \<and> same_disk view fs fs'"
  using load_directory_slots_chain [OF assms] by metis

theorem directory_chain_loads_witness:
  "\<exists>fs'. load_directory_slots ram_env (demo_volume [0, 0, 3, 0x0FFFFFFF]) 2
     = Some (Some (dir_slots ram_view (demo_volume [0, 0, 3, 0x0FFFFFFF]) [2, 3], 3), fs')"
  using directory_chain_loads [OF ram_device ram_reliable demo_volume_wf [of "[0, 0, 3, 0x0FFFFFFF]"], of "[2, 3]"]
  by (auto simp: next_cluster_def)

text \<open>
  C29.  A directory entry survives being written to its slot and read back: on a reliable port
  \<open>persist_directory_entry\<close> followed by \<open>read_directory_entry\<close> returns the entry, and the
  other clusters are untouched.
\<close>

theorem directory_entry_roundtrip:
  assumes "device_laws E view" "wf_volume fs" "reliable E" "valid_location fs l" "wf_dirent e"
  shows "\<exists>fs' fs''. persist_directory_entry E fs l e = Some (Some (), fs')
     \<and> read_directory_entry E fs' l = Some (Some e, fs'')
     \<and> (\<forall>d. d \<noteq> loc_cluster l \<longrightarrow> cluster_data view fs' d = cluster_data view fs d)"
proof -
  obtain fs' where p: "persist_directory_entry E fs l e = Some (Some (), fs')" "same_volume fs fs'"
    "entry_at view fs' l = e" "\<forall>d. d \<noteq> loc_cluster l \<longrightarrow> cluster_data view fs' d = cluster_data view fs d"
    using persist_directory_entry_ok [OF assms] by metis
  have "wf_volume fs'" "valid_location fs' l"
    using same_volume_geometry [OF p(2)] assms(2,4) by (simp_all add: valid_location_def)
  then show ?thesis using read_directory_entry_reliable [OF assms(1) _ _ assms(3)] p by metis
qed

theorem directory_entry_roundtrip_witness:
  "\<exists>fs' fs''. persist_directory_entry ram_env (demo_volume [])
       \<lparr> loc_cluster = 2, loc_index = 3, loc_offset = 96 \<rparr> (new_file_entry (replicate 11 65)) = Some (Some (), fs')
     \<and> read_directory_entry ram_env fs' \<lparr> loc_cluster = 2, loc_index = 3, loc_offset = 96 \<rparr>
         = Some (Some (new_file_entry (replicate 11 65)), fs'')"
  using directory_entry_roundtrip [OF ram_device demo_volume_wf [of "[]"] ram_reliable,
      of "\<lparr> loc_cluster = 2, loc_index = 3, loc_offset = 96 \<rparr>" "new_file_entry (replicate 11 65)"]
  by (auto simp: valid_location_def wf_dirent_def new_file_entry_def)

end
