(* ===== verification/Fat_Files.thy ===== *)
theory Fat_Files
  imports Fat_Volume
begin

text \<open>
  The operations of \<open>FATFileSystem\<close> on files and directories (\<open>src/fs/fat_fs.rs\<close>), and the
  \<open>Directory\<close> and \<open>File\<close> objects of the volume built on them: listing, creating, deleting,
  reading, writing and resizing.  Every \<open>?\<close>, early return and rollback of the source is a branch
  of the definition, and the file system state passed on is the one the branch leaves behind.
\<close>

text \<open>\<open>let x = m?;\<close>: stop with \<open>None\<close> when the callee did.\<close>

definition fs_try ::
  "('a, 'w) fs_result \<Rightarrow> ('a \<Rightarrow> 'w fat_file_system \<Rightarrow> ('b, 'w) fs_result) \<Rightarrow> ('b, 'w) fs_result" where
  "fs_try m k =
     (case m of
        None \<Rightarrow> None
      | Some (None, fs) \<Rightarrow> Some (None, fs)
      | Some (Some x, fs) \<Rightarrow> k x fs)"

text \<open>The table is changed in memory only; \<open>persist_fat\<close> writes it out.\<close>

definition fat_free_chain :: "'w fat_file_system \<Rightarrow> nat \<Rightarrow> unit option \<times> 'w fat_file_system" where
  "fat_free_chain fs cluster = (let (r, t) = free_chain (fat fs) cluster in (r, fs\<lparr>fat := t\<rparr>))"

definition fat_allocate_chain :: "'w fat_file_system \<Rightarrow> nat \<Rightarrow> nat option \<times> 'w fat_file_system" where
  "fat_allocate_chain fs count = (let (r, t) = allocate_chain (fat fs) count in (r, fs\<lparr>fat := t\<rparr>))"

definition fat_set_entry :: "'w fat_file_system \<Rightarrow> nat \<Rightarrow> u32 \<Rightarrow> unit option \<times> 'w fat_file_system" where
  "fat_set_entry fs cluster v =
     (case fat_set (fat fs) cluster v of None \<Rightarrow> (None, fs) | Some t \<Rightarrow> (Some (), fs\<lparr>fat := t\<rparr>))"

definition rollback_allocated_chain :: "'w fs_env \<Rightarrow> 'w fat_file_system \<Rightarrow> nat \<Rightarrow> 'w fat_file_system" where
  "rollback_allocated_chain E fs cluster =
     (let (_, fs) = fat_free_chain fs cluster; (_, fs) = persist_fat E fs in fs)"

section \<open>Looking up\<close>

definition list_directory ::
  "'w fs_env \<Rightarrow> 'w fat_file_system \<Rightarrow> directory_entry \<Rightarrow>
     ((located_directory_entry list \<times> located_directory_entry list) \<times> 'w fat_file_system) option" where
  "list_directory E fs dir = do {
     cluster \<leftarrow> directory_cluster E fs dir;
     (r, fs) \<leftarrow> load_directory_slots E fs cluster;
     case r of
       None \<Rightarrow> Some (([], []), fs)
     | Some (slots, _) \<Rightarrow>
         (let parsed = parse_directory_entries (env_lower E) slots
          in Some ((filter (\<lambda>p. \<not> is_directory (located_entry p) \<and> is_regular_file (located_entry p)) parsed,
                    filter (\<lambda>p. is_directory (located_entry p)) parsed), fs))
   }"

definition find_entry_by_name ::
  "'w fs_env \<Rightarrow> 'w fat_file_system \<Rightarrow> directory_entry \<Rightarrow> ustr \<Rightarrow> (located_directory_entry, 'w) fs_result" where
  "find_entry_by_name E fs dir name = do {
     cluster \<leftarrow> directory_cluster E fs dir;
     fs_try (load_directory_slots E fs cluster) (\<lambda>(slots, _) fs.
       Some (find_parsed_entry (env_lower E) (parse_directory_entries (env_lower E) slots) name, fs))
   }"

definition directory_is_empty ::
  "'w fs_env \<Rightarrow> 'w fat_file_system \<Rightarrow> directory_entry \<Rightarrow> (bool, 'w) fs_result" where
  "directory_is_empty E fs dir = do {
     cluster \<leftarrow> directory_cluster E fs dir;
     fs_try (load_directory_slots E fs cluster) (\<lambda>(slots, _) fs.
       Some (Some (list_all (\<lambda>p. is_dot_name (de_name (located_entry p)))
                     (parse_directory_entries (env_lower E) slots)), fs))
   }"

section \<open>Creating entries\<close>

definition append_directory_cluster ::
  "'w fs_env \<Rightarrow> 'w fat_file_system \<Rightarrow> nat \<Rightarrow> (nat, 'w) fs_result" where
  "append_directory_cluster E fs last_cluster =
     (case fat_allocate_chain fs 1 of
        (None, fs) \<Rightarrow> Some (None, fs)
      | (Some new_cluster, fs) \<Rightarrow>
          (case fat_set_entry fs last_cluster (of_nat new_cluster) of
             (None, fs) \<Rightarrow> Some (None, snd (fat_free_chain fs new_cluster))
           | (Some (), fs) \<Rightarrow>
               (let (persisted, fs) = persist_fat E fs
                in do {
                  (cleared, fs) \<leftarrow>
                    (if persisted = None then Some (False, fs) else clear_cluster E fs new_cluster);
                  if persisted = None \<or> \<not> cleared then
                    (let fs = snd (fat_set_entry fs last_cluster FAT_CLUSTER_EOF);
                         fs = snd (fat_free_chain fs new_cluster);
                         fs = snd (persist_fat E fs)
                     in Some (None, fs))
                  else Some (Some new_cluster, fs)
                })))"

definition cluster_locations :: "nat \<Rightarrow> nat \<Rightarrow> directory_entry_location list" where
  "cluster_locations cluster n =
     map (\<lambda>index. \<lparr> loc_cluster = cluster, loc_index = index, loc_offset = index * 32 \<rparr>) [0..<n]"

partial_function (option) extend_run ::
  "'w fs_env \<Rightarrow> 'w fat_file_system \<Rightarrow> nat \<Rightarrow> nat \<Rightarrow> directory_entry_location list \<Rightarrow>
     (directory_entry_location list, 'w) fs_result" where
  "extend_run E fs needed last_cluster run =
     (if length run < needed then do {
        (r, fs) \<leftarrow> append_directory_cluster E fs last_cluster;
        case r of
          None \<Rightarrow> Some (None, fs)
        | Some new_cluster \<Rightarrow>
            (let entries_per_cluster = cluster_size fs div 32
             in extend_run E fs needed new_cluster
                  (run @ take (needed - length run) (cluster_locations new_cluster entries_per_cluster)))
      }
      else Some (Some run, fs))"

definition allocate_directory_slots ::
  "'w fs_env \<Rightarrow> 'w fat_file_system \<Rightarrow> nat \<Rightarrow> nat \<Rightarrow> (directory_entry_location list, 'w) fs_result" where
  "allocate_directory_slots E fs dir_cluster needed =
     fs_try (load_directory_slots E fs dir_cluster) (\<lambda>(slots, last_cluster) fs.
       (let (found, run) = slot_run needed False [] slots
        in if found then Some (Some run, fs) else extend_run E fs needed last_cluster run))"

fun persist_entries ::
  "'w fs_env \<Rightarrow> 'w fat_file_system \<Rightarrow> (directory_entry \<times> directory_entry_location) list \<Rightarrow> (unit, 'w) fs_result"
where
  "persist_entries E fs [] = Some (Some (), fs)"
| "persist_entries E fs ((entry, location) # rest) =
     fs_try (persist_directory_entry E fs location entry) (\<lambda>_ fs. persist_entries E fs rest)"

definition persist_new_entry ::
  "'w fs_env \<Rightarrow> 'w fat_file_system \<Rightarrow> nat \<Rightarrow> long_directory_entry list \<Rightarrow> directory_entry \<Rightarrow>
     (directory_entry_location \<times> directory_entry_location list, 'w) fs_result" where
  "persist_new_entry E fs dir_cluster lfn_entries entry =
     fs_try (allocate_directory_slots E fs dir_cluster (length lfn_entries + 1)) (\<lambda>locations fs.
       fs_try (persist_entries E fs (zip (map to_directory_entry lfn_entries) locations)) (\<lambda>_ fs.
         if locations = [] then Some (None, fs)
         else
           (let short_location = last locations
            in fs_try (persist_directory_entry E fs short_location entry) (\<lambda>_ fs.
                 Some (Some (short_location, butlast locations), fs)))))"

definition create_file ::
  "'w fs_env \<Rightarrow> 'w fat_file_system \<Rightarrow> directory_entry \<Rightarrow> ustr \<Rightarrow> (located_directory_entry, 'w) fs_result" where
  "create_file E fs dir filename = do {
     dir_cluster \<leftarrow> directory_cluster E fs dir;
     fs_try (load_directory_slots E fs dir_cluster) (\<lambda>(slots, _) fs.
       (let parsed = parse_directory_entries (env_lower E) slots
        in if find_parsed_entry (env_lower E) parsed filename \<noteq> None then Some (None, fs)
           else
             (case prepare_name_entries (env_upper E) parsed filename of
                None \<Rightarrow> Some (None, fs)
              | Some (short_name, lfn_entries) \<Rightarrow>
                  (let entry = new_file_entry short_name
                   in fs_try (persist_new_entry E fs dir_cluster lfn_entries entry)
                        (\<lambda>(location, lfn_locations) fs.
                          Some (Some \<lparr> located_entry = entry, located_location = location,
                            located_name = (if lfn_entries = [] then get_filename_from_fat (env_lower E) short_name
                                            else filename),
                            located_lfn_locations = lfn_locations \<rparr>, fs))))))
   }"

definition initialize_directory_cluster ::
  "'w fs_env \<Rightarrow> 'w fat_file_system \<Rightarrow> nat \<Rightarrow> nat \<Rightarrow> (bool \<times> 'w fat_file_system) option" where
  "initialize_directory_cluster E fs cluster parent_cluster =
     (let sz = cluster_size fs
      in if \<not> env_alloc E (port fs) sz then Some (False, fs)
         else
           (let dot = directory_entry_for (dot_name False) cluster;
                dot_dot = directory_entry_for (dot_name True) parent_cluster;
                buffer = overwrite (overwrite (replicate sz 0) 0 (dirent_bytes dot)) 32 (dirent_bytes dot_dot)
            in write_cluster E fs cluster buffer))"

definition create_directory ::
  "'w fs_env \<Rightarrow> 'w fat_file_system \<Rightarrow> directory_entry \<Rightarrow> ustr \<Rightarrow> (unit, 'w) fs_result" where
  "create_directory E fs parent name = do {
     parent_cluster \<leftarrow> directory_cluster E fs parent;
     fs_try (load_directory_slots E fs parent_cluster) (\<lambda>(slots, _) fs.
       (let parsed = parse_directory_entries (env_lower E) slots
        in if find_parsed_entry (env_lower E) parsed name \<noteq> None then Some (None, fs)
           else
             (case prepare_name_entries (env_upper E) parsed name of
                None \<Rightarrow> Some (None, fs)
              | Some (short_name, lfn_entries) \<Rightarrow>
                  (case fat_allocate_chain fs 1 of
                     (None, fs) \<Rightarrow> Some (None, fs)
                   | (Some cluster, fs) \<Rightarrow> do {
                       (initialized, fs) \<leftarrow> initialize_directory_cluster E fs cluster parent_cluster;
                       if \<not> initialized then Some (None, snd (fat_free_chain fs cluster))
                       else
                         (case persist_fat E fs of
                            (None, fs) \<Rightarrow> Some (None, rollback_allocated_chain E fs cluster)
                          | (Some (), fs) \<Rightarrow> do {
                              (r, fs) \<leftarrow> persist_new_entry E fs parent_cluster lfn_entries
                                          (directory_entry_for short_name cluster);
                              case r of
                                None \<Rightarrow> Some (None, rollback_allocated_chain E fs cluster)
                              | Some _ \<Rightarrow> Some (Some (), fs)
                            })
                     }))))
   }"

section \<open>Deleting entries\<close>

fun delete_lfn_entries ::
  "'w fs_env \<Rightarrow> 'w fat_file_system \<Rightarrow> directory_entry_location list \<Rightarrow> (unit, 'w) fs_result" where
  "delete_lfn_entries E fs [] = Some (Some (), fs)"
| "delete_lfn_entries E fs (location # rest) =
     fs_try (read_directory_entry E fs location) (\<lambda>lfn_entry fs.
       fs_try (persist_directory_entry E fs location (mark_deleted lfn_entry)) (\<lambda>_ fs.
         delete_lfn_entries E fs rest))"

definition delete_directory_entry ::
  "'w fs_env \<Rightarrow> 'w fat_file_system \<Rightarrow> located_directory_entry \<Rightarrow> (unit, 'w) fs_result" where
  "delete_directory_entry E fs located =
     fs_try (delete_lfn_entries E fs (located_lfn_locations located)) (\<lambda>_ fs.
       (let first_cluster = get_cluster (located_entry located)
        in fs_try (persist_directory_entry E fs (located_location located) (mark_deleted (located_entry located)))
             (\<lambda>_ fs.
               if first_cluster = 0 then Some (Some (), fs)
               else
                 (case fat_free_chain fs first_cluster of
                    (None, fs) \<Rightarrow> Some (None, fs)
                  | (Some (), fs) \<Rightarrow> Some (Some (), snd (persist_fat E fs))))))"

definition unlink_file ::
  "'w fs_env \<Rightarrow> 'w fat_file_system \<Rightarrow> directory_entry \<Rightarrow> ustr \<Rightarrow> (unit, 'w) fs_result" where
  "unlink_file E fs parent name =
     fs_try (find_entry_by_name E fs parent name) (\<lambda>file fs.
       if \<not> is_regular_file (located_entry file) then Some (None, fs)
       else delete_directory_entry E fs file)"

definition remove_directory ::
  "'w fs_env \<Rightarrow> 'w fat_file_system \<Rightarrow> directory_entry \<Rightarrow> ustr \<Rightarrow> (unit, 'w) fs_result" where
  "remove_directory E fs parent name =
     fs_try (find_entry_by_name E fs parent name) (\<lambda>directory fs.
       if \<not> is_directory (located_entry directory) \<or> get_cluster (located_entry directory) = 0
          \<or> is_dot_name (de_name (located_entry directory))
       then Some (None, fs)
       else fs_try (directory_is_empty E fs (located_entry directory)) (\<lambda>empty fs.
              if \<not> empty then Some (None, fs) else delete_directory_entry E fs directory))"

section \<open>File contents\<close>

partial_function (option) read_file_loop ::
  "'w fs_env \<Rightarrow> 'w fat_file_system \<Rightarrow> nat \<Rightarrow> bytes \<Rightarrow> nat \<Rightarrow> (bytes, 'w) fs_result" where
  "read_file_loop E fs filesize file_buffer cluster =
     (if length file_buffer < filesize then do {
        (r, fs) \<leftarrow> read_cluster E fs cluster;
        case r of
          None \<Rightarrow> Some (None, fs)
        | Some region \<Rightarrow>
            (let to_append = min (length region) (filesize - length file_buffer);
                 file_buffer = file_buffer @ take to_append region
             in if length file_buffer = filesize then Some (Some file_buffer, fs)
                else (case next_cluster (fat fs) cluster of
                        None \<Rightarrow> Some (None, fs)
                      | Some n \<Rightarrow> read_file_loop E fs filesize file_buffer n))
      }
      else Some (Some file_buffer, fs))"

definition read_file ::
  "'w fs_env \<Rightarrow> 'w fat_file_system \<Rightarrow> directory_entry \<Rightarrow> (bytes, 'w) fs_result" where
  "read_file E fs file =
     (if de_attributes file \<noteq> 32 then Some (None, fs)
      else
        (let filesize = unat (de_size file)
         in if filesize = 0 then Some (Some [], fs)
            else if \<not> env_alloc E (port fs) filesize then Some (None, fs)
            else
              (let cluster = get_cluster file
               in if cluster = 0 then Some (None, fs) else read_file_loop E fs filesize [] cluster)))"

text \<open>Skipping whole clusters to reach an offset; \<open>Some None\<close> when the chain is too short.\<close>

partial_function (option) skip_clusters ::
  "fat_buffer \<Rightarrow> nat \<Rightarrow> nat \<Rightarrow> nat \<Rightarrow> (nat \<times> nat) option option" where
  "skip_clusters table size_of_cluster cluster cluster_offset =
     (if size_of_cluster \<le> cluster_offset then
        (case next_cluster table cluster of
           None \<Rightarrow> Some None
         | Some n \<Rightarrow> skip_clusters table size_of_cluster n (cluster_offset - size_of_cluster))
      else Some (Some (cluster, cluster_offset)))"

partial_function (option) write_file_loop ::
  "'w fs_env \<Rightarrow> 'w fat_file_system \<Rightarrow> bytes \<Rightarrow> nat \<Rightarrow> nat \<Rightarrow> nat \<Rightarrow> (nat, 'w) fs_result" where
  "write_file_loop E fs bytes cluster cluster_offset bytes_written =
     (if bytes_written < length bytes then do {
        (r, fs) \<leftarrow> read_cluster E fs cluster;
        case r of
          None \<Rightarrow> Some (None, fs)
        | Some region \<Rightarrow>
            (let writable_bytes = min (length bytes - bytes_written) (cluster_size fs - cluster_offset)
             in do {
               (status, fs) \<leftarrow> write_cluster E fs cluster
                 (overwrite region cluster_offset (take writable_bytes (drop bytes_written bytes)));
               if \<not> status then Some (if bytes_written = 0 then None else Some bytes_written, fs)
               else
                 (let bytes_written = bytes_written + writable_bytes
                  in if bytes_written = length bytes then Some (Some bytes_written, fs)
                     else (case next_cluster (fat fs) cluster of
                             None \<Rightarrow> Some (None, fs)
                           | Some n \<Rightarrow> write_file_loop E fs bytes n 0 bytes_written))
             })
      }
      else Some (Some bytes_written, fs))"

definition write_existing_file ::
  "'w fs_env \<Rightarrow> 'w fat_file_system \<Rightarrow> directory_entry \<Rightarrow> nat \<Rightarrow> bytes \<Rightarrow> (nat, 'w) fs_result" where
  "write_existing_file E fs file offset bytes =
     (if de_attributes file \<noteq> 32 then Some (None, fs)
      else
        (case checked_add offset (length bytes) of
           None \<Rightarrow> Some (None, fs)
         | Some end_offset \<Rightarrow>
             if unat (de_size file) < end_offset then Some (None, fs)
             else if bytes = [] then Some (Some 0, fs)
             else
               (let cluster = get_cluster file
                in if cluster = 0 then Some (None, fs)
                   else do {
                     start \<leftarrow> skip_clusters (fat fs) (cluster_size fs) cluster offset;
                     case start of
                       None \<Rightarrow> Some (None, fs)
                     | Some (cluster, cluster_offset) \<Rightarrow>
                         write_file_loop E fs bytes cluster cluster_offset 0
                   })))"

partial_function (option) zero_file_loop ::
  "'w fs_env \<Rightarrow> 'w fat_file_system \<Rightarrow> nat \<Rightarrow> nat \<Rightarrow> nat \<Rightarrow> nat \<Rightarrow> (unit, 'w) fs_result" where
  "zero_file_loop E fs sz cluster cluster_offset bytes_zeroed =
     (if bytes_zeroed < sz then do {
        (r, fs) \<leftarrow> read_cluster E fs cluster;
        case r of
          None \<Rightarrow> Some (None, fs)
        | Some region \<Rightarrow>
            (let zero_size = min (sz - bytes_zeroed) (cluster_size fs - cluster_offset)
             in do {
               (status, fs) \<leftarrow> write_cluster E fs cluster
                 (overwrite region cluster_offset (replicate zero_size 0));
               if \<not> status then Some (None, fs)
               else
                 (let bytes_zeroed = bytes_zeroed + zero_size
                  in if bytes_zeroed = sz then Some (Some (), fs)
                     else (case next_cluster (fat fs) cluster of
                             None \<Rightarrow> Some (None, fs)
                           | Some n \<Rightarrow> zero_file_loop E fs sz n 0 bytes_zeroed))
             })
      }
      else Some (Some (), fs))"

definition zero_file_range ::
  "'w fs_env \<Rightarrow> 'w fat_file_system \<Rightarrow> nat \<Rightarrow> nat \<Rightarrow> nat \<Rightarrow> (unit, 'w) fs_result" where
  "zero_file_range E fs first_cluster offset sz =
     (if sz = 0 then Some (Some (), fs)
      else do {
        start \<leftarrow> skip_clusters (fat fs) (cluster_size fs) first_cluster offset;
        case start of
          None \<Rightarrow> Some (None, fs)
        | Some (cluster, cluster_offset) \<Rightarrow> zero_file_loop E fs sz cluster cluster_offset 0
      })"

section \<open>Resizing\<close>

text \<open>The operations that take \<open>file: &mut DirectoryEntry\<close> return the entry they leave in it.\<close>

type_synonym 'w resize_result = "(unit option \<times> directory_entry \<times> 'w fat_file_system) option"

definition persist_resized ::
  "'w fs_env \<Rightarrow> 'w fat_file_system \<Rightarrow> directory_entry_location \<Rightarrow> directory_entry \<Rightarrow> 'w resize_result" where
  "persist_resized E fs location file =
     map_option (\<lambda>(r, fs). (r, file, fs)) (persist_directory_entry E fs location file)"

definition shrink_existing_file ::
  "'w fs_env \<Rightarrow> 'w fat_file_system \<Rightarrow> directory_entry \<Rightarrow> directory_entry_location \<Rightarrow> nat \<Rightarrow> 'w resize_result"
where
  "shrink_existing_file E fs file location new_size =
     (let first_cluster = get_cluster file
      in if new_size = 0 then
           (let (r, fs) = (if first_cluster \<noteq> 0 then
                             (case fat_free_chain fs first_cluster of
                                (None, fs) \<Rightarrow> (None, fs)
                              | (Some (), fs) \<Rightarrow> persist_fat E fs)
                           else (Some (), fs))
            in if r = None then Some (None, file, fs)
               else persist_resized E fs location ((set_cluster file 0)\<lparr>de_size := 0\<rparr>))
         else if first_cluster = 0 then Some (None, file, fs)
         else if cluster_size fs = 0 then None
         else
           (let clusters_to_keep = (new_size + cluster_size fs - 1) div cluster_size fs
            in case cluster_at (fat fs) first_cluster (clusters_to_keep - 1) of
                 None \<Rightarrow> Some (None, file, fs)
               | Some last_kept_cluster \<Rightarrow>
                   (let first_freed_cluster = next_cluster (fat fs) last_kept_cluster
                    in case fat_set_entry fs last_kept_cluster FAT_CLUSTER_EOF of
                         (None, fs) \<Rightarrow> Some (None, file, fs)
                       | (Some (), fs) \<Rightarrow>
                           (let (r, fs) = (case first_freed_cluster of
                                             None \<Rightarrow> (Some (), fs)
                                           | Some c \<Rightarrow> fat_free_chain fs c)
                            in if r = None then Some (None, file, fs)
                               else (case persist_fat E fs of
                                       (None, fs) \<Rightarrow> Some (None, file, fs)
                                     | (Some (), fs) \<Rightarrow>
                                         persist_resized E fs location (file\<lparr>de_size := of_nat new_size\<rparr>))))))"

definition rollback_growth ::
  "'w fat_file_system \<Rightarrow> directory_entry \<Rightarrow> nat \<Rightarrow> nat \<Rightarrow> nat option \<Rightarrow>
     directory_entry \<times> 'w fat_file_system" where
  "rollback_growth fs file old_first_cluster old_cluster_count new_chain_start =
     (let (file, fs) =
        (if old_cluster_count = 0 then (set_cluster file old_first_cluster, fs)
         else (case cluster_at (fat fs) old_first_cluster (old_cluster_count - 1) of
                 Some last_old_cluster \<Rightarrow> (file, snd (fat_set_entry fs last_old_cluster FAT_CLUSTER_EOF))
               | None \<Rightarrow> (file, fs)))
      in case new_chain_start of
           Some c \<Rightarrow> (file, snd (fat_free_chain fs c))
         | None \<Rightarrow> (file, fs))"

text \<open>
  The first half of \<open>grow_existing_file\<close>: allocate what is missing and link it behind the old
  chain.  \<open>Inl\<close> is one of its early returns.
\<close>

definition grow_allocate ::
  "'w fat_file_system \<Rightarrow> directory_entry \<Rightarrow> nat \<Rightarrow> nat \<Rightarrow>
     'w fat_file_system + (nat option \<times> directory_entry \<times> 'w fat_file_system)" where
  "grow_allocate fs file old_cluster_count new_cluster_count =
     (if old_cluster_count < new_cluster_count then
        (case fat_allocate_chain fs (new_cluster_count - old_cluster_count) of
           (None, fs) \<Rightarrow> Inl fs
         | (Some start, fs) \<Rightarrow>
             if old_cluster_count = 0 then Inr (Some start, set_cluster file start, fs)
             else (case cluster_at (fat fs) (get_cluster file) (old_cluster_count - 1) of
                     None \<Rightarrow> Inl fs
                   | Some last_old_cluster \<Rightarrow>
                       (case fat_set_entry fs last_old_cluster (of_nat start) of
                          (None, fs) \<Rightarrow> Inl fs
                        | (Some (), fs) \<Rightarrow> Inr (Some start, file, fs))))
      else Inr (None, file, fs))"

definition grow_existing_file ::
  "'w fs_env \<Rightarrow> 'w fat_file_system \<Rightarrow> directory_entry \<Rightarrow> directory_entry_location \<Rightarrow> nat \<Rightarrow> nat \<Rightarrow>
     'w resize_result" where
  "grow_existing_file E fs file location old_size new_size = do {
     old_cluster_count \<leftarrow> clusters_for_size fs old_size;
     new_cluster_count \<leftarrow> clusters_for_size fs new_size;
     let old_first_cluster = get_cluster file;
     case grow_allocate fs file old_cluster_count new_cluster_count of
       Inl fs \<Rightarrow> Some (None, file, fs)
     | Inr (new_chain_start, file, fs) \<Rightarrow> do {
         (zeroed, fs) \<leftarrow> zero_file_range E fs (get_cluster file) old_size (new_size - old_size);
         if zeroed = None then
           (let (file, fs) = rollback_growth fs file old_first_cluster old_cluster_count new_chain_start
            in Some (None, file, fs))
         else (case persist_fat E fs of
                 (None, fs) \<Rightarrow>
                   (let (file, fs) = rollback_growth fs file old_first_cluster old_cluster_count new_chain_start
                    in Some (None, file, fs))
               | (Some (), fs) \<Rightarrow>
                   persist_resized E fs location (file\<lparr>de_size := of_nat new_size\<rparr>))
       }
   }"

definition truncate_existing_file ::
  "'w fs_env \<Rightarrow> 'w fat_file_system \<Rightarrow> directory_entry \<Rightarrow> directory_entry_location \<Rightarrow> nat \<Rightarrow> 'w resize_result"
where
  "truncate_existing_file E fs file location new_size = do {
     (r, fs) \<leftarrow> read_directory_entry E fs location;
     case r of
       None \<Rightarrow> Some (None, file, fs)
     | Some file \<Rightarrow>
         if de_attributes file \<noteq> 32 then Some (None, file, fs)
         else
           (let old_size = unat (de_size file)
            in if 0xFFFFFFFF < new_size then Some (None, file, fs)
               else if new_size = old_size then Some (Some (), file, fs)
               else if new_size < old_size then shrink_existing_file E fs file location new_size
               else grow_existing_file E fs file location old_size new_size)
   }"

section \<open>The file and directory objects\<close>

text \<open>
  \<open>FATFile\<close> and \<open>FATDirectory\<close> hold a weak reference to the file system; \<open>None\<close> in place of the
  state is a file system that has been dropped.
\<close>

record fat_file =
  file_entry :: directory_entry
  file_name :: ustr
  file_location :: directory_entry_location

record fat_directory =
  dir_entry :: directory_entry
  dir_name :: ustr

definition fat_file_size ::
  "'w fs_env \<Rightarrow> 'w fat_file_system option \<Rightarrow> fat_file \<Rightarrow> (nat \<times> 'w fat_file_system option) option" where
  "fat_file_size E fso file =
     (case fso of
        None \<Rightarrow> Some (unat (de_size (file_entry file)), None)
      | Some fs \<Rightarrow> do {
          (r, fs) \<leftarrow> read_directory_entry E fs (file_location file);
          Some (case r of Some entry \<Rightarrow> unat (de_size entry) | None \<Rightarrow> unat (de_size (file_entry file)), Some fs)
        })"

definition fat_file_read :: "'w fs_env \<Rightarrow> 'w fat_file_system option \<Rightarrow> fat_file \<Rightarrow> (bytes, 'w) fs_result" where
  "fat_file_read E fso file = do {
     fs \<leftarrow> fso;
     fs_try (read_directory_entry E fs (file_location file)) (\<lambda>entry fs. read_file E fs entry)
   }"

definition fat_file_write ::
  "'w fs_env \<Rightarrow> 'w fat_file_system option \<Rightarrow> fat_file \<Rightarrow> nat \<Rightarrow> bytes \<Rightarrow> (nat, 'w) fs_result" where
  "fat_file_write E fso file offset bytes = do {
     fs \<leftarrow> fso;
     fs_try (read_directory_entry E fs (file_location file)) (\<lambda>entry fs.
       fs_try (write_existing_file E fs entry offset bytes) (\<lambda>bytes_written fs.
         fs_try (persist_directory_entry E fs (file_location file) entry) (\<lambda>_ fs.
           Some (Some bytes_written, fs))))
   }"

definition fat_file_truncate ::
  "'w fs_env \<Rightarrow> 'w fat_file_system option \<Rightarrow> fat_file \<Rightarrow> nat \<Rightarrow>
     (unit option \<times> fat_file \<times> 'w fat_file_system) option" where
  "fat_file_truncate E fso file sz = do {
     fs \<leftarrow> fso;
     (r, entry, fs) \<leftarrow> truncate_existing_file E fs (file_entry file) (file_location file) sz;
     Some (r, file\<lparr>file_entry := entry\<rparr>, fs)
   }"

definition fat_list_dir ::
  "'w fs_env \<Rightarrow> 'w fat_file_system option \<Rightarrow> fat_directory \<Rightarrow>
     ((fat_directory list \<times> fat_file list) \<times> 'w fat_file_system) option" where
  "fat_list_dir E fso dir = do {
     fs \<leftarrow> fso;
     ((files, directories), fs) \<leftarrow> list_directory E fs (dir_entry dir);
     Some ((map (\<lambda>d. \<lparr> dir_entry = located_entry d, dir_name = located_name d \<rparr>) directories,
            map (\<lambda>f. \<lparr> file_entry = located_entry f, file_name = located_name f,
                        file_location = located_location f \<rparr>) files), fs)
   }"

text \<open>The four updating operations return \<open>None\<close> of Rust when the file system is gone.\<close>

definition fat_dir_create_file ::
  "'w fs_env \<Rightarrow> 'w fat_file_system option \<Rightarrow> fat_directory \<Rightarrow> ustr \<Rightarrow>
     (fat_file option \<times> 'w fat_file_system option) option" where
  "fat_dir_create_file E fso dir name =
     (case fso of
        None \<Rightarrow> Some (None, None)
      | Some fs \<Rightarrow> do {
          (r, fs) \<leftarrow> create_file E fs (dir_entry dir) name;
          Some (map_option (\<lambda>f. \<lparr> file_entry = located_entry f, file_name = located_name f,
                                  file_location = located_location f \<rparr>) r, Some fs)
        })"

definition fat_dir_update ::
  "('w fs_env \<Rightarrow> 'w fat_file_system \<Rightarrow> directory_entry \<Rightarrow> ustr \<Rightarrow> (unit, 'w) fs_result) \<Rightarrow>
     'w fs_env \<Rightarrow> 'w fat_file_system option \<Rightarrow> fat_directory \<Rightarrow> ustr \<Rightarrow>
     (unit option \<times> 'w fat_file_system option) option" where
  "fat_dir_update operation E fso dir name =
     (case fso of
        None \<Rightarrow> Some (None, None)
      | Some fs \<Rightarrow> map_option (\<lambda>(r, fs). (r, Some fs)) (operation E fs (dir_entry dir) name))"

definition fat_dir_create_directory where
  "fat_dir_create_directory = fat_dir_update create_directory"

definition fat_dir_unlink_file where
  "fat_dir_unlink_file = fat_dir_update unlink_file"

definition fat_dir_remove_directory where
  "fat_dir_remove_directory = fat_dir_update remove_directory"

definition root_dir :: "'w fs_env \<Rightarrow> 'w fat_file_system \<Rightarrow> fat_directory option" where
  "root_dir E fs = map_option (\<lambda>entry. \<lparr> dir_entry = entry, dir_name = lit ''root'' \<rparr>) (root E fs)"

end
