(* ===== verification/Fat_Contents.thy ===== *)
theory Fat_Contents
  imports Fat_Files
begin

text \<open>
  What reading, writing and resizing do to the bytes of a file.  A file is its directory entry
  with the list of its clusters; its content is the data of the clusters cut to its size.  The
  lemmas follow the cluster loops of \<open>read_file\<close>, \<open>write_existing_file\<close> and
  \<open>zero_file_range\<close> along the chain, for any port that obeys \<open>device_laws\<close>: results that
  are returned are right also when the port fails now and then, and with a reliable port every
  call returns its result.
\<close>

definition file_data :: "('w \<Rightarrow> nat \<Rightarrow> bytes) \<Rightarrow> 'w fat_file_system \<Rightarrow> nat list \<Rightarrow> bytes" where
  "file_data view fs cs = concat (map (cluster_data view fs) cs)"

abbreviation data_clusters :: "nat list \<Rightarrow> bool" where
  "data_clusters cs \<equiv> (\<forall>c \<in> set cs. 2 \<le> c)"

lemma file_data_simps [simp]:
  "file_data view fs [] = []"
  "file_data view fs (c # cs) = cluster_data view fs c @ file_data view fs cs"
  "file_data view fs (xs @ ys) = file_data view fs xs @ file_data view fs ys"
  by (simp_all add: file_data_def)

lemma file_data_cong:
  "(\<forall>c \<in> set cs. cluster_data view fs' c = cluster_data view fs c) \<Longrightarrow> file_data view fs' cs = file_data view fs cs"
  by (induction cs) auto

lemma length_file_data:
  assumes "device_laws E view" "wf_volume fs"
  shows "data_clusters cs \<Longrightarrow> length (file_data view fs cs) = length cs * cluster_size fs"
  by (induction cs) (auto simp: length_cluster_data [OF assms])

text \<open>Writes stay inside the clusters they are aimed at.\<close>

definition frame :: "('w \<Rightarrow> nat \<Rightarrow> bytes) \<Rightarrow> 'w fat_file_system \<Rightarrow> 'w fat_file_system \<Rightarrow> nat set \<Rightarrow> bool" where
  "frame view fs fs' C \<longleftrightarrow> same_volume fs fs'
     \<and> (\<forall>t. outside_data fs t \<longrightarrow> view (port fs') t = view (port fs) t)
     \<and> (\<forall>d. d \<notin> C \<longrightarrow> cluster_data view fs' d = cluster_data view fs d)"

lemma frame_refl [simp]: "frame view fs fs C"
  by (simp add: frame_def)

lemma frame_same_disk: "same_disk view fs fs' \<Longrightarrow> frame view fs fs' C"
  by (auto simp: frame_def same_disk_def same_disk_cluster_data [unfolded same_disk_def])

lemma frame_trans:
  assumes "frame view a b C" "frame view b c C'"
  shows "frame view a c (C \<union> C')"
proof -
  have sv: "same_volume a b" using assms(1) by (simp add: frame_def)
  have "outside_data b = outside_data a"
    by (simp add: outside_data_def fun_eq_iff same_volume_geometry(2) [OF sv])
  with assms show ?thesis by (auto simp: frame_def intro: same_volume_trans)
qed

lemma frame_mono: "frame view a b C \<Longrightarrow> C \<subseteq> C' \<Longrightarrow> frame view a b C'"
  by (auto simp: frame_def)

lemma frame_write_cluster:
  assumes "device_laws E view" "wf_volume fs" "2 \<le> c" "length b = cluster_size fs"
    and "write_cluster E fs c b = Some (ok, fs')"
  shows "frame view fs fs' {c}" "ok \<Longrightarrow> cluster_data view fs' c = b"
  using write_cluster_disk [OF assms] by (auto simp: frame_def)

lemma frame_volume:
  assumes "frame view fs fs' C"
  shows "fat fs' = fat fs" "bs fs' = bs fs" "bs_32 fs' = bs_32 fs" "cluster_size fs' = cluster_size fs"
    "wf_volume fs' = wf_volume fs"
proof -
  have sv: "same_volume fs fs'" using assms by (simp add: frame_def)
  then show "fat fs' = fat fs" "bs fs' = bs fs" "bs_32 fs' = bs_32 fs" by (simp_all add: same_volume_def)
  show "cluster_size fs' = cluster_size fs" "wf_volume fs' = wf_volume fs"
    using same_volume_geometry [OF sv] by simp_all
qed

lemma frame_data: "frame view fs fs' C \<Longrightarrow> d \<notin> C \<Longrightarrow> cluster_data view fs' d = cluster_data view fs d"
  by (simp add: frame_def)

lemma read_cluster_cases [consumes 3]:
  assumes "device_laws E view" "wf_volume fs" "2 \<le> c"
  obtains (panic) "read_cluster E fs c = None" "\<not> reliable E"
  | (fail) fs1 where "read_cluster E fs c = Some (None, fs1)" "same_disk view fs fs1" "\<not> reliable E"
  | (ok) fs1 where "read_cluster E fs c = Some (Some (cluster_data view fs c), fs1)" "same_disk view fs fs1"
proof (cases "read_cluster E fs c")
  case None
  then have "\<not> reliable E" using read_cluster_reliable [of E c fs] assms(3) by auto
  with None show thesis by (rule panic)
next
  case (Some x)
  obtain r fs1 where x: "x = (r, fs1)" by fastforce
  have d: "same_disk view fs fs1" "r = None \<or> r = Some (cluster_data view fs c)"
    using read_cluster_disk [OF assms] Some x by auto
  show thesis
  proof (cases r)
    case None
    then show thesis using fail Some x d read_cluster_no_failure by metis
  next
    case (Some b)
    then show thesis using ok \<open>read_cluster E fs c = Some x\<close> x d by auto
  qed
qed

lemma write_cluster_cases [consumes 4]:
  assumes "device_laws E view" "wf_volume fs" "2 \<le> c" "length b = cluster_size fs"
  obtains (fail) fs1 where "write_cluster E fs c b = Some (False, fs1)" "frame view fs fs1 {c}" "\<not> reliable E"
  | (ok) fs1 where "write_cluster E fs c b = Some (True, fs1)" "frame view fs fs1 {c}" "cluster_data view fs1 c = b"
proof -
  obtain st fs1 where w: "write_cluster E fs c b = Some (st, fs1)"
    using assms(3)
    by (cases "env_write E (port fs) (data_sector fs c) (unat (sectors_per_cluster (bs fs))) b")
       (simp add: write_cluster_def get_sector_Some Let_def)
  note f = frame_write_cluster [OF assms w]
  show thesis
  proof (cases st)
    case True
    then show thesis using ok w f by simp
  next
    case False
    then have "\<not> reliable E" using write_cluster_reliable [of E c fs b] assms(3) w by auto
    then show thesis using fail w f False by simp
  qed
qed

section \<open>Reading\<close>

lemma read_file_loop_disk:
  assumes dev: "device_laws E view"
  shows "wf_volume fs \<Longrightarrow> fat_chain (fat fs) (c # cs) \<Longrightarrow> data_clusters (c # cs) \<Longrightarrow>
    length acc < n \<Longrightarrow> n \<le> length acc + Suc (length cs) * cluster_size fs \<Longrightarrow>
    (\<not> reliable E \<and> (read_file_loop E fs n acc c = None
        \<or> (\<exists>fs'. read_file_loop E fs n acc c = Some (None, fs') \<and> same_disk view fs fs')))
    \<or> (\<exists>fs'. read_file_loop E fs n acc c = Some (Some (acc @ take (n - length acc) (file_data view fs (c # cs))), fs')
          \<and> same_disk view fs fs')"
proof (induction cs arbitrary: c fs acc)
  case Nil
  have c: "2 \<le> c" using Nil.prems by simp
  have l: "length (cluster_data view fs c) = cluster_size fs"
    using length_cluster_data [OF dev Nil.prems(1) c] .
  from dev Nil.prems(1) c show ?case
  proof (cases rule: read_cluster_cases)
    case (ok fs1)
    then show ?thesis
      using Nil.prems l by (subst read_file_loop.simps, subst (2) read_file_loop.simps) (auto simp: Let_def min_def)
  qed (use Nil.prems(4) in \<open>auto simp: read_file_loop.simps\<close>)
next
  case (Cons d cs)
  have c: "2 \<le> c" using Cons.prems by simp
  let ?D = "cluster_data view fs c"
  have l: "length ?D = cluster_size fs" using length_cluster_data [OF dev Cons.prems(1) c] .
  from dev Cons.prems(1) c show ?case
  proof (cases rule: read_cluster_cases)
    case (ok fs1)
    note D = same_diskD [OF ok(2)] same_disk_cluster_data [OF ok(2)]
    show ?thesis
    proof (cases "n \<le> length acc + cluster_size fs")
      case True
      then have "min (cluster_size fs) (n - length acc) = n - length acc" by simp
      then have "read_file_loop E fs n acc c = Some (Some (acc @ take (n - length acc) ?D), fs1)"
        using ok Cons.prems(4) l by (subst read_file_loop.simps) (simp add: Let_def)
      then show ?thesis using True l ok(2) by simp
    next
      case False
      have sv: "same_volume fs fs1" using ok(2) by (simp add: same_disk_def)
      have s: "read_file_loop E fs n acc c = read_file_loop E fs1 n (acc @ ?D) d"
        using ok Cons.prems(2,4) l D False by (subst read_file_loop.simps) (simp add: Let_def min_def)
      have "file_data view fs1 (d # cs) = file_data view fs (d # cs)" using D by (intro file_data_cong) simp
      moreover have "length (acc @ ?D) < n" "n \<le> length (acc @ ?D) + Suc (length cs) * cluster_size fs1"
        using False l Cons.prems(5) same_volume_geometry(1) [OF sv] by simp_all
      moreover have "n - length acc - length ?D = n - (length acc + length ?D)" by simp
      ultimately show ?thesis
        using Cons.IH [of fs1 d "acc @ ?D"] Cons.prems(1-3) D same_volume_geometry(4) [OF sv]
          same_disk_trans [OF ok(2)] False l
        by (simp add: s) blast
    qed
  qed (use Cons.prems(4) in \<open>auto simp: read_file_loop.simps\<close>)
qed

section \<open>Writing\<close>

text \<open>One turn of the loop in \<open>write_existing_file\<close> on a readable and writable cluster.\<close>

lemma write_file_loop_step:
  assumes "w < length bytes" "read_cluster E fs c = Some (Some d, fs1)"
    and "write_cluster E fs1 c (overwrite d off (take k (drop w bytes))) = Some (True, fs2)"
    and "k = min (length bytes - w) (cluster_size fs1 - off)"
  shows "write_file_loop E fs bytes c off w =
    (if w + k = length bytes then Some (Some (w + k), fs2)
     else (case next_cluster (fat fs2) c of None \<Rightarrow> Some (None, fs2)
           | Some n \<Rightarrow> write_file_loop E fs2 bytes n 0 (w + k)))"
  using assms(1-3) by (subst write_file_loop.simps) (simp add: Let_def flip: assms(4))

definition write_outcome ::
  "'w fs_env \<Rightarrow> ('w \<Rightarrow> nat \<Rightarrow> bytes) \<Rightarrow> 'w fat_file_system \<Rightarrow> nat list \<Rightarrow> nat \<Rightarrow> bytes \<Rightarrow> nat \<Rightarrow>
     (nat, 'w) fs_result \<Rightarrow> bool" where
  "write_outcome E view fs cs off bytes w res \<longleftrightarrow>
     (\<not> reliable E \<and> (res = None \<or> (\<exists>r fs'. res = Some (r, fs') \<and> frame view fs fs' (set cs) \<and> r \<noteq> Some (length bytes))))
     \<or> (\<exists>fs'. res = Some (Some (length bytes), fs') \<and> frame view fs fs' (set cs)
          \<and> file_data view fs' cs = overwrite (file_data view fs cs) off (drop w bytes))"

lemma write_file_turn [consumes 5, case_names bad good]:
  assumes dev: "device_laws E view" and wf: "wf_volume fs" and c: "2 \<le> c"
    and w: "w < length bytes" and off: "off < cluster_size fs"
  defines "k \<equiv> min (length bytes - w) (cluster_size fs - off)"
  obtains (bad) "\<not> reliable E" "write_file_loop E fs bytes c off w = None \<or>
      (\<exists>r fs'. write_file_loop E fs bytes c off w = Some (r, fs') \<and> frame view fs fs' {c} \<and> r \<noteq> Some (length bytes))"
  | (good) fs' where "frame view fs fs' {c}"
      "cluster_data view fs' c = overwrite (cluster_data view fs c) off (take k (drop w bytes))"
      "write_file_loop E fs bytes c off w =
        (if w + k = length bytes then Some (Some (w + k), fs')
         else (case next_cluster (fat fs) c of None \<Rightarrow> Some (None, fs')
               | Some n \<Rightarrow> write_file_loop E fs' bytes n 0 (w + k)))"
proof -
  let ?D = "cluster_data view fs c"
  have l: "length ?D = cluster_size fs" using length_cluster_data [OF dev wf c] .
  have kb: "off + k \<le> cluster_size fs" "k \<le> length bytes - w" using off by (auto simp: k_def)
  from dev wf c show thesis
  proof (cases rule: read_cluster_cases)
    case (ok fs1)
    have f1: "frame view fs fs1 {c}" using ok(2) by (rule frame_same_disk)
    note v1 = frame_volume [OF f1]
    let ?b = "overwrite ?D off (take k (drop w bytes))"
    have k: "k = min (length bytes - w) (cluster_size fs1 - off)" by (simp add: v1 k_def)
    have "length ?b = cluster_size fs1" using l kb by (simp add: v1)
    from dev v1(5) [THEN iffD2, OF wf] c this show ?thesis
    proof (cases rule: write_cluster_cases)
      case (fail fs2)
      then have "write_file_loop E fs bytes c off w = Some (if w = 0 then None else Some w, fs2)"
        using ok(1) w by (subst write_file_loop.simps) (simp add: Let_def flip: k)
      then show ?thesis
        using fail(2,3) frame_trans [OF f1 fail(2)] w by (intro bad) auto
    next
      case wok: (ok fs2)
      have "fat fs2 = fat fs" using frame_volume(1) [OF wok(2)] v1(1) by simp
      then show ?thesis
        using write_file_loop_step [OF w ok(1) wok(1) k] wok(3) frame_trans [OF f1 wok(2)]
        by (intro good [of fs2]) simp_all
    qed
  qed (use w in \<open>auto simp: write_file_loop.simps frame_same_disk intro!: bad\<close>)
qed

lemma write_file_loop_disk:
  assumes dev: "device_laws E view"
  shows "wf_volume fs \<Longrightarrow> fat_chain (fat fs) (c # cs) \<Longrightarrow> data_clusters (c # cs) \<Longrightarrow>
    w < length bytes \<Longrightarrow> off < cluster_size fs \<Longrightarrow>
    off + (length bytes - w) \<le> Suc (length cs) * cluster_size fs \<Longrightarrow>
    write_outcome E view fs (c # cs) off bytes w (write_file_loop E fs bytes c off w)"
proof (induction cs arbitrary: c fs off w)
  case Nil
  have c: "2 \<le> c" using Nil.prems by simp
  from dev Nil.prems(1) c Nil.prems(4,5) show ?case
  proof (cases rule: write_file_turn)
    case (good fs')
    then show ?thesis using Nil.prems(4,6) by (simp add: write_outcome_def)
  qed (auto simp: write_outcome_def)
next
  case (Cons d cs)
  have c: "2 \<le> c" and dc: "data_clusters (d # cs)" using Cons.prems by simp_all
  let ?D = "cluster_data view fs c"
  define k where "k = min (length bytes - w) (cluster_size fs - off)"
  have l: "length ?D = cluster_size fs" using length_cluster_data [OF dev Cons.prems(1) c] .
  from dev Cons.prems(1) c Cons.prems(4,5) show ?case
  proof (cases rule: write_file_turn)
    case (good fs1)
    note good = good [folded k_def]
    note v = frame_volume [OF good(1)]
    have cn: "c \<notin> set (d # cs)" using fat_chain_distinct [OF Cons.prems(2)] by simp
    have rest: "file_data view fs1 (d # cs) = file_data view fs (d # cs)"
      by (rule file_data_cong) (use cn in \<open>auto intro!: frame_data [OF good(1)]\<close>)
    show ?thesis
    proof (cases "w + k = length bytes")
      case True
      then have "k = length bytes - w" "off + k \<le> cluster_size fs" using Cons.prems(4,5) by (auto simp: k_def)
      then have "overwrite (?D @ file_data view fs (d # cs)) off (drop w bytes)
          = overwrite ?D off (take k (drop w bytes)) @ file_data view fs (d # cs)"
        using l by (simp add: overwrite_append_left)
      then show ?thesis
        using True good rest frame_mono [OF good(1), of "set (c # d # cs)"] by (simp add: write_outcome_def)
    next
      case False
      have k: "off + k = cluster_size fs" "w + k < length bytes"
        using False Cons.prems(4,5) by (auto simp: k_def min_def split: if_splits)
      have s: "write_file_loop E fs bytes c off w = write_file_loop E fs1 bytes d 0 (w + k)"
        using good(3) False Cons.prems(2) by simp
      have "write_outcome E view fs1 (d # cs) 0 bytes (w + k) (write_file_loop E fs1 bytes d 0 (w + k))"
        by (rule Cons.IH) (use Cons.prems dc v k in auto)
      then show ?thesis
      proof (unfold write_outcome_def s, elim disjE conjE exE, goal_cases)
        case 1
        then show ?case by simp
      next
        case (2 r fs')
        then show ?case using frame_trans [OF good(1), of fs' "set (d # cs)"] by (auto simp: insert_commute)
      next
        case (3 fs')
        have "cluster_data view fs' c = cluster_data view fs1 c" using frame_data [OF 3(3)] cn by simp
        moreover have "overwrite (?D @ file_data view fs (d # cs)) off (drop w bytes) =
            overwrite ?D off (take k (drop w bytes)) @ overwrite (file_data view fs (d # cs)) 0 (drop k (drop w bytes))"
          by (rule overwrite_split) (use k l in simp_all)
        ultimately show ?case
          using 3 good(2) rest frame_trans [OF good(1) 3(3)] by (simp add: add.commute insert_commute)
      qed
    qed
  qed (auto simp: write_outcome_def intro: frame_mono)
qed

lemma skip_clusters_chain:
  assumes "0 < k"
  shows "fat_chain table (c # cs) \<Longrightarrow> skip_clusters table k c off =
    Some (if off div k \<le> length cs then Some ((c # cs) ! (off div k), off mod k) else None)"
proof (induction cs arbitrary: c off)
  case Nil
  then show ?case
    using assms by (subst skip_clusters.simps) (auto simp: div_eq_0_iff not_le)
next
  case (Cons d cs)
  show ?case
  proof (cases "k \<le> off")
    case True
    then have "off div k = Suc ((off - k) div k)" "off mod k = (off - k) mod k"
      using assms by (simp_all add: le_div_geq le_mod_geq)
    then show ?thesis using True Cons by (subst skip_clusters.simps) simp
  qed (use Cons in \<open>subst skip_clusters.simps, simp\<close>)
qed

section \<open>Files\<close>

text \<open>A regular file whose chain has exactly the clusters its size needs.\<close>

definition file_ok :: "'w fat_file_system \<Rightarrow> directory_entry \<Rightarrow> nat list \<Rightarrow> bool" where
  "file_ok fs e cs \<longleftrightarrow> de_attributes e = 32 \<and> wf_dirent e \<and> data_clusters cs
     \<and> length cs = (unat (de_size e) + cluster_size fs - 1) div cluster_size fs
     \<and> (if cs = [] then get_cluster e = 0 else get_cluster e = hd cs \<and> fat_chain (fat fs) cs
          \<and> fat fs ! last cs \<noteq> 0)"

definition file_contents ::
  "('w \<Rightarrow> nat \<Rightarrow> bytes) \<Rightarrow> 'w fat_file_system \<Rightarrow> directory_entry \<Rightarrow> nat list \<Rightarrow> bytes" where
  "file_contents view fs e cs = take (unat (de_size e)) (file_data view fs cs)"

lemma ceil_div_bounds:
  fixes s k :: nat
  assumes "0 < k"
  shows "s \<le> (s + k - 1) div k * k" "0 < s \<Longrightarrow> (s + k - 1) div k * k < s + k" "(s + k - 1) div k = 0 \<longleftrightarrow> s = 0"
proof -
  define q where "q = (s + k - 1) div k"
  have "q * k + (s + k - 1) mod k = s + k - 1" by (simp add: q_def)
  moreover have "(s + k - 1) mod k < k" using assms by simp
  ultimately show "s \<le> q * k" "0 < s \<Longrightarrow> q * k < s + k" by linarith+
  show "q = 0 \<longleftrightarrow> s = 0" using assms by (auto simp: q_def div_eq_0_iff)
qed

lemma file_okD:
  assumes "file_ok fs e cs"
  shows "de_attributes e = 32" "wf_dirent e" "data_clusters cs"
    "cs \<noteq> [] \<Longrightarrow> get_cluster e = hd cs \<and> fat_chain (fat fs) cs \<and> fat fs ! last cs \<noteq> 0"
  using assms by (auto simp: file_ok_def)

lemma file_ok_size:
  assumes "file_ok fs e cs" "wf_volume fs"
  shows "unat (de_size e) \<le> length cs * cluster_size fs" "cs = [] \<longleftrightarrow> de_size e = 0"
proof -
  have k: "0 < cluster_size fs" using cluster_size_wf [OF assms(2)] by simp
  then show "unat (de_size e) \<le> length cs * cluster_size fs"
    using assms(1) ceil_div_bounds(1) [OF k] by (simp add: file_ok_def)
  have "length cs = 0 \<longleftrightarrow> unat (de_size e) = 0"
    using assms(1) ceil_div_bounds(3) [OF k] by (simp add: file_ok_def)
  then show "cs = [] \<longleftrightarrow> de_size e = 0" by (simp add: unat_eq_0)
qed

lemma length_file_contents:
  assumes "device_laws E view" "file_ok fs e cs" "wf_volume fs"
  shows "length (file_contents view fs e cs) = unat (de_size e)"
  using file_ok_size(1) [OF assms(2,3)] length_file_data [OF assms(1,3)] assms(2)
  by (simp add: file_contents_def file_ok_def)

lemma file_ok_frame:
  assumes "same_volume fs fs'"
  shows "file_ok fs' e cs = file_ok fs e cs"
  using same_volume_geometry(1) [OF assms] same_volumeD [OF assms] by (simp add: file_ok_def)

lemma read_file_disk:
  assumes "device_laws E view" "wf_volume fs" "file_ok fs e cs"
  shows "(\<not> reliable E \<and> (read_file E fs e = None \<or> (\<exists>fs'. read_file E fs e = Some (None, fs') \<and> same_disk view fs fs')))
    \<or> (\<exists>fs'. read_file E fs e = Some (Some (file_contents view fs e cs), fs') \<and> same_disk view fs fs')"
proof (cases cs)
  case Nil
  then have "de_size e = 0" using file_ok_size(2) [OF assms(3,2)] by simp
  then show ?thesis using assms(3) by (simp add: read_file_def file_ok_def file_contents_def)
next
  case (Cons c r)
  then have s: "de_size e \<noteq> 0" using file_ok_size(2) [OF assms(3,2)] by simp
  then have "0 < unat (de_size e)" by (simp add: unat_gt_0)
  have k: "get_cluster e = c" "2 \<le> c" "fat_chain (fat fs) (c # r)" "data_clusters (c # r)" "de_attributes e = 32"
    using assms(3) Cons by (auto simp: file_ok_def)
  have "\<not> reliable E" if "\<not> env_alloc E (port fs) (unat (de_size e))" using that by (auto simp: reliable_def)
  moreover have "read_file E fs e =
      (if env_alloc E (port fs) (unat (de_size e)) then read_file_loop E fs (unat (de_size e)) [] c else Some (None, fs))"
    using k s by (simp add: read_file_def unat_eq_0)
  ultimately show ?thesis
    using read_file_loop_disk [OF assms(1,2) k(3,4), of "[]" "unat (de_size e)"] \<open>0 < unat _\<close>
      file_ok_size(1) [OF assms(3,2)] Cons
    by (auto simp: file_contents_def)
qed

text \<open>Seeking to an offset inside a chain and writing from there.\<close>

lemma write_at_disk:
  assumes dev: "device_laws E view" and wf: "wf_volume fs" and ch: "fat_chain (fat fs) cs" "data_clusters cs"
    and b: "bytes \<noteq> []" "off + length bytes \<le> length cs * cluster_size fs"
  obtains x y m where "skip_clusters (fat fs) (cluster_size fs) (hd cs) off = Some (Some (x, m))"
    "fat_chain (fat fs) (x # y)" "write_outcome E view fs cs off bytes 0 (write_file_loop E fs bytes x m 0)"
proof -
  let ?k = "cluster_size fs"
  have k: "0 < ?k" using cluster_size_wf [OF wf] by simp
  obtain c r where cs: "cs = c # r" using ch by (cases cs) auto
  define q m where "q = off div ?k" and "m = off mod ?k"
  have om: "off = q * ?k + m" "m < ?k" using k by (simp_all add: q_def m_def)
  have "off < length cs * ?k" using b by (cases bytes) auto
  then have q: "q < length cs" using k by (simp add: q_def less_mult_imp_div_less)
  obtain x y where xy: "drop q cs = x # y" using q by (cases "drop q cs") auto
  then have x: "cs ! q = x" by (metis hd_drop_conv_nth list.sel(1) q)
  have split: "cs = take q cs @ x # y" using xy append_take_drop_id [of q cs] by simp
  have chx: "fat_chain (fat fs) (x # y)" using ch(1) split fat_chain_append by metis
  moreover have "data_clusters (x # y)" using ch(2) xy by (metis in_set_dropD)
  moreover have "m + length bytes \<le> Suc (length y) * ?k"
  proof -
    have "length cs = q + Suc (length y)" using q xy by (metis length_drop le_add_diff_inverse less_imp_le length_Cons)
    then have "length cs * ?k = q * ?k + Suc (length y) * ?k" by (simp add: distrib_right)
    then show ?thesis using b(2) om(1) by simp
  qed
  ultimately have w: "write_outcome E view fs (x # y) m bytes 0 (write_file_loop E fs bytes x m 0)"
    using write_file_loop_disk [OF dev wf] b(1) om(2) by simp
  have sk: "skip_clusters (fat fs) ?k (hd cs) off = Some (Some (x, m))"
    using skip_clusters_chain [OF k, of "fat fs" c r off] ch(1) cs q x by (simp add: q_def m_def)
  have sub: "set (x # y) \<subseteq> set cs" using xy by (metis set_drop_subset)
  have len: "length (file_data view fs (take q cs)) = q * ?k"
    using length_file_data [OF dev wf, of "take q cs"] ch(2) q by (metis in_set_takeD length_take min.absorb4)
  from w have "write_outcome E view fs cs off bytes 0 (write_file_loop E fs bytes x m 0)"
  proof (unfold write_outcome_def, elim disjE conjE exE, goal_cases)
    case (3 fs')
    have "set (take q cs) \<inter> set (x # y) = {}"
      using fat_chain_distinct [OF ch(1)] split by (metis distinct_append)
    then have "file_data view fs' (take q cs) = file_data view fs (take q cs)"
      by (intro file_data_cong) (use frame_data [OF 3(3)] in blast)
    moreover have "overwrite (file_data view fs (take q cs) @ file_data view fs (x # y)) off bytes =
        file_data view fs (take q cs) @ overwrite (file_data view fs (x # y)) m bytes"
      using overwrite_append_right [of "file_data view fs (take q cs)" _ m bytes] len om(1) by simp
    ultimately have "file_data view fs' cs = overwrite (file_data view fs cs) off (drop 0 bytes)"
      using 3(4) split by (metis drop_0 file_data_simps(3))
    then show ?case using 3(2) frame_mono [OF 3(3) sub] by blast
  qed (use frame_mono [OF _ sub] in blast)+
  with sk chx show thesis by (rule that)
qed

lemma write_existing_file_disk:
  assumes dev: "device_laws E view" and wf: "wf_volume fs" and ok: "file_ok fs e cs"
    and b: "bytes \<noteq> []" "off + length bytes \<le> unat (de_size e)"
  shows "write_outcome E view fs cs off bytes 0 (write_existing_file E fs e off bytes)"
proof -
  have size: "unat (de_size e) \<le> length cs * cluster_size fs" using file_ok_size(1) [OF ok wf] .
  with b have ne: "cs \<noteq> []" by (cases cs) auto
  then have ch: "fat_chain (fat fs) cs" "get_cluster e = hd cs" "2 \<le> hd cs" "data_clusters cs" "de_attributes e = 32"
    using ok by (auto simp: file_ok_def)
  have "unat (de_size e) < 2 ^ LENGTH(32)" by (rule unsigned_less)
  then have "unat (de_size e) < usize_bound" by (simp add: usize_bound_def)
  then have ca: "checked_add off (length bytes) = Some (off + length bytes)" using b(2) by simp
  have "off + length bytes \<le> length cs * cluster_size fs" using b(2) size by simp
  from write_at_disk [OF dev wf ch(1,4) b(1) this] obtain x m
    where "skip_clusters (fat fs) (cluster_size fs) (hd cs) off = Some (Some (x, m))"
      "write_outcome E view fs cs off bytes 0 (write_file_loop E fs bytes x m 0)" by metis
  then show ?thesis
    unfolding write_existing_file_def ca using ch b by simp
qed

text \<open>Zeroing is writing zeros, except for what is reported when a write fails half way.\<close>

definition zero_result :: "nat \<Rightarrow> (nat, 'w) fs_result \<Rightarrow> (unit, 'w) fs_result" where
  "zero_result sz = map_option (\<lambda>(r, fs). (if r = Some sz then Some () else None, fs))"

lemma write_cluster_fat: "write_cluster E fs c b = Some (ok, fs') \<Longrightarrow> fat fs' = fat fs"
  by (auto simp: write_cluster_def Let_def split: bind_splits prod.splits)

lemma zero_file_loop_write:
  "fat_chain (fat fs) (c # cs) \<Longrightarrow> z < sz \<Longrightarrow>
     zero_file_loop E fs sz c off z = zero_result sz (write_file_loop E fs (replicate sz 0) c off z)"
proof (induction cs arbitrary: fs c off z)
  case Nil
  then show ?case
    by (subst zero_file_loop.simps, subst write_file_loop.simps)
       (auto simp: zero_result_def Let_def min_def split: bind_splits option.splits dest!: write_cluster_fat read_cluster_fat)
next
  case (Cons d cs)
  show ?case
  proof (cases "read_cluster E fs c")
    case (Some rf)
    obtain r fs1 where rf: "rf = (r, fs1)" by fastforce
    show ?thesis
    proof (cases r)
      case (Some D)
      let ?k = "min (sz - z) (cluster_size fs1 - off)"
      have rc: "read_cluster E fs c = Some (Some D, fs1)" using \<open>read_cluster E fs c = Some rf\<close> rf Some by simp
      have t: "take ?k (drop z (replicate sz (0 :: u8))) = replicate ?k 0" by (simp add: min_def)
      show ?thesis
      proof (cases "write_cluster E fs1 c (overwrite D off (replicate ?k 0))")
        case None
        then show ?thesis
          using rc Cons.prems(2) t
          by (subst zero_file_loop.simps, subst write_file_loop.simps) (simp add: zero_result_def Let_def)
      next
        case (Some wf)
        obtain st fs2 where w: "write_cluster E fs1 c (overwrite D off (replicate ?k 0)) = Some (st, fs2)"
          using Some by (cases wf) auto
        have ft: "fat fs2 = fat fs" using read_cluster_fat [OF rc] write_cluster_fat [OF w] by simp
        have "zero_file_loop E fs2 sz d 0 (z + ?k) = zero_result sz (write_file_loop E fs2 (replicate sz 0) d 0 (z + ?k))"
          if "z + ?k \<noteq> sz" by (rule Cons.IH) (use Cons.prems ft that in auto)
        then show ?thesis
          using rc w t Cons.prems ft
          by (subst zero_file_loop.simps, subst write_file_loop.simps) (simp add: zero_result_def Let_def)
      qed
    qed (use Cons.prems rf Some in \<open>subst zero_file_loop.simps, subst write_file_loop.simps, simp add: zero_result_def\<close>)
  qed (use Cons.prems in \<open>subst zero_file_loop.simps, subst write_file_loop.simps, simp add: zero_result_def\<close>)
qed

lemma zero_file_range_disk:
  assumes "device_laws E view" "wf_volume fs" "reliable E" "fat_chain (fat fs) cs" "data_clusters cs"
    and "0 < n" "off + n \<le> length cs * cluster_size fs"
  obtains fs' where "zero_file_range E fs (hd cs) off n = Some (Some (), fs')" "frame view fs fs' (set cs)"
    "file_data view fs' cs = overwrite (file_data view fs cs) off (replicate n 0)"
proof -
  let ?z = "replicate n (0 :: u8)"
  have "?z \<noteq> []" "off + length ?z \<le> length cs * cluster_size fs" using assms(6,7) by simp_all
  from write_at_disk [OF assms(1,2,4,5) this] obtain x y m where
    s: "skip_clusters (fat fs) (cluster_size fs) (hd cs) off = Some (Some (x, m))"
      "fat_chain (fat fs) (x # y)"
      "write_outcome E view fs cs off ?z 0 (write_file_loop E fs ?z x m 0)" by metis
  from s(3) assms(3) obtain fs' where w: "write_file_loop E fs ?z x m 0 = Some (Some n, fs')"
      "frame view fs fs' (set cs)" "file_data view fs' cs = overwrite (file_data view fs cs) off ?z"
    by (auto simp: write_outcome_def)
  have "zero_file_range E fs (hd cs) off n = Some (Some (), fs')"
    using assms(6) s(1) w(1) zero_file_loop_write [OF s(2) assms(6), of E m]
    by (simp add: zero_file_range_def zero_result_def)
  then show thesis using w that by blast
qed

section \<open>Growing\<close>

lemma fat_allocate_chain_eq:
  "small_table (fat fs) \<Longrightarrow> 0 < n \<Longrightarrow> n \<le> length (free_clusters (fat fs)) \<Longrightarrow>
     fat_allocate_chain fs n =
       (Some (hd (free_clusters (fat fs))), fs\<lparr>fat := fat_link (fat fs) (take n (free_clusters (fat fs)))\<rparr>)"
  by (simp add: fat_allocate_chain_def allocate_chain_eq)

definition grown :: "fat_buffer \<Rightarrow> nat list \<Rightarrow> nat list \<Rightarrow> fat_buffer \<Rightarrow> bool" where
  "grown table cs ns t \<longleftrightarrow> length t = length table \<and> fat_chain t (cs @ ns) \<and> t ! last (cs @ ns) \<noteq> 0
     \<and> (\<forall>x \<in> set ns. 2 \<le> x \<and> x < length table \<and> table ! x = 0)
     \<and> (\<forall>x. x \<notin> set (cs @ ns) \<longrightarrow> t ! x = table ! x)"

lemma fat_link_last: "ns \<noteq> [] \<Longrightarrow> distinct ns \<Longrightarrow> last ns < length table \<Longrightarrow> fat_link table ns ! last ns = FAT_CLUSTER_EOF"
proof (induction table ns rule: fat_link.induct)
  case (3 table c d cs)
  have "c \<noteq> last (d # cs)" using 3(3) last_in_set [of "d # cs"] by auto
  then have "fat_link table (c # d # cs) ! last (c # d # cs) = fat_link table (d # cs) ! last (d # cs)"
    by (simp del: fat_link.simps(2))
  then show ?case using 3 by simp
qed auto

lemma grown_link:
  assumes "small_table table" "0 < n" "n \<le> length (free_clusters table)"
    and "cs = [] \<or> fat_chain table cs \<and> table ! last cs \<noteq> 0"
  defines "ns \<equiv> take n (free_clusters table)"
  shows "grown table cs ns (if cs = [] then fat_link table ns else (fat_link table ns)[last cs := of_nat (hd ns)])"
proof -
  have ns: "ns \<noteq> []" "distinct ns" using assms(2,3) by (auto simp: ns_def)
  have free: "\<forall>x \<in> set ns. 2 \<le> x \<and> x < length table \<and> table ! x = 0"
    unfolding ns_def using free_clusters_set by (metis in_set_takeD)
  have last: "fat_link table ns ! last ns \<noteq> 0"
    using fat_link_last [OF ns] free last_in_set [OF ns(1)] by (auto simp: FAT_CLUSTER_EOF_def)
  show ?thesis
  proof (cases "cs = []")
    case True
    then show ?thesis
      using fat_link_chain [OF ns _ assms(1)] free last by (auto simp: grown_def fat_link_other)
  next
    case False
    then have ch: "fat_chain table cs" "table ! last cs \<noteq> 0" using assms(4) by auto
    have ln: "last cs \<notin> set ns" using ch(2) free by auto
    then have "last ns \<noteq> last cs" using last_in_set [OF ns(1)] by metis
    then have "(fat_link table ns)[last cs := of_nat (hd ns)] ! last (cs @ ns) \<noteq> 0" using last ns(1) by simp
    moreover have "(fat_link table ns)[last cs := of_nat (hd ns)] ! x = table ! x" if "x \<notin> set (cs @ ns)" for x
    proof -
      have "last cs \<noteq> x" using that last_in_set [OF False] by auto
      then show ?thesis using that fat_link_other [of x ns table] by simp
    qed
    ultimately show ?thesis
      using fat_chain_extend [OF ch assms(1) ns free] free False by (auto simp: grown_def)
  qed
qed

lemma grow_allocate_ok:
  assumes wf: "wf_volume fs" and ok: "file_ok fs e cs" and n: "0 < n" "n \<le> length (free_clusters (fat fs))"
  obtains ns t start where
    "grow_allocate fs e (length cs) (length cs + n) =
       Inr (Some start, if cs = [] then set_cluster e (hd ns) else e, fs\<lparr>fat := t\<rparr>)"
    "grown (fat fs) cs ns t" "length ns = n" "start = hd ns"
proof -
  define ns where "ns = take n (free_clusters (fat fs))"
  have small: "small_table (fat fs)" using wf by (simp add: wf_volume_def)
  have hd: "hd ns = hd (free_clusters (fat fs))" "length ns = n" using n by (auto simp: ns_def hd_take)
  have ch: "cs = [] \<or> fat_chain (fat fs) cs \<and> fat fs ! last cs \<noteq> 0" using ok by (auto simp: file_ok_def)
  note g = grown_link [OF small n ch, folded ns_def]
  have a: "fat_allocate_chain fs n = (Some (hd ns), fs\<lparr>fat := fat_link (fat fs) ns\<rparr>)"
    using fat_allocate_chain_eq [OF small n] hd by (simp add: ns_def)
  show thesis
  proof (cases "cs = []")
    case True
    have "grow_allocate fs e (length cs) (length cs + n) =
        Inr (Some (hd ns), set_cluster e (hd ns), fs\<lparr>fat := fat_link (fat fs) ns\<rparr>)"
      using n(1) a True by (simp add: grow_allocate_def)
    with True show thesis by (intro that [of "hd ns" ns]) (use g True hd in simp_all)
  next
    case False
    let ?t = "fat_link (fat fs) ns"
    have c: "fat_chain (fat fs) cs" "get_cluster e = hd cs" using ok False by (auto simp: file_ok_def)
    have "\<forall>x \<in> set cs. ?t ! x = fat fs ! x"
    proof
      fix x assume "x \<in> set cs"
      then have "fat fs ! x \<noteq> 0" using fat_chain_used c(1) ch False by metis
      then have "x \<notin> set ns" using free_clusters_set unfolding ns_def by (metis in_set_takeD)
      then show "?t ! x = fat fs ! x" by (rule fat_link_other)
    qed
    then have "fat_chain ?t cs" using fat_chain_cong [OF c(1), of ?t] by simp
    moreover obtain d r where dr: "cs = d # r" using False by (cases cs) auto
    ultimately have "cluster_at ?t (hd cs) (length cs - 1) = Some (last cs)"
      using cluster_at_chain [of ?t d r "length r"] by (simp add: last_conv_nth nth_Cons')
    moreover have "last cs < length (fat fs)" using fat_chain_range [OF c(1)] False by simp
    ultimately have "grow_allocate fs e (length cs) (length cs + n) =
        Inr (Some (hd ns), e, fs\<lparr>fat := ?t[last cs := of_nat (hd ns)]\<rparr>)"
      using n(1) a False c(2)
      by (simp add: grow_allocate_def fat_set_entry_def fat_set_def split: unit.split)
    with False show thesis by (intro that [of "hd ns" ns]) (use g False hd in simp_all)
  qed
qed

lemma fat_update_volume [simp]:
  "cluster_data view (fs\<lparr>fat := t\<rparr>) = cluster_data view fs"
  "cluster_size (fs\<lparr>fat := t\<rparr>) = cluster_size fs"
  "valid_location (fs\<lparr>fat := t\<rparr>) l = valid_location fs l"
  "length t = length (fat fs) \<Longrightarrow> wf_volume (fs\<lparr>fat := t\<rparr>) = wf_volume fs"
  by (simp_all add: cluster_data_def data_sector_def cluster_size_def valid_location_def wf_volume_def
      sectors_per_fat_def fun_eq_iff)

lemma fat_update_data [simp]: "file_data view (fs\<lparr>fat := t\<rparr>) cs = file_data view fs cs"
  by (rule file_data_cong) simp

lemma get_cluster_size_update [simp]: "get_cluster (e\<lparr>de_size := s\<rparr>) = get_cluster e"
  by (simp add: get_cluster_def)

lemma grow_allocate_any:
  assumes wf: "wf_volume fs" and ok: "file_ok fs e cs" and m: "length cs \<le> m" "0 < m"
    and free: "m - length cs \<le> length (free_clusters (fat fs))"
  obtains ns t start e' where
    "grow_allocate fs e (length cs) m = Inr (start, e', fs\<lparr>fat := t\<rparr>)"
    "grown (fat fs) cs ns t" "length cs + length ns = m" "get_cluster e' = hd (cs @ ns)"
    "de_attributes e' = de_attributes e" "wf_dirent e'" "de_size e' = de_size e"
proof (cases "length cs = m")
  case True
  then have "cs \<noteq> []" using m by auto
  then have "grown (fat fs) cs [] (fat fs)" "get_cluster e = hd cs" "wf_dirent e"
    using ok by (auto simp: file_ok_def grown_def)
  with True show thesis by (intro that [of None e "fat fs" "[]"]) (simp_all add: grow_allocate_def)
next
  case False
  then have n: "0 < m - length cs" "m = length cs + (m - length cs)" using m by auto
  obtain ns t start where g: "grow_allocate fs e (length cs) m =
       Inr (Some start, if cs = [] then set_cluster e (hd ns) else e, fs\<lparr>fat := t\<rparr>)"
    "grown (fat fs) cs ns t" "length ns = m - length cs"
    using grow_allocate_ok [OF wf ok n(1) free] n(2) by metis
  have "ns \<noteq> []" using g(3) n(1) by auto
  then have "hd ns < length (fat fs)" using g(2) by (cases ns) (auto simp: grown_def)
  then have "hd ns < 2 ^ 32" using wf by (simp add: wf_volume_def)
  then have "get_cluster (if cs = [] then set_cluster e (hd ns) else e) = hd (cs @ ns)"
    using ok by (cases cs) (auto simp: file_ok_def)
  then show thesis
    using g n ok by (intro that [OF g(1,2)]) (auto simp: file_ok_def set_cluster_def wf_dirent_def)
qed

lemma overwrite_zeros_contents:
  assumes "old \<le> length d" "new \<le> length d + length d'" "old < new"
  shows "take new (overwrite (d @ d') old (replicate (new - old) 0)) = take old d @ replicate (new - old) (0 :: u8)"
  using assms by (simp add: overwrite_def min_def)

lemma grow_existing_file_ok:
  assumes dev: "device_laws E view" and wf: "wf_volume fs" and rel: "reliable E" and ok: "file_ok fs e cs"
    and loc: "valid_location fs l" "loc_cluster l \<notin> set cs" "loc_cluster l < length (fat fs)" "fat fs ! loc_cluster l \<noteq> 0"
    and new: "unat (de_size e) < new" "new < 2 ^ 32"
    and free: "(new + cluster_size fs - 1) div cluster_size fs - length cs \<le> length (free_clusters (fat fs))"
  obtains ns e' fs' where
    "grow_existing_file E fs e l (unat (de_size e)) new = Some (Some (), e', fs')"
    "file_ok fs' e' (cs @ ns)" "unat (de_size e') = new" "entry_at view fs' l = e'"
    "file_contents view fs' e' (cs @ ns) = file_contents view fs e cs @ replicate (new - unat (de_size e)) 0"
    "\<forall>d. d \<notin> set (cs @ ns) \<and> d \<noteq> loc_cluster l \<longrightarrow> cluster_data view fs' d = cluster_data view fs d"
    "\<forall>x. x \<notin> set (cs @ ns) \<longrightarrow> fat fs' ! x = fat fs ! x" "wf_volume fs'"
proof -
  let ?k = "cluster_size fs" and ?old = "unat (de_size e)"
  define m where "m = (new + ?k - 1) div ?k"
  have k: "0 < ?k" using cluster_size_wf [OF wf] by simp
  have lc: "length cs = (?old + ?k - 1) div ?k" using ok by (simp add: file_ok_def)
  have m: "length cs \<le> m" "0 < m" "new \<le> m * ?k"
  proof -
    show "length cs \<le> m" unfolding lc m_def by (rule div_le_mono) (use new(1) in simp)
    have "m \<noteq> 0" using new(1) ceil_div_bounds(3) [OF k, of new] unfolding m_def by linarith
    then show "0 < m" by simp
    show "new \<le> m * ?k" unfolding m_def by (rule ceil_div_bounds(1) [OF k])
  qed
  obtain ns t start e1 where g: "grow_allocate fs e (length cs) m = Inr (start, e1, fs\<lparr>fat := t\<rparr>)"
    "grown (fat fs) cs ns t" "length cs + length ns = m" "get_cluster e1 = hd (cs @ ns)"
    "de_attributes e1 = de_attributes e" "wf_dirent e1" "de_size e1 = de_size e"
    using grow_allocate_any [OF wf ok m(1,2) free [folded m_def]] by metis
  note G = g(2) [unfolded grown_def]
  let ?fs = "fs\<lparr>fat := t\<rparr>"
  have wf1: "wf_volume ?fs" using wf G by simp
  have dc: "data_clusters cs" "data_clusters (cs @ ns)" using ok G by (auto simp: file_ok_def)
  have "0 < new - ?old" "?old + (new - ?old) \<le> length (cs @ ns) * cluster_size ?fs"
    using new(1) m(3) g(3) by auto
  from zero_file_range_disk [OF dev wf1 rel _ dc(2) this] G obtain fs2 where
    z: "zero_file_range E ?fs (hd (cs @ ns)) ?old (new - ?old) = Some (Some (), fs2)"
      "frame view ?fs fs2 (set (cs @ ns))"
      "file_data view fs2 (cs @ ns) = overwrite (file_data view fs (cs @ ns)) ?old (replicate (new - ?old) 0)"
    by auto
  note v2 = frame_volume [OF z(2)]
  obtain fs3 where p: "persist_fat E fs2 = (Some (), fs3)" using persist_fat_reliable [OF rel] by blast
  have wf2: "wf_volume fs2" using v2(5) wf1 by simp
  note d3 = persist_fat_disk [OF dev wf2 p]
  let ?e = "e1\<lparr>de_size := of_nat new\<rparr>"
  have wf3: "wf_volume fs3" and cs3: "cluster_size fs3 = ?k"
    using same_volume_geometry [OF d3(1)] wf2 v2 by simp_all
  have loc3: "valid_location fs3 l" using loc(1) cs3 by (simp add: valid_location_def)
  have we: "wf_dirent ?e" using g(6) by (simp add: wf_dirent_def)
  obtain fs4 where q: "persist_directory_entry E fs3 l ?e = Some (Some (), fs4)" "same_volume fs3 fs4"
    "entry_at view fs4 l = ?e" "\<forall>d. d \<noteq> loc_cluster l \<longrightarrow> cluster_data view fs4 d = cluster_data view fs3 d"
    using persist_directory_entry_ok [OF dev wf3 rel loc3 we] by metis
  have ft: "fat fs4 = t" "cluster_size fs4 = ?k"
    using same_volumeD [OF q(2)] same_volumeD [OF d3(1)] v2(1) same_volume_geometry(1) [OF q(2)] cs3 by simp_all
  have sz: "unat (de_size ?e) = new" using new(2) by (simp add: unat_of_nat)
  have ln: "loc_cluster l \<notin> set (cs @ ns)" using loc(2,4) G by auto
  have data: "file_data view fs4 (cs @ ns) = file_data view fs2 (cs @ ns)"
    by (rule file_data_cong) (use q(4) d3(2) ln in metis)
  have len: "length (file_data view fs cs) = length cs * ?k" "length (file_data view fs (cs @ ns)) = m * ?k"
    using length_file_data [OF dev wf] dc g(3) by (metis length_append)+
  have "file_contents view fs4 ?e (cs @ ns) = file_contents view fs e cs @ replicate (new - ?old) 0"
  proof -
    have "file_contents view fs4 ?e (cs @ ns) =
        take new (overwrite (file_data view fs cs @ file_data view fs ns) ?old (replicate (new - ?old) 0))"
      unfolding file_contents_def sz data z(3) by simp
    also have "\<dots> = take ?old (file_data view fs cs) @ replicate (new - ?old) 0"
      by (rule overwrite_zeros_contents) (use file_ok_size(1) [OF ok wf] len m(3) new(1) in auto)
    finally show ?thesis by (simp add: file_contents_def)
  qed
  moreover have "file_ok fs4 ?e (cs @ ns)"
  proof -
    have ne: "cs @ ns \<noteq> []" using m(2) g(3) by auto
    have "length (cs @ ns) = (unat (de_size ?e) + cluster_size fs4 - 1) div cluster_size fs4"
      unfolding sz ft(2) using g(3) by (simp add: m_def)
    then show ?thesis
      unfolding file_ok_def ft(1) using ne we dc(2) G g(4,5) file_okD(1) [OF ok]
      by (simp del: append_is_Nil_conv)
  qed
  moreover have "grow_existing_file E fs e l ?old new = Some (Some (), ?e, fs4)"
  proof -
    have "clusters_for_size fs ?old = Some (length cs)" "clusters_for_size fs new = Some m"
      using k new(1) lc by (simp_all add: clusters_for_size_def m_def)
    then show ?thesis
      using g(1,4) z(1) p q(1) by (simp add: grow_existing_file_def persist_resized_def split: unit.split)
  qed
  moreover have "\<forall>d. d \<notin> set (cs @ ns) \<and> d \<noteq> loc_cluster l \<longrightarrow> cluster_data view fs4 d = cluster_data view fs d"
    using q(4) d3(2) frame_data [OF z(2)] by simp
  moreover have "wf_volume fs4" using same_volume_geometry(4) [OF q(2)] wf3 by simp
  ultimately show thesis using that sz q(3) G ft(1) by blast
qed

section \<open>Shrinking\<close>

text \<open>The table after a file has been cut to its first \<open>m\<close> clusters.\<close>

definition cut_table :: "fat_buffer \<Rightarrow> nat list \<Rightarrow> nat \<Rightarrow> fat_buffer" where
  "cut_table table cs m =
     fat_release (if m = 0 then table else table[last (take m cs) := FAT_CLUSTER_EOF]) (drop m cs)"

lemma length_cut_table [simp]: "length (cut_table table cs m) = length table"
  by (simp add: cut_table_def)

lemma cut_table_freed: "x \<in> set (drop m cs) \<Longrightarrow> x < length table \<Longrightarrow> cut_table table cs m ! x = 0"
  by (simp add: cut_table_def nth_fat_release)

lemma cut_table_other:
  assumes "x \<notin> set cs" "x < length table" "m \<le> length cs"
  shows "cut_table table cs m ! x = table ! x"
proof -
  have "x \<notin> set (drop m cs)" using assms(1) by (auto dest: in_set_dropD)
  moreover have "x \<noteq> last (take m cs)" if "m \<noteq> 0"
  proof -
    have "take m cs \<noteq> []" using that assms(3) by auto
    then have "last (take m cs) \<in> set cs" by (metis in_set_takeD last_in_set)
    then show ?thesis using assms(1) by auto
  qed
  ultimately show ?thesis using assms(2) by (auto simp: cut_table_def nth_fat_release)
qed

lemma cut_table_chain:
  assumes "fat_chain table cs" "0 < m" "m \<le> length cs"
  shows "fat_chain (cut_table table cs m) (take m cs)" "cut_table table cs m ! last (take m cs) \<noteq> 0"
proof -
  have sp: "fat_chain table (take m cs @ drop m cs)" "take m cs \<noteq> []" using assms by auto
  show "fat_chain (cut_table table cs m) (take m cs)"
    using fat_chain_cut_release(1) [OF sp] assms(2) by (simp add: cut_table_def)
  have "last (take m cs) \<notin> set (drop m cs)"
    using fat_chain_distinct [OF sp(1)] last_in_set [OF sp(2)]
    unfolding distinct_append disjoint_iff by blast
  moreover have "last (take m cs) < length table"
    using fat_chain_range [OF assms(1)] last_in_set [OF sp(2)] by (metis in_set_takeD)
  ultimately show "cut_table table cs m ! last (take m cs) \<noteq> 0"
    using assms(2) by (simp add: cut_table_def nth_fat_release FAT_CLUSTER_EOF_def)
qed

text \<open>The table part of \<open>shrink_existing_file\<close> succeeds on a well-formed file.\<close>

lemma shrink_table:
  assumes ok: "file_ok fs e cs" and m: "0 < m" "m \<le> length cs"
  shows "cluster_at (fat fs) (get_cluster e) (m - 1) = Some (last (take m cs))"
    and "fat_set_entry fs (last (take m cs)) FAT_CLUSTER_EOF
           = (Some (), fs\<lparr>fat := (fat fs)[last (take m cs) := FAT_CLUSTER_EOF]\<rparr>)"
    and "(case next_cluster (fat fs) (last (take m cs)) of
            None \<Rightarrow> (Some (), fs\<lparr>fat := (fat fs)[last (take m cs) := FAT_CLUSTER_EOF]\<rparr>)
          | Some c \<Rightarrow> fat_free_chain (fs\<lparr>fat := (fat fs)[last (take m cs) := FAT_CLUSTER_EOF]\<rparr>) c)
         = (Some (), fs\<lparr>fat := cut_table (fat fs) cs m\<rparr>)"
proof -
  obtain c r where cs: "cs = c # r" using m by (cases cs) auto
  have ch: "fat_chain (fat fs) cs" "get_cluster e = c" using file_okD(4) [OF ok] cs by auto
  have "take m cs \<noteq> []" using m by auto
  then have lt: "last (take m cs) = cs ! (m - 1)" using m by (simp add: last_conv_nth)
  show "cluster_at (fat fs) (get_cluster e) (m - 1) = Some (last (take m cs))"
    unfolding lt using cluster_at_chain [of "fat fs" c r "m - 1"] ch m cs by auto
  have "last (take m cs) < length (fat fs)" using fat_chain_range [OF ch(1)] m by (simp add: lt)
  then show "fat_set_entry fs (last (take m cs)) FAT_CLUSTER_EOF
           = (Some (), fs\<lparr>fat := (fat fs)[last (take m cs) := FAT_CLUSTER_EOF]\<rparr>)"
    by (simp add: fat_set_entry_def fat_set_def)
  have sp: "fat_chain (fat fs) (take m cs @ drop m cs)" "take m cs \<noteq> []" using ch(1) m by auto
  note cut = fat_chain_cut_release [OF sp]
  show "(case next_cluster (fat fs) (last (take m cs)) of
            None \<Rightarrow> (Some (), fs\<lparr>fat := (fat fs)[last (take m cs) := FAT_CLUSTER_EOF]\<rparr>)
          | Some c \<Rightarrow> fat_free_chain (fs\<lparr>fat := (fat fs)[last (take m cs) := FAT_CLUSTER_EOF]\<rparr>) c)
         = (Some (), fs\<lparr>fat := cut_table (fat fs) cs m\<rparr>)"
    using m cut(2,3,4)
    by (cases "drop m cs = []") (simp_all add: fat_free_chain_def cut_table_def fat_release_def)
qed

text \<open>Persisting the table and the entry, once the table in memory has its new shape.\<close>

lemma persist_resized_ok:
  assumes dev: "device_laws E view" and wf: "wf_volume fs" and rel: "reliable E"
    and loc: "valid_location fs l" "wf_dirent e"
  obtains fs1 fs2 where "persist_fat E fs = (Some (), fs1)" "persist_resized E fs1 l e = Some (Some (), e, fs2)"
    "fat fs2 = fat fs" "cluster_size fs2 = cluster_size fs" "entry_at view fs2 l = e"
    "\<forall>d. d \<noteq> loc_cluster l \<longrightarrow> cluster_data view fs2 d = cluster_data view fs d" "wf_volume fs2"
proof -
  obtain fs1 where p: "persist_fat E fs = (Some (), fs1)" using persist_fat_reliable [OF rel] by blast
  note d = persist_fat_disk [OF dev wf p] and g = same_volume_geometry [OF persist_fat_disk(1) [OF dev wf p]]
  have loc1: "valid_location fs1 l" using loc(1) g(1) by (simp add: valid_location_def)
  obtain fs2 where q: "persist_directory_entry E fs1 l e = Some (Some (), fs2)" "same_volume fs1 fs2"
    "entry_at view fs2 l = e" "\<forall>d. d \<noteq> loc_cluster l \<longrightarrow> cluster_data view fs2 d = cluster_data view fs1 d"
    using persist_directory_entry_ok [OF dev _ rel loc1 loc(2)] g(4) wf by metis
  show thesis
    by (rule that [OF p, of fs2])
       (use q d g wf same_volumeD [OF d(1)] same_volumeD [OF q(2)] same_volume_geometry(1,4) [OF q(2)]
         in \<open>simp_all add: persist_resized_def\<close>)
qed

definition shrunk_entry :: "directory_entry \<Rightarrow> nat \<Rightarrow> directory_entry" where
  "shrunk_entry e new = (if new = 0 then (set_cluster e 0)\<lparr>de_size := 0\<rparr> else e\<lparr>de_size := of_nat new\<rparr>)"

lemma shrink_existing_file_ok:
  assumes dev: "device_laws E view" and wf: "wf_volume fs" and rel: "reliable E" and ok: "file_ok fs e cs"
    and loc: "valid_location fs l" "loc_cluster l \<notin> set cs" and new: "new < unat (de_size e)"
  defines "m \<equiv> (new + cluster_size fs - 1) div cluster_size fs"
  obtains fs' where
    "shrink_existing_file E fs e l new = Some (Some (), shrunk_entry e new, fs')"
    "file_ok fs' (shrunk_entry e new) (take m cs)" "entry_at view fs' l = shrunk_entry e new"
    "file_contents view fs' (shrunk_entry e new) (take m cs) = take new (file_contents view fs e cs)"
    "\<forall>d. d \<noteq> loc_cluster l \<longrightarrow> cluster_data view fs' d = cluster_data view fs d"
    "fat fs' = cut_table (fat fs) cs m" "m \<le> length cs" "wf_volume fs'"
proof -
  let ?k = "cluster_size fs" and ?old = "unat (de_size e)" and ?e = "shrunk_entry e new"
  have k: "0 < ?k" using cluster_size_wf [OF wf] by simp
  have "length cs = (?old + ?k - 1) div ?k" using ok by (simp add: file_ok_def)
  then have m: "m \<le> length cs" unfolding m_def using new by (simp add: div_le_mono)
  have m0: "m = 0 \<longleftrightarrow> new = 0" unfolding m_def by (rule ceil_div_bounds(3) [OF k])
  have "?old < 2 ^ LENGTH(32)" by (rule unsigned_less)
  then have sz: "unat (de_size ?e) = new" using new by (simp add: shrunk_entry_def unat_of_nat)
  have ne: "cs \<noteq> []" using file_ok_size [OF ok wf] new by auto
  note F = file_okD(1,2,3) [OF ok] file_okD(4) [OF ok ne]
  have we: "wf_dirent ?e" "de_attributes ?e = 32"
    using F(1,2) by (simp_all add: shrunk_entry_def wf_dirent_def set_cluster_def)
  let ?fs = "fs\<lparr>fat := cut_table (fat fs) cs m\<rparr>"
  obtain fs1 fs2 where p: "persist_fat E ?fs = (Some (), fs1)" "persist_resized E fs1 l ?e = Some (Some (), ?e, fs2)"
    "fat fs2 = cut_table (fat fs) cs m" "cluster_size fs2 = ?k" "entry_at view fs2 l = ?e"
    "\<forall>d. d \<noteq> loc_cluster l \<longrightarrow> cluster_data view fs2 d = cluster_data view fs d" "wf_volume fs2"
    using persist_resized_ok [OF dev _ rel _ we(1), of ?fs l] wf loc(1) by auto
  have "shrink_existing_file E fs e l new = Some (Some (), ?e, fs2)"
  proof (cases "new = 0")
    case True
    have "free_chain (fat fs) (hd cs) = (Some (), cut_table (fat fs) cs m)"
      using free_chain_chain [of "fat fs" "hd cs" "tl cs"] F(4) ne True m0 by (simp add: cut_table_def)
    moreover have "hd cs \<noteq> 0" using F(3) hd_in_set [OF ne] by auto
    ultimately show ?thesis
      using True p(1,2) F(4)
      by (simp add: shrink_existing_file_def fat_free_chain_def shrunk_entry_def Let_def split: unit.split)
  next
    case False
    then have mp: "0 < m" using m0 by simp
    have "get_cluster e \<noteq> 0" using F(3,4) hd_in_set [OF ne] by auto
    then show ?thesis
      unfolding shrink_existing_file_def Let_def m_def [symmetric]
      using False k p(1,2)
      by (simp add: shrink_table(1,2) [OF ok mp m, simplified] shrink_table(3) [OF ok mp m]
          shrunk_entry_def split: unit.split)
  qed
  moreover have "file_ok fs2 ?e (take m cs)"
  proof -
    have "get_cluster ?e = 0" if "m = 0" using that m0 by (simp add: shrunk_entry_def)
    moreover have "get_cluster ?e = hd (take m cs)" if "0 < m"
      using that m0 F(4) by (simp add: shrunk_entry_def hd_take)
    moreover have "length (take m cs) = (unat (de_size ?e) + cluster_size fs2 - 1) div cluster_size fs2"
      using m by (simp add: sz p(4) m_def)
    moreover have "data_clusters (take m cs)" using F(3) by (metis in_set_takeD)
    ultimately show ?thesis
      using we cut_table_chain [of "fat fs" cs m] F(4) m ne p(3) by (auto simp: file_ok_def)
  qed
  moreover have "file_contents view fs2 ?e (take m cs) = take new (file_contents view fs e cs)"
  proof -
    have "file_data view fs2 (take m cs) = file_data view fs (take m cs)"
      by (rule file_data_cong) (use p(6) loc(2) in \<open>metis in_set_takeD\<close>)
    moreover have "length (file_data view fs (take m cs)) = m * ?k"
      using length_file_data [OF dev wf, of "take m cs"] F(3) m by (metis in_set_takeD length_take min.absorb2)
    moreover have "new \<le> m * ?k" unfolding m_def by (rule ceil_div_bounds(1) [OF k])
    moreover have "file_data view fs cs = file_data view fs (take m cs) @ file_data view fs (drop m cs)"
      by (metis append_take_drop_id file_data_simps(3))
    ultimately show ?thesis using new by (simp add: file_contents_def sz)
  qed
  ultimately show thesis using that p(3,5,6,7) m by blast
qed

lemma take_overwrite_within:
  assumes "off + length xs \<le> n" "n \<le> length buf"
  shows "take n (overwrite buf off xs) = overwrite (take n buf) off xs"
  by (rule nth_equalityI) (use assms in \<open>auto simp: nth_overwrite\<close>)

section \<open>Resizing as a whole\<close>

lemma same_disk_file:
  assumes "same_disk view fs fs'"
  shows "file_ok fs' e cs = file_ok fs e cs" "file_contents view fs' e cs = file_contents view fs e cs"
    "valid_location fs' l = valid_location fs l" "entry_at view fs' l = entry_at view fs l"
    "wf_volume fs' = wf_volume fs" "fat fs' = fat fs" "cluster_size fs' = cluster_size fs"
proof -
  have sv: "same_volume fs fs'" using assms by (simp add: same_disk_def)
  show "file_ok fs' e cs = file_ok fs e cs" using file_ok_frame [OF sv] .
  show "wf_volume fs' = wf_volume fs" "cluster_size fs' = cluster_size fs" "fat fs' = fat fs"
    using same_volume_geometry [OF sv] same_volumeD [OF sv] by simp_all
  then show "valid_location fs' l = valid_location fs l" by (simp add: valid_location_def)
  show "file_contents view fs' e cs = file_contents view fs e cs" "entry_at view fs' l = entry_at view fs l"
    using same_disk_cluster_data [OF assms] by (simp_all add: file_contents_def file_data_def entry_at_def)
qed

lemma truncate_existing_file_ok:
  assumes dev: "device_laws E view" and wf: "wf_volume fs" and rel: "reliable E"
    and e: "entry_at view fs l = e" and ok: "file_ok fs e cs"
    and loc: "valid_location fs l" "loc_cluster l \<notin> set cs" "loc_cluster l < length (fat fs)" "fat fs ! loc_cluster l \<noteq> 0"
    and new: "new < 2 ^ 32"
    and free: "(new + cluster_size fs - 1) div cluster_size fs - length cs \<le> length (free_clusters (fat fs))"
  obtains e' fs' cs' where "truncate_existing_file E fs f l new = Some (Some (), e', fs')"
    "file_ok fs' e' cs'" "unat (de_size e') = new" "entry_at view fs' l = e'"
    "file_contents view fs' e' cs' = take new (file_contents view fs e cs) @ replicate (new - unat (de_size e)) 0"
    "\<forall>d. d \<notin> set (cs @ cs') \<and> d \<noteq> loc_cluster l \<longrightarrow> cluster_data view fs' d = cluster_data view fs d"
    "wf_volume fs'"
proof -
  let ?old = "unat (de_size e)"
  obtain fs1 where r: "read_directory_entry E fs l = Some (Some e, fs1)" "same_disk view fs fs1"
    using read_directory_entry_reliable [OF dev wf loc(1) rel] e by metis
  note T = same_disk_file [OF r(2)] and C = same_disk_cluster_data [OF r(2)]
  have t: "truncate_existing_file E fs f l new =
      (if new = ?old then Some (Some (), e, fs1)
       else if new < ?old then shrink_existing_file E fs1 e l new
       else grow_existing_file E fs1 e l ?old new)"
    using r(1) file_okD(1) [OF ok] new by (simp add: truncate_existing_file_def Let_def)
  have wf1: "wf_volume fs1" and ok1: "file_ok fs1 e cs" and loc1: "valid_location fs1 l"
    using T wf ok loc(1) by simp_all
  have len: "length (file_contents view fs e cs) = ?old" using length_file_contents [OF dev ok wf] .
  consider "new = ?old" | "new < ?old" | "?old < new" by linarith
  then show thesis
  proof cases
    case 1
    show thesis
      by (rule that [of e fs1 cs]) (use 1 t ok1 T(2,4) e C len wf1 in simp_all)
  next
    case 2
    obtain fs' m where s: "shrink_existing_file E fs1 e l new = Some (Some (), shrunk_entry e new, fs')"
      "file_ok fs' (shrunk_entry e new) (take m cs)" "entry_at view fs' l = shrunk_entry e new"
      "file_contents view fs' (shrunk_entry e new) (take m cs) = take new (file_contents view fs1 e cs)"
      "\<forall>d. d \<noteq> loc_cluster l \<longrightarrow> cluster_data view fs' d = cluster_data view fs1 d" "wf_volume fs'"
      using shrink_existing_file_ok [OF dev wf1 rel ok1 loc1 loc(2) 2] by metis
    have "unat (de_size (shrunk_entry e new)) = new" using new by (simp add: shrunk_entry_def unat_of_nat)
    moreover have "truncate_existing_file E fs f l new = Some (Some (), shrunk_entry e new, fs')"
      using t s(1) 2 by simp
    moreover have "\<forall>d. d \<notin> set (cs @ take m cs) \<and> d \<noteq> loc_cluster l \<longrightarrow> cluster_data view fs' d = cluster_data view fs d"
      using s(5) C by simp
    moreover have "file_contents view fs' (shrunk_entry e new) (take m cs)
        = take new (file_contents view fs e cs) @ replicate (new - ?old) 0"
      using s(4) T(2) 2 by simp
    ultimately show thesis using that s(2,3,6) by blast
  next
    case 3
    obtain ns e' fs' where g: "grow_existing_file E fs1 e l ?old new = Some (Some (), e', fs')"
      "file_ok fs' e' (cs @ ns)" "unat (de_size e') = new" "entry_at view fs' l = e'"
      "file_contents view fs' e' (cs @ ns) = file_contents view fs1 e cs @ replicate (new - ?old) 0"
      "\<forall>d. d \<notin> set (cs @ ns) \<and> d \<noteq> loc_cluster l \<longrightarrow> cluster_data view fs' d = cluster_data view fs1 d"
      "wf_volume fs'"
      using grow_existing_file_ok [OF dev wf1 rel ok1 loc1 loc(2), of new] loc(3,4) 3 new free T by metis
    moreover have "truncate_existing_file E fs f l new = Some (Some (), e', fs')" using t g(1) 3 by simp
    moreover have "\<forall>d. d \<notin> set (cs @ cs @ ns) \<and> d \<noteq> loc_cluster l \<longrightarrow> cluster_data view fs' d = cluster_data view fs d"
      using g(6) C by simp
    moreover have "file_contents view fs' e' (cs @ ns)
        = take new (file_contents view fs e cs) @ replicate (new - ?old) 0"
      using g(5) T(2) 3 len by simp
    ultimately show thesis using that by blast
  qed
qed

section \<open>Properties\<close>

text \<open>
  C2.  Write then read.  On a reliable port, writing \<open>bytes\<close> at an offset inside an existing file
  reports the full count, a following read returns the old content with exactly that window
  replaced, and no cluster outside the file changes.
\<close>

theorem write_then_read:
  assumes "device_laws E view" "wf_volume fs" "reliable E" "file_ok fs e cs"
    and "off + length bytes \<le> unat (de_size e)"
  shows "\<exists>fs' fs''. write_existing_file E fs e off bytes = Some (Some (length bytes), fs')
     \<and> read_file E fs' e = Some (Some (overwrite (file_contents view fs e cs) off bytes), fs'')
     \<and> (\<forall>d. d \<notin> set cs \<longrightarrow> cluster_data view fs' d = cluster_data view fs d)"
proof -
  have size: "unat (de_size e) \<le> length (file_data view fs cs)"
    using file_ok_size(1) [OF assms(4,2)] length_file_data [OF assms(1,2) file_okD(3) [OF assms(4)]] by simp
  have "\<exists>fs'. write_existing_file E fs e off bytes = Some (Some (length bytes), fs')
      \<and> frame view fs fs' (set cs) \<and> file_data view fs' cs = overwrite (file_data view fs cs) off bytes"
  proof (cases "bytes = []")
    case True
    have "unat (de_size e) < 2 ^ LENGTH(32)" by (rule unsigned_less)
    then show ?thesis
      using True assms(5) size file_okD(1) [OF assms(4)]
      by (simp add: write_existing_file_def checked_add_def usize_bound_def)
  next
    case False
    from write_existing_file_disk [OF assms(1,2,4) False assms(5)] assms(3) show ?thesis
      by (auto simp: write_outcome_def)
  qed
  then obtain fs' where w: "write_existing_file E fs e off bytes = Some (Some (length bytes), fs')"
    "frame view fs fs' (set cs)" "file_data view fs' cs = overwrite (file_data view fs cs) off bytes" by blast
  have sv: "same_volume fs fs'" using w(2) by (simp add: frame_def)
  have "wf_volume fs'" "file_ok fs' e cs"
    using same_volume_geometry(4) [OF sv] file_ok_frame [OF sv] assms(2,4) by simp_all
  then obtain fs'' where "read_file E fs' e = Some (Some (file_contents view fs' e cs), fs'')"
    using read_file_disk [OF assms(1)] assms(3) by blast
  moreover have "file_contents view fs' e cs = overwrite (file_contents view fs e cs) off bytes"
    using take_overwrite_within [OF assms(5) size] by (simp add: file_contents_def w(3))
  ultimately show ?thesis using w(1) frame_data [OF w(2)] by metis
qed

definition demo_file :: "nat \<Rightarrow> u32 \<Rightarrow> directory_entry" where
  "demo_file c n = (set_cluster (new_file_entry (replicate 11 65)) c)\<lparr>de_size := n\<rparr>"

lemma demo_file_ok:
  assumes "0 < n" "n \<le> 512"
  shows "file_ok (demo_volume [0, 0, 0x0FFFFFFF, 0x0FFFFFFF]) (demo_file 3 (of_nat n)) [3]"
proof -
  have "unat (of_nat n :: u32) = n" using assms by (simp add: unat_of_nat)
  moreover have "(n + 511) div 512 = 1" using assms by (intro div_nat_eqI) auto
  ultimately show ?thesis
    by (simp add: file_ok_def demo_file_def new_file_entry_def set_cluster_def wf_dirent_def get_cluster_def
        next_cluster_def)
qed

theorem write_then_read_witness:
  "\<exists>fs' fs''. write_existing_file ram_env (demo_volume [0, 0, 0x0FFFFFFF, 0x0FFFFFFF]) (demo_file 3 100) 10 [1, 2, 3]
       = Some (Some 3, fs')
     \<and> read_file ram_env fs' (demo_file 3 100) = Some (Some (overwrite (replicate 100 0) 10 [1, 2, 3]), fs'')"
proof -
  let ?fs = "demo_volume [0, 0, 0x0FFFFFFF, 0x0FFFFFFF]" and ?e = "demo_file 3 100"
  have s: "unat (de_size ?e) = 100" by (simp add: demo_file_def)
  have "file_contents ram_view ?fs ?e [3] = replicate 100 0"
    by (simp add: file_contents_def s cluster_data_def sector_run_def ram_view_def)
  then show ?thesis
    using write_then_read [OF ram_device demo_volume_wf ram_reliable demo_file_ok [of 100, simplified], of 10 "[1, 2, 3]"] s
    by auto
qed



text \<open>
  C1.  Truncation.  On a reliable port with enough free clusters, setting the size of an existing
  file keeps the leading bytes, fills what is new with zeros, leaves a well-formed file whose
  directory entry on disk carries the new size, and a following read returns that content.
\<close>

theorem truncate_then_read:
  assumes "device_laws E view" "wf_volume fs" "reliable E"
    and "entry_at view fs l = e" "file_ok fs e cs"
    and "valid_location fs l" "loc_cluster l \<notin> set cs" "loc_cluster l < length (fat fs)" "fat fs ! loc_cluster l \<noteq> 0"
    and "new < 2 ^ 32"
    and "(new + cluster_size fs - 1) div cluster_size fs - length cs \<le> length (free_clusters (fat fs))"
  shows "\<exists>e' fs' fs''. truncate_existing_file E fs f l new = Some (Some (), e', fs')
     \<and> entry_at view fs' l = e' \<and> unat (de_size e') = new
     \<and> read_file E fs' e' = Some (Some (take new (file_contents view fs e cs)
                                         @ replicate (new - unat (de_size e)) 0), fs'')"
proof -
  obtain e' fs' cs' where t: "truncate_existing_file E fs f l new = Some (Some (), e', fs')"
    "file_ok fs' e' cs'" "unat (de_size e') = new" "entry_at view fs' l = e'"
    "file_contents view fs' e' cs' = take new (file_contents view fs e cs) @ replicate (new - unat (de_size e)) 0"
    "wf_volume fs'"
    using truncate_existing_file_ok [OF assms] by metis
  show ?thesis using read_file_disk [OF assms(1) t(6,2)] assms(3) t by metis
qed

theorem truncate_then_read_witness:
  "\<exists>fs e' fs' fs''. truncate_existing_file ram_env fs (demo_file 3 100)
         \<lparr> loc_cluster = 2, loc_index = 0, loc_offset = 0 \<rparr> 1000 = Some (Some (), e', fs')
     \<and> read_file ram_env fs' e' = Some (Some (replicate 1000 0), fs'')"
proof -
  let ?v = "demo_volume [0, 0, 0x0FFFFFFF, 0x0FFFFFFF]" and ?e = "demo_file 3 100"
    and ?l = "\<lparr> loc_cluster = 2, loc_index = 0, loc_offset = 0 \<rparr>"
  let ?fs = "?v\<lparr>port := (\<lambda>s. if s = 2 then dirent_bytes ?e else [])\<rparr>"
  have sv: "same_volume ?v ?fs" by (simp add: same_volume_def)
  note ok = demo_file_ok [of 100, simplified]
  have we: "wf_dirent ?e" using ok by (simp add: file_ok_def)
  have c2: "cluster_data ram_view ?fs 2 = take 512 (dirent_bytes ?e @ replicate 512 0)"
    by (simp add: cluster_data_def data_sector_def sector_run_def ram_view_def)
  have e: "entry_at ram_view ?fs ?l = ?e" using we by (simp add: entry_at_def c2)
  have s: "unat (de_size ?e) = 100" by (simp add: demo_file_def)
  have "cluster_data ram_view ?fs 3 = replicate 512 0"
    by (simp add: cluster_data_def data_sector_def sector_run_def ram_view_def)
  then have cont: "file_contents ram_view ?fs ?e [3] = replicate 100 0" by (simp add: file_contents_def s)
  have "4 \<in> set (free_clusters (fat ?fs))" by (simp add: free_clusters_set)
  then have free: "1 \<le> length (free_clusters (fat ?fs))" by (cases "free_clusters (fat ?fs)") auto
  have geo: "wf_volume ?fs" "file_ok ?fs ?e [3]" "cluster_size ?fs = 512"
    using same_volume_geometry [OF sv] file_ok_frame [OF sv] ok by simp_all
  have "valid_location ?fs ?l" by (simp add: valid_location_def geo(3))
  then show ?thesis
    using truncate_then_read [OF ram_device geo(1) ram_reliable e geo(2), of 1000 ?e] free geo(3) s cont
    by (fastforce simp flip: replicate_add)
qed

end
