(* ===== verification/Heap.thy ===== *)
theory Heap
  imports Prelude
begin

text \<open>
  The kernel heap (\<open>src/mem/heap.rs\<close>): a linked list of blocks whose headers live in the memory
  they describe.  The memory is an explicit store from header addresses to headers, so that a
  header that is reached through a dangling or overwritten pointer is visible as \<open>None\<close>, and
  allocation and release update the store the way the code writes through its pointers.

  \<open>size_of::<Block>()\<close> is 32 and \<open>align_of::<Block>()\<close> is 8 on x86-64: three words and a flag.
\<close>

section \<open>Data\<close>

record block =
  blk_next :: "nat option"
  blk_used :: bool
  blk_size :: nat
  blk_address :: nat

record linked_list_heap =
  heap_start :: nat
  heap_end :: nat
  heap_size :: nat
  heap_head :: block
  heap_memory :: "nat \<rightharpoonup> block"

record layout =
  lay_size :: nat
  lay_align :: nat

definition HEAP_START :: nat where "HEAP_START = 0x400000000"
definition HEAP_SIZE :: nat where "HEAP_SIZE = 16 * 1024 * 1024"

definition BLOCK_SIZE :: nat where "BLOCK_SIZE = 32"
definition BLOCK_ALIGN :: nat where "BLOCK_ALIGN = 8"

definition block_new :: "nat \<Rightarrow> nat \<Rightarrow> block" where
  "block_new address sz = \<lparr> blk_next = None, blk_used = False, blk_size = sz, blk_address = address \<rparr>"

definition heap_empty :: linked_list_heap where
  "heap_empty = \<lparr> heap_start = 0, heap_end = 0, heap_size = 0, heap_head = block_new 0 0, heap_memory = Map.empty \<rparr>"

section \<open>Alignment\<close>

definition is_power_of_two :: "nat \<Rightarrow> bool" where
  "is_power_of_two n \<longleftrightarrow> n \<in> set (map (\<lambda>k. 2 ^ k) [0..<64])"

definition align_down :: "nat \<Rightarrow> nat \<Rightarrow> nat option" where
  "align_down addr align =
     (if is_power_of_two align then Some (and_not addr (align - 1))
      else if align = 0 then Some addr
      else None)"

definition align_up :: "nat \<Rightarrow> nat \<Rightarrow> nat option" where
  "align_up addr align = do {
     sum \<leftarrow> checked_add addr align;
     rounded \<leftarrow> checked_sub sum 1;
     align_down rounded align
   }"

text \<open>
  \<open>Layout::align_to\<close> fails when the size rounded up to the alignment exceeds \<open>isize::MAX\<close>, which
  the code turns into a panic; \<open>pad_to_align\<close> rounds the size up.
\<close>

definition layout_align_to :: "layout \<Rightarrow> nat \<Rightarrow> layout option" where
  "layout_align_to l align =
     (let a = max (lay_align l) align
      in if is_power_of_two a \<and> lay_size l + (a - 1) < 2 ^ 63 then Some (l\<lparr>lay_align := a\<rparr>) else None)"

definition pad_to_align :: "layout \<Rightarrow> layout" where
  "pad_to_align l = l\<lparr>lay_size := (lay_size l + lay_align l - 1) div lay_align l * lay_align l\<rparr>"

definition block_align_size :: "layout \<Rightarrow> (nat \<times> nat) option" where
  "block_align_size l = do {
     l \<leftarrow> layout_align_to l BLOCK_ALIGN;
     let l = pad_to_align l;
     size \<leftarrow> checked_add (lay_size l) BLOCK_SIZE;
     Some (size, lay_align l)
   }"

section \<open>Operations\<close>

text \<open>The result is \<open>None\<close> when the code panics, otherwise the created block's address, if any.\<close>

definition create_block :: "(nat \<rightharpoonup> block) \<Rightarrow> nat \<Rightarrow> nat \<Rightarrow> (nat option \<times> (nat \<rightharpoonup> block)) option" where
  "create_block mem addr sz = do {
     up \<leftarrow> align_up addr BLOCK_ALIGN;
     (let is_correct_align = (up = addr);
          can_hold_structure = (BLOCK_SIZE \<le> sz)
      in if \<not> is_correct_align \<or> \<not> can_hold_structure then Some (None, mem)
         else Some (Some addr, mem(addr \<mapsto> block_new addr sz)))
   }"

definition heap_init :: "linked_list_heap \<Rightarrow> nat \<Rightarrow> nat \<Rightarrow> linked_list_heap option" where
  "heap_init h lo hi = do {
     size \<leftarrow> checked_sub hi lo;
     (b, mem) \<leftarrow> create_block (heap_memory h) lo size;
     start_block \<leftarrow> b;
     Some (h\<lparr> heap_start := lo, heap_end := hi, heap_size := size,
              heap_head := (heap_head h)\<lparr>blk_next := Some start_block\<rparr>, heap_memory := mem \<rparr>)
   }"

definition init_heap :: "linked_list_heap option" where
  "init_heap = heap_init heap_empty HEAP_START (HEAP_START + HEAP_SIZE)"

text \<open>
  The search loop; \<open>cursor\<close> is \<open>head.next\<close>.  \<open>None\<close> as the result of the search means that the
  loop runs forever, follows a pointer to no block, or overflows.
\<close>

partial_function (option) heap_search_loop ::
  "(nat \<rightharpoonup> block) \<Rightarrow> nat option \<Rightarrow> nat \<Rightarrow> (nat option \<times> (nat \<rightharpoonup> block)) option" where
  "heap_search_loop mem cursor sz =
     (case cursor of
        None \<Rightarrow> Some (None, mem)
      | Some p \<Rightarrow> do {
          block \<leftarrow> mem p;
          if \<not> blk_used block \<and> blk_size block = sz then do {
            addr \<leftarrow> checked_add (blk_address block) BLOCK_SIZE;
            Some (Some addr, mem(p \<mapsto> block\<lparr>blk_used := True\<rparr>))
          }
          else if \<not> blk_used block \<and> blk_size block > sz then do {
            remainder_addr \<leftarrow> checked_add (blk_address block) sz;
            (remainder, mem') \<leftarrow> create_block mem remainder_addr (blk_size block - sz);
            case remainder of
              None \<Rightarrow> heap_search_loop mem (blk_next block) sz
            | Some r \<Rightarrow> do {
                remainder_block \<leftarrow> mem' r;
                addr \<leftarrow> checked_add (blk_address block) BLOCK_SIZE;
                Some (Some addr,
                      mem'(r \<mapsto> remainder_block\<lparr>blk_next := blk_next block\<rparr>,
                           p \<mapsto> block\<lparr>blk_next := Some r, blk_used := True, blk_size := sz\<rparr>))
              }
          }
          else heap_search_loop mem (blk_next block) sz
        })"

definition allocate_internal :: "linked_list_heap \<Rightarrow> nat \<Rightarrow> nat \<Rightarrow> (nat option \<times> linked_list_heap) option" where
  "allocate_internal h sz align = do {
     (r, mem) \<leftarrow> heap_search_loop (heap_memory h) (blk_next (heap_head h)) sz;
     Some (r, h\<lparr>heap_memory := mem\<rparr>)
   }"

definition merge_right :: "(nat \<rightharpoonup> block) \<Rightarrow> nat \<Rightarrow> (nat \<rightharpoonup> block) option" where
  "merge_right mem p = do {
     block \<leftarrow> mem p;
     case blk_next block of
       None \<Rightarrow> Some mem
     | Some n \<Rightarrow> do {
         next \<leftarrow> mem n;
         if blk_used next then Some mem
         else do {
           new_size \<leftarrow> checked_add (blk_size block) (blk_size next);
           case blk_next next of
             None \<Rightarrow> Some (mem(p \<mapsto> block\<lparr>blk_size := new_size, blk_next := None\<rparr>))
           | Some nn \<Rightarrow> do {
               new_next \<leftarrow> mem nn;
               Some (mem(p \<mapsto> block\<lparr>blk_size := new_size, blk_next := Some (blk_address new_next)\<rparr>))
             }
         }
       }
   }"

definition dealloc_internal :: "linked_list_heap \<Rightarrow> nat \<Rightarrow> nat \<Rightarrow> linked_list_heap option" where
  "dealloc_internal h addr sz = do {
     block_addr \<leftarrow> checked_sub addr BLOCK_SIZE;
     block \<leftarrow> heap_memory h block_addr;
     mem \<leftarrow> merge_right ((heap_memory h)(block_addr \<mapsto> block\<lparr>blk_used := False\<rparr>)) block_addr;
     block \<leftarrow> mem block_addr;
     let h = h\<lparr>heap_memory := mem\<rparr>;
     if blk_address block \<ge> blk_address (heap_head h) then Some h
     else Some (h\<lparr>heap_head := (heap_head h)\<lparr>blk_next := Some block_addr\<rparr>\<rparr>)
   }"

text \<open>\<open>GlobalAlloc::alloc\<close> and \<open>Allocator::allocate\<close>; the null pointer is \<open>None\<close>.\<close>

definition heap_alloc :: "linked_list_heap \<Rightarrow> layout \<Rightarrow> (nat option \<times> linked_list_heap) option" where
  "heap_alloc h l = do {
     (size, align) \<leftarrow> block_align_size l;
     allocate_internal h size align
   }"

definition heap_allocate :: "linked_list_heap \<Rightarrow> layout \<Rightarrow> ((nat \<times> nat) option \<times> linked_list_heap) option" where
  "heap_allocate h l = do {
     (size, align) \<leftarrow> block_align_size l;
     (block, h) \<leftarrow> allocate_internal h size align;
     case block of
       None \<Rightarrow> Some (None, h)
     | Some p \<Rightarrow> if p = 0 then None else Some (Some (p, lay_size l), h)
   }"

definition heap_dealloc :: "linked_list_heap \<Rightarrow> nat \<Rightarrow> layout \<Rightarrow> linked_list_heap option" where
  "heap_dealloc h p l = dealloc_internal h p (lay_size l)"

section \<open>Alignment lemmas\<close>

lemma is_power_of_two_exp: "is_power_of_two (2 ^ k) \<longleftrightarrow> k < 64"
  by (auto simp: is_power_of_two_def)

lemma is_power_of_two_8 [simp]: "is_power_of_two 8"
  using is_power_of_two_exp [of 3] by simp

lemma align_down_exp:
  assumes "a < usize_bound" "k < 64"
  shows "align_down a (2 ^ k) = Some (a - a mod 2 ^ k)"
  using assms and_not_mask [of a k] by (simp add: align_down_def is_power_of_two_exp)

lemma align_up_exp:
  assumes "a + 2 ^ k < usize_bound" "k < 64"
  shows "align_up a (2 ^ k) = Some ((a + (2 ^ k - 1)) div 2 ^ k * 2 ^ k)"
proof -
  have "a + 2 ^ k - 1 = a + (2 ^ k - 1)" by (simp add: Suc_leI)
  moreover have "align_down (a + (2 ^ k - 1)) (2 ^ k) = Some ((a + (2 ^ k - 1)) - (a + (2 ^ k - 1)) mod 2 ^ k)"
    using assms by (intro align_down_exp) auto
  moreover have "1 \<le> a + 2 ^ k" by (simp add: trans_le_add2)
  ultimately show ?thesis
    using assms by (simp add: align_up_def checked_add_def checked_sub_def minus_mod_eq_div_mult)
qed

lemma align_up_fixed:
  assumes "a + 8 < usize_bound"
  shows "\<exists>up. align_up a BLOCK_ALIGN = Some up \<and> (up = a \<longleftrightarrow> a mod 8 = 0)"
proof -
  have "(a + 7) div 8 * 8 = a \<longleftrightarrow> a mod 8 = 0" by presburger
  then show ?thesis using align_up_exp [of a 3] assms by (simp add: BLOCK_ALIGN_def)
qed

lemma create_block_eq:
  assumes "a + 8 < usize_bound"
  shows "create_block mem a sz =
    Some (if a mod 8 = 0 \<and> 32 \<le> sz then (Some a, mem(a \<mapsto> block_new a sz)) else (None, mem))"
  using align_up_fixed [OF assms] by (auto simp: create_block_def BLOCK_SIZE_def)

section \<open>The list of blocks\<close>

text \<open>
  The abstract heap: the blocks in address order as address, size (header included) and whether the
  block is in use.  \<open>headers\<close> says that the store holds these blocks linked in this order,
  \<open>tiles\<close> that they cover the heap without gap or overlap.
\<close>

type_synonym hblock = "nat \<times> nat \<times> bool"

fun first_addr :: "hblock list \<Rightarrow> nat option" where
  "first_addr [] = None"
| "first_addr ((a, s, u) # r) = Some a"

fun headers :: "(nat \<rightharpoonup> block) \<Rightarrow> hblock list \<Rightarrow> bool" where
  "headers m [] \<longleftrightarrow> True"
| "headers m ((a, s, u) # r) \<longleftrightarrow>
     m a = Some \<lparr> blk_next = first_addr r, blk_used = u, blk_size = s, blk_address = a \<rparr> \<and> headers m r"

fun tiles :: "nat \<Rightarrow> nat \<Rightarrow> hblock list \<Rightarrow> bool" where
  "tiles lo hi [] \<longleftrightarrow> lo = hi"
| "tiles lo hi ((a, s, u) # r) \<longleftrightarrow> a = lo \<and> 32 \<le> s \<and> s mod 8 = 0 \<and> tiles (a + s) hi r"

definition heap_rep :: "linked_list_heap \<Rightarrow> hblock list \<Rightarrow> bool" where
  "heap_rep h bs \<longleftrightarrow> blk_next (heap_head h) = first_addr bs \<and> blk_address (heap_head h) = 0
     \<and> headers (heap_memory h) bs \<and> tiles (heap_start h) (heap_end h) bs
     \<and> heap_start h mod 8 = 0 \<and> heap_end h + 40 < usize_bound"

text \<open>First fit with splitting, and release with merging to the right.\<close>

fun alloc_blocks :: "nat \<Rightarrow> hblock list \<Rightarrow> (nat \<times> hblock list) option" where
  "alloc_blocks n [] = None"
| "alloc_blocks n ((a, s, u) # r) =
     (if \<not> u \<and> s = n then Some (a, (a, s, True) # r)
      else if \<not> u \<and> n + 32 \<le> s then Some (a, (a, n, True) # (a + n, s - n, False) # r)
      else map_option (\<lambda>(p, r'). (p, (a, s, u) # r')) (alloc_blocks n r))"

fun join :: "hblock list \<Rightarrow> hblock list" where
  "join ((a, s, u) # (b, t, False) # r) = (a, s + t, u) # r"
| "join bs = bs"

fun release :: "nat \<Rightarrow> hblock list \<Rightarrow> hblock list" where
  "release p [] = []"
| "release p ((a, s, u) # r) = (if a = p then join ((a, s, False) # r) else (a, s, u) # release p r)"

lemma tiles_le: "tiles lo hi bs \<Longrightarrow> lo \<le> hi"
  by (induction lo hi bs rule: tiles.induct) auto

lemma tiles_addr:
  "tiles lo hi bs \<Longrightarrow> (a, s, u) \<in> set bs \<Longrightarrow> lo \<le> a \<and> a + s \<le> hi \<and> 32 \<le> s \<and> a mod 8 = lo mod 8"
proof (induction bs arbitrary: lo)
  case (Cons x r)
  obtain b t v where x: "x = (b, t, v)" by (cases x)
  have t: "b = lo" "32 \<le> t" "t mod 8 = 0" "tiles (b + t) hi r" using Cons.prems(1) by (auto simp: x)
  have le: "b + t \<le> hi" using tiles_le [OF t(4)] .
  show ?case
  proof (cases "(a, s, u) = x")
    case True
    then show ?thesis using t le by (simp add: x)
  next
    case False
    then have "(a, s, u) \<in> set r" using Cons.prems(2) by simp
    note ih = Cons.IH [OF t(4) this]
    obtain k where k: "t = 8 * k" using t(3) by auto
    have "(b + t) mod 8 = b mod 8" unfolding k by (rule mod_mult_self2)
    with ih have "a mod 8 = lo mod 8" unfolding t(1) by (simp only:)
    moreover have "lo \<le> a" using ih t(1) by linarith
    ultimately show ?thesis using ih by blast
  qed
qed simp

lemma tiles_disjoint:
  assumes "tiles lo hi bs" "(a, s, u) \<in> set bs" "(b, t, v) \<in> set bs"
  shows "(a, s, u) = (b, t, v) \<or> a + s \<le> b \<or> b + t \<le> a"
  using assms
proof (induction bs arbitrary: lo)
  case (Cons x r)
  obtain c w y where x: "x = (c, w, y)" by (cases x)
  then have r: "tiles (c + w) hi r" using Cons.prems(1) by auto
  consider "(a, s, u) = x" "(b, t, v) = x" | "(a, s, u) = x" "(b, t, v) \<in> set r"
    | "(a, s, u) \<in> set r" "(b, t, v) = x" | "(a, s, u) \<in> set r" "(b, t, v) \<in> set r"
    using Cons.prems(2,3) by fastforce
  then show ?case
  proof cases
    case 2 then show ?thesis using tiles_addr [OF r 2(2)] x by simp
  next
    case 3 then show ?thesis using tiles_addr [OF r 3(1)] x by simp
  next
    case 4 then show ?thesis using Cons.IH [OF r] by simp
  qed simp
qed simp

lemma tiles_same_addr:
  assumes "tiles lo hi bs" "(a, s, u) \<in> set bs" "(a, t, v) \<in> set bs"
  shows "s = t \<and> u = v"
  using tiles_disjoint [OF assms] tiles_addr [OF assms(1,2)] tiles_addr [OF assms(1,3)] by auto

lemma first_addr_alloc: "alloc_blocks n bs = Some (p, bs') \<Longrightarrow> first_addr bs' = first_addr bs"
  by (induction bs arbitrary: bs' rule: alloc_blocks.induct) (auto split: if_splits)

lemma first_addr_join [simp]: "first_addr (join bs) = first_addr bs"
  by (cases bs rule: join.cases) auto

lemma first_addr_release [simp]: "first_addr (release p bs) = first_addr bs"
  by (cases bs rule: first_addr.cases) auto

lemma headers_cong:
  "headers m bs \<Longrightarrow> (\<And>a s u. (a, s, u) \<in> set bs \<Longrightarrow> m' a = m a) \<Longrightarrow> headers m' bs"
proof (induction bs)
  case (Cons x r)
  obtain a s u where x: "x = (a, s, u)" by (cases x)
  have "m' a = m a" using Cons.prems(2) [of a s u] by (simp add: x)
  moreover have "headers m' r"
    using Cons.prems by (intro Cons.IH) (auto simp: x)
  ultimately show ?case using Cons.prems(1) by (simp add: x)
qed simp

lemma headers_upd:
  "headers m bs \<Longrightarrow> p \<notin> fst ` set bs \<Longrightarrow> headers (m(p \<mapsto> x)) bs"
  by (erule headers_cong) force

lemma headers_addr: "headers m bs \<Longrightarrow> (a, s, u) \<in> set bs \<Longrightarrow>
  \<exists>n. m a = Some \<lparr> blk_next = n, blk_used = u, blk_size = s, blk_address = a \<rparr>"
  by (induction m bs rule: headers.induct) auto

section \<open>Allocation refines first fit\<close>

lemma heap_search_loop_rep:
  assumes "headers m bs" "tiles lo hi bs" "lo mod 8 = 0" "hi + 40 < usize_bound" "n mod 8 = 0" "0 < n"
  shows "\<exists>m'. heap_search_loop m (first_addr bs) n
           = Some (map_option (\<lambda>(a, _). a + 32) (alloc_blocks n bs), m')
     \<and> headers m' (case alloc_blocks n bs of None \<Rightarrow> bs | Some (_, bs') \<Rightarrow> bs')
     \<and> (\<forall>x < lo. m' x = m x)"
  using assms
proof (induction bs arbitrary: lo)
  case Nil
  then show ?case by (simp add: heap_search_loop.simps)
next
  case (Cons x r)
  obtain a s u where x: "x = (a, s, u)" by (cases x)
  let ?b = "\<lparr> blk_next = first_addr r, blk_used = u, blk_size = s, blk_address = a \<rparr>"
  have t: "a = lo" "32 \<le> s" "s mod 8 = 0" "tiles (a + s) hi r" and m: "m a = Some ?b" "headers m r"
    using Cons.prems(1,2) by (auto simp: x)
  have le: "a + s \<le> hi" using tiles_le [OF t(4)] .
  have above: "a + s \<le> y" if "(y, v, w) \<in> set r" for y v w
    using tiles_addr [OF t(4) that] by simp
  have notin: "a \<notin> fst ` set r" using above t(2) by force
  have ca: "a + 32 < usize_bound" using le t(2) Cons.prems(4) by simp
  have al: "(a + s) mod 8 = 0" "(a + n) mod 8 = 0" using t(1,3) Cons.prems(3,5) by auto
  have ih: "\<exists>m'. heap_search_loop m (first_addr r) n = Some (map_option (\<lambda>(a, _). a + 32) (alloc_blocks n r), m')
     \<and> headers m' (case alloc_blocks n r of None \<Rightarrow> r | Some (_, bs') \<Rightarrow> bs') \<and> (\<forall>x < a + s. m' x = m x)"
    by (rule Cons.IH [OF m(2) t(4) al(1) Cons.prems(4-6)])
  have skip: "?case" if a: "alloc_blocks n (x # r) = map_option (\<lambda>(p, r'). (p, x # r')) (alloc_blocks n r)"
    and l: "heap_search_loop m (Some a) n = heap_search_loop m (first_addr r) n"
  proof -
    obtain m' where m': "heap_search_loop m (first_addr r) n = Some (map_option (\<lambda>(a, _). a + 32) (alloc_blocks n r), m')"
      "headers m' (case alloc_blocks n r of None \<Rightarrow> r | Some (_, bs') \<Rightarrow> bs')" "\<forall>x < a + s. m' x = m x"
      using ih by blast
    have "m' a = Some ?b" using m'(3) m(1) t(2) by simp
    then have "headers m' (case alloc_blocks n (x # r) of None \<Rightarrow> x # r | Some (_, bs') \<Rightarrow> bs')"
      using m'(2) first_addr_alloc [of n r] unfolding a unfolding x by (auto split: option.splits)
    moreover have "map_option (\<lambda>(a, _). a + 32) (alloc_blocks n r)
        = map_option (\<lambda>(a, _). a + 32) (alloc_blocks n (x # r))"
      unfolding a by (cases "alloc_blocks n r") auto
    moreover have "first_addr (x # r) = Some a" by (simp add: x)
    ultimately show ?thesis using m'(1,3) l t(1,2) by auto
  qed
  have first: "first_addr (x # r) = Some a" by (simp add: x)
  consider (exact) "\<not> u" "s = n" | (split) "\<not> u" "n + 32 \<le> s" | (small) "\<not> u" "n < s" "s < n + 32"
    | (other) "u \<or> s < n" by linarith
  then show ?case
  proof cases
    case exact
    have "heap_search_loop m (Some a) n = Some (Some (a + 32), m(a \<mapsto> ?b\<lparr>blk_used := True\<rparr>))"
      using exact m(1) ca by (subst heap_search_loop.simps) (simp add: checked_add_def BLOCK_SIZE_def)
    moreover have "headers (m(a \<mapsto> ?b\<lparr>blk_used := True\<rparr>)) r" by (rule headers_upd [OF m(2) notin])
    ultimately show ?thesis using exact t(1) unfolding first by (auto simp: x)
  next
    case split
    let ?r = "block_new (a + n) (s - n)"
    have al': "a + n + 8 < usize_bound" using le split(2) Cons.prems(4) by linarith
    have c: "create_block m (a + n) (s - n) = Some (Some (a + n), m(a + n \<mapsto> ?r))"
      using al(2) split(2) by (simp add: create_block_eq [OF al'])
    let ?m = "m(a + n \<mapsto> ?r\<lparr>blk_next := first_addr r\<rparr>, a \<mapsto> ?b\<lparr>blk_next := Some (a + n), blk_used := True, blk_size := n\<rparr>)"
    have l: "heap_search_loop m (Some a) n = Some (Some (a + 32), ?m)"
      using split m(1) ca c al' by (subst heap_search_loop.simps) (simp add: checked_add_def BLOCK_SIZE_def)
    have "headers ?m r"
    proof (intro headers_upd [OF _ notin] headers_upd [OF m(2)])
      show "a + n \<notin> fst ` set r" using above split(2) by force
    qed
    then show ?thesis
      using l split t(1) Cons.prems(6) unfolding first by (auto simp: x block_new_def)
  next
    case small
    have al': "a + n + 8 < usize_bound" using le small Cons.prems(4) by linarith
    have "create_block m (a + n) (s - n) = Some (None, m)"
      using small by (auto simp: create_block_eq [OF al'])
    then show ?thesis
      using small m(1) al' by (intro skip) (simp add: x, subst heap_search_loop.simps, simp add: checked_add_def)
  next
    case other
    show ?thesis
    proof (rule skip)
      show "heap_search_loop m (Some a) n = heap_search_loop m (first_addr r) n"
        using other m(1) by (subst heap_search_loop.simps) auto
    qed (use other in \<open>auto simp: x\<close>)
  qed
qed

lemma tiles_alloc:
  "tiles lo hi bs \<Longrightarrow> alloc_blocks n bs = Some (p, bs') \<Longrightarrow> n mod 8 = 0 \<Longrightarrow> 32 \<le> n \<Longrightarrow> tiles lo hi bs'"
proof (induction bs arbitrary: lo bs')
  case (Cons x r)
  obtain a s u where x: "x = (a, s, u)" by (cases x)
  have t: "a = lo" "32 \<le> s" "s mod 8 = 0" "tiles (a + s) hi r" using Cons.prems(1) by (auto simp: x)
  show ?case
  proof (cases "\<not> u \<and> (s = n \<or> n + 32 \<le> s)")
    case True
    have "(s - n) mod 8 = 0" using t(3) Cons.prems(3) by (metis dvd_diff_nat dvd_eq_mod_eq_0)
    then show ?thesis using True Cons.prems t by (auto simp: x)
  next
    case False
    then obtain r' where "alloc_blocks n r = Some (p, r')" "bs' = x # r'"
      using Cons.prems(2) by (auto simp: x split: if_splits)
    then show ?thesis using Cons.IH [OF t(4)] Cons.prems(3,4) t by (simp add: x)
  qed
qed simp

text \<open>The block list after a successful allocation: the chosen block is in use, the rest is kept.\<close>

lemma alloc_blocks_Some:
  assumes "alloc_blocks n bs = Some (p, bs')" "tiles lo hi bs" "0 < n"
  shows "(p, n, True) \<in> set bs' \<and> (\<exists>s. (p, s, False) \<in> set bs \<and> n \<le> s)
     \<and> (\<forall>a s. (a, s, True) \<in> set bs' \<longleftrightarrow> (a, s, True) \<in> set bs \<or> (a = p \<and> s = n))"
  using assms
proof (induction bs arbitrary: lo bs')
  case (Cons x r)
  obtain a s u where x: "x = (a, s, u)" by (cases x)
  have t: "a = lo" "32 \<le> s" "tiles (a + s) hi r" using Cons.prems(2) by (auto simp: x)
  show ?case
  proof (cases "\<not> u \<and> (s = n \<or> n + 32 \<le> s)")
    case True
    then show ?thesis using Cons.prems(1,3) by (auto simp: x split: if_splits)
  next
    case False
    then obtain r' where r: "alloc_blocks n r = Some (p, r')" "bs' = x # r'"
      using Cons.prems(1) by (auto simp: x split: if_splits)
    show ?thesis using Cons.IH [OF r(1) t(3) Cons.prems(3)] by (auto simp: r(2))
  qed
qed simp

lemma alloc_blocks_None:
  "alloc_blocks n bs = None \<Longrightarrow> (a, s, False) \<in> set bs \<Longrightarrow> s < n \<or> (n < s \<and> s < n + 32)"
  by (induction n bs rule: alloc_blocks.induct) (auto split: if_splits)

section \<open>Release\<close>

lemma merge_right_join:
  assumes "headers m ((a, s, u) # r)" "a \<notin> fst ` set r" "\<forall>(b, t, v) \<in> set r. s + t < usize_bound"
  shows "\<exists>m'. merge_right m a = Some m' \<and> headers m' (join ((a, s, u) # r)) \<and> (\<forall>x. x \<noteq> a \<longrightarrow> m' x = m x)"
proof (cases r)
  case Nil
  then show ?thesis using assms(1) by (simp add: merge_right_def)
next
  case (Cons y q)
  obtain b t v where y: "y = (b, t, v)" by (cases y)
  have m: "m a = Some \<lparr> blk_next = Some b, blk_used = u, blk_size = s, blk_address = a \<rparr>"
    "m b = Some \<lparr> blk_next = first_addr q, blk_used = v, blk_size = t, blk_address = b \<rparr>" "headers m q"
    using assms(1) by (auto simp: Cons y)
  show ?thesis
  proof (cases v)
    case True
    then show ?thesis using m assms(1) by (simp add: merge_right_def Cons y)
  next
    case False
    let ?b = "\<lparr> blk_next = first_addr q, blk_used = u, blk_size = s + t, blk_address = a \<rparr>"
    have "s + t < usize_bound" using assms(3) by (simp add: Cons y)
    moreover have "blk_address (the (m c)) = c \<and> m c \<noteq> None" if "first_addr q = Some c" for c
      using that m(3) by (cases q rule: first_addr.cases) auto
    ultimately have "merge_right m a = Some (m(a \<mapsto> ?b))"
      using m False by (auto simp: merge_right_def checked_add_def split: option.splits)
    moreover have "headers (m(a \<mapsto> ?b)) q"
      using assms(2) by (intro headers_upd [OF m(3)]) (auto simp: Cons)
    ultimately show ?thesis using False by (simp add: Cons y)
  qed
qed

lemma headers_join_head: "headers m (join ((a, s, u) # r)) \<Longrightarrow> \<exists>b. m a = Some b \<and> blk_address b = a"
  by (cases "(a, s, u) # r" rule: join.cases) auto

lemma release_rep:
  assumes "headers m bs" "tiles lo hi bs" "hi + 40 < usize_bound" "(p, s, u) \<in> set bs"
  shows "\<exists>b m'. m p = Some b \<and> merge_right (m(p \<mapsto> b\<lparr>blk_used := False\<rparr>)) p = Some m'
     \<and> headers m' (release p bs) \<and> (\<forall>x. x \<noteq> p \<longrightarrow> m' x = m x) \<and> (\<exists>b'. m' p = Some b' \<and> blk_address b' = p)"
  using assms
proof (induction bs arbitrary: lo)
  case (Cons x r)
  obtain a k v where x: "x = (a, k, v)" by (cases x)
  have t: "a = lo" "32 \<le> k" "tiles (a + k) hi r" "headers m r" using Cons.prems(1,2) by (auto simp: x)
  have above: "a + k \<le> y \<and> y + w \<le> hi" if "(y, w, z) \<in> set r" for y w z
    using tiles_addr [OF t(3) that] by simp
  have notin: "a \<notin> fst ` set r" using above t(2) by force
  show ?case
  proof (cases "a = p")
    case True
    let ?b = "\<lparr> blk_next = first_addr r, blk_used = v, blk_size = k, blk_address = a \<rparr>"
    let ?m = "m(a \<mapsto> ?b\<lparr>blk_used := False\<rparr>)"
    have m: "m a = Some ?b" using Cons.prems(1) by (simp add: x)
    have "headers ?m ((a, k, False) # r)" using headers_upd [OF t(4) notin] by simp
    moreover have "\<forall>(b, t, v) \<in> set r. k + t < usize_bound" using above Cons.prems(3) by fastforce
    ultimately obtain m' where m': "merge_right ?m a = Some m'" "headers m' (join ((a, k, False) # r))"
      "\<forall>x. x \<noteq> a \<longrightarrow> m' x = ?m x"
      using merge_right_join [of ?m a k False r] notin by blast
    moreover have "\<exists>b'. m' a = Some b' \<and> blk_address b' = a"
      by (rule headers_join_head [OF m'(2)])
    moreover have "\<forall>x. x \<noteq> a \<longrightarrow> m' x = m x" using m'(3) by simp
    moreover have "headers m' (release a ((a, k, v) # r))" using m'(2) by simp
    ultimately show ?thesis unfolding True [symmetric] x using m by blast
  next
    case False
    then have "(p, s, u) \<in> set r" using Cons.prems(4) by (auto simp: x)
    from Cons.IH [OF t(4,3) Cons.prems(3) this] obtain b m' where m': "m p = Some b"
      "merge_right (m(p \<mapsto> b\<lparr>blk_used := False\<rparr>)) p = Some m'" "headers m' (release p r)"
      "\<forall>x. x \<noteq> p \<longrightarrow> m' x = m x" "\<exists>b'. m' p = Some b' \<and> blk_address b' = p" by blast
    moreover have "headers m' (release p (x # r))"
    proof -
      have "m' a = m a" using m'(4) False by simp
      then show ?thesis using m'(3) False Cons.prems(1) by (simp add: x)
    qed
    ultimately show ?thesis by blast
  qed
qed simp

lemma tiles_join: "tiles lo hi bs \<Longrightarrow> tiles lo hi (join bs)"
  by (cases bs rule: join.cases) (auto simp: add.assoc)

lemma join_used: "(c, y, True) \<in> set (join ((a, k, u) # r)) \<longleftrightarrow>
    (c, y, True) \<in> set r \<or> (u \<and> (c, y) = (a, if join ((a, k, u) # r) = (a, k, u) # r then k else k + fst (snd (hd r))))"
  by (cases "(a, k, u) # r" rule: join.cases) auto

lemma release_used:
  assumes "tiles lo hi bs" "(p, s, True) \<in> set bs"
  shows "(\<forall>a k. (a, k, True) \<in> set (release p bs) \<longleftrightarrow> (a, k, True) \<in> set bs \<and> a \<noteq> p) \<and> tiles lo hi (release p bs)"
  using assms
proof (induction bs arbitrary: lo)
  case (Cons x r)
  obtain a k v where x: "x = (a, k, v)" by (cases x)
  have t: "a = lo" "32 \<le> k" "k mod 8 = 0" "tiles (a + k) hi r" using Cons.prems(1) by (auto simp: x)
  have notin: "(a, y, z) \<notin> set r" for y z using tiles_addr [OF t(4), of a y z] t(2) by auto
  show ?case
  proof (cases "a = p")
    case True
    have "tiles lo hi (join ((a, k, False) # r))" using t by (intro tiles_join) simp
    moreover have "(c, y, True) \<in> set (join ((a, k, False) # r)) \<longleftrightarrow> (c, y, True) \<in> set r" for c y
      using join_used [of c y a k False r] by simp
    ultimately show ?thesis using True notin by (auto simp: x)
  next
    case False
    then have "(p, s, True) \<in> set r" using Cons.prems(2) by (auto simp: x)
    then show ?thesis using Cons.IH [OF t(4)] False t by (auto simp: x)
  qed
qed simp

section \<open>Well-formed heaps\<close>

lemma block_align_size_SomeD:
  assumes "block_align_size l = Some (n, align)"
  shows "n mod 8 = 0" "lay_size l + 32 \<le> n"
proof -
  let ?a = "max (lay_align l) 8"
  have a: "is_power_of_two ?a" "lay_size l + (?a - 1) < 2 ^ 63"
    and n: "n = (lay_size l + ?a - 1) div ?a * ?a + 32"
    using assms by (auto simp: block_align_size_def layout_align_to_def pad_to_align_def BLOCK_ALIGN_def
        BLOCK_SIZE_def Let_def checked_add_def split: if_splits)
  obtain k where k: "?a = 2 ^ k" using a(1) by (auto simp: is_power_of_two_def)
  have "3 \<le> k"
  proof (rule ccontr)
    assume "\<not> 3 \<le> k"
    then have "(2::nat) ^ k \<le> 2 ^ 2" by (intro power_increasing) auto
    then show False using k by simp
  qed
  then have "8 dvd ?a" unfolding k using le_imp_power_dvd [of 3 k "2::nat"] by simp
  then have "8 dvd (lay_size l + ?a - 1) div ?a * ?a + 32" by (intro dvd_add) (auto intro: dvd_mult)
  then show "n mod 8 = 0" unfolding n by (rule dvd_imp_mod_0)
  have "lay_size l + ?a - 1 = (lay_size l + ?a - 1) div ?a * ?a + (lay_size l + ?a - 1) mod ?a"
    by (rule div_mult_mod_eq [symmetric])
  moreover have "(lay_size l + ?a - 1) mod ?a \<le> ?a - 1" by (intro less_Suc_eq_le [THEN iffD1]) simp
  ultimately have "lay_size l \<le> (lay_size l + ?a - 1) div ?a * ?a" by linarith
  then show "lay_size l + 32 \<le> n" unfolding n by simp
qed

lemma heap_alloc_rep:
  assumes "heap_rep h bs" "block_align_size l = Some (n, align)"
  shows "\<exists>h'. heap_alloc h l = Some (map_option (\<lambda>(a, _). a + 32) (alloc_blocks n bs), h')
     \<and> heap_rep h' (case alloc_blocks n bs of None \<Rightarrow> bs | Some (_, bs') \<Rightarrow> bs')
     \<and> heap_start h' = heap_start h \<and> heap_end h' = heap_end h"
proof -
  have n: "n mod 8 = 0" "0 < n" "32 \<le> n" using block_align_size_SomeD [OF assms(2)] by auto
  have h: "blk_next (heap_head h) = first_addr bs" "headers (heap_memory h) bs"
      "tiles (heap_start h) (heap_end h) bs" "heap_start h mod 8 = 0" "heap_end h + 40 < usize_bound"
    using assms(1) by (auto simp: heap_rep_def)
  obtain m' where m': "heap_search_loop (heap_memory h) (first_addr bs) n
       = Some (map_option (\<lambda>(a, _). a + 32) (alloc_blocks n bs), m')"
    "headers m' (case alloc_blocks n bs of None \<Rightarrow> bs | Some (_, bs') \<Rightarrow> bs')"
    using heap_search_loop_rep [OF h(2-5) n(1,2)] by blast
  have "heap_rep (h\<lparr>heap_memory := m'\<rparr>) (case alloc_blocks n bs of None \<Rightarrow> bs | Some (_, bs') \<Rightarrow> bs')"
    using assms(1) m'(2) tiles_alloc [OF h(3)] first_addr_alloc [of n bs] n
    by (auto simp: heap_rep_def split: option.splits)
  then show ?thesis
    using m'(1) h(1) assms(2) by (simp add: heap_alloc_def allocate_internal_def)
qed

lemma heap_dealloc_rep:
  assumes "heap_rep h bs" "(a, s, True) \<in> set bs"
  shows "\<exists>h'. heap_dealloc h (a + 32) l = Some h' \<and> heap_rep h' (release a bs)
     \<and> heap_start h' = heap_start h \<and> heap_end h' = heap_end h"
proof -
  have h: "headers (heap_memory h) bs" "tiles (heap_start h) (heap_end h) bs" "heap_end h + 40 < usize_bound"
      "blk_address (heap_head h) = 0"
    using assms(1) by (auto simp: heap_rep_def)
  obtain b m' b' where m': "heap_memory h a = Some b"
    "merge_right ((heap_memory h)(a \<mapsto> b\<lparr>blk_used := False\<rparr>)) a = Some m'" "headers m' (release a bs)"
    "m' a = Some b'"
    using release_rep [OF h(1-3) assms(2)] by metis
  have "heap_rep (h\<lparr>heap_memory := m'\<rparr>) (release a bs)"
    using assms(1) m'(3) release_used [OF h(2) assms(2)] by (auto simp: heap_rep_def)
  then show ?thesis
    using m' h(4) by (simp add: heap_dealloc_def dealloc_internal_def BLOCK_SIZE_def checked_sub_def)
qed

lemma init_heap_rep:
  "\<exists>h. init_heap = Some h \<and> heap_rep h [(HEAP_START, HEAP_SIZE, False)]
     \<and> heap_start h = HEAP_START \<and> heap_end h = HEAP_START + HEAP_SIZE"
proof -
  have "create_block Map.empty HEAP_START HEAP_SIZE
      = Some (Some HEAP_START, [HEAP_START \<mapsto> block_new HEAP_START HEAP_SIZE])"
    by (subst create_block_eq) (simp_all add: HEAP_START_def HEAP_SIZE_def usize_bound_def)
  then show ?thesis
    by (simp add: init_heap_def heap_init_def heap_empty_def heap_rep_def block_new_def checked_sub_def)
       (simp add: HEAP_START_def HEAP_SIZE_def usize_bound_def)
qed

section \<open>Runs of the heap\<close>

text \<open>
  Sequences of heap operations.  \<open>live\<close> are the pointers that have been handed out and not been
  returned, with their layouts.  Between the calls the owners of the live allocations may overwrite
  their memory, and with it whatever stale headers the store still holds there.
\<close>

inductive heap_run :: "linked_list_heap \<Rightarrow> (nat \<rightharpoonup> layout) \<Rightarrow> bool" where
  run_init: "init_heap = Some h \<Longrightarrow> heap_run h Map.empty"
| run_alloc: "heap_run h live \<Longrightarrow> heap_alloc h l = Some (Some p, h') \<Longrightarrow> heap_run h' (live(p \<mapsto> l))"
| run_out_of_memory: "heap_run h live \<Longrightarrow> heap_alloc h l = Some (None, h') \<Longrightarrow> heap_run h' live"
| run_dealloc: "heap_run h live \<Longrightarrow> live p = Some l \<Longrightarrow> heap_dealloc h p l = Some h' \<Longrightarrow> heap_run h' (live(p := None))"
| run_write: "heap_run h live \<Longrightarrow>
    (\<And>a. mem a \<noteq> heap_memory h a \<Longrightarrow> \<exists>p l. live p = Some l \<and> p < a + 32 \<and> a < p + lay_size l) \<Longrightarrow>
    heap_run (h\<lparr>heap_memory := mem\<rparr>) live"

definition live_blocks :: "(nat \<rightharpoonup> layout) \<Rightarrow> hblock list \<Rightarrow> bool" where
  "live_blocks live bs \<longleftrightarrow>
     (\<forall>p l. live p = Some l \<longrightarrow> (\<exists>a s. p = a + 32 \<and> (a, s, True) \<in> set bs \<and> lay_size l + 32 \<le> s))
     \<and> (\<forall>a s. (a, s, True) \<in> set bs \<longrightarrow> live (a + 32) \<noteq> None)"

lemma live_blocksD:
  assumes "live_blocks live bs" "live p = Some l"
  obtains a s where "p = a + 32" "(a, s, True) \<in> set bs" "lay_size l + 32 \<le> s"
  using assms unfolding live_blocks_def by blast

lemma heap_run_rep:
  "heap_run h live \<Longrightarrow> \<exists>bs. heap_rep h bs \<and> live_blocks live bs
     \<and> heap_start h = HEAP_START \<and> heap_end h = HEAP_START + HEAP_SIZE"
proof (induction rule: heap_run.induct)
  case (run_init h)
  have "heap_rep h [(HEAP_START, HEAP_SIZE, False)] \<and> heap_start h = HEAP_START
      \<and> heap_end h = HEAP_START + HEAP_SIZE"
    using init_heap_rep unfolding run_init by simp
  then show ?case by (intro exI [of _ "[(HEAP_START, HEAP_SIZE, False)]"]) (simp add: live_blocks_def)
next
  case (run_alloc h live l p h')
  then obtain bs where bs: "heap_rep h bs" "live_blocks live bs" "heap_start h = HEAP_START" "heap_end h = HEAP_START + HEAP_SIZE"
    by blast
  obtain n align where n: "block_align_size l = Some (n, align)"
    using run_alloc.hyps(2) by (auto simp: heap_alloc_def split: Option.bind_splits)
  have t: "tiles (heap_start h) (heap_end h) bs" using bs(1) by (simp add: heap_rep_def)
  obtain a bs' where a: "alloc_blocks n bs = Some (a, bs')" "p = a + 32"
    using heap_alloc_rep [OF bs(1) n] run_alloc.hyps(2) by (cases "alloc_blocks n bs") auto
  have rep: "heap_rep h' bs'" "heap_start h' = heap_start h" "heap_end h' = heap_end h"
    using heap_alloc_rep [OF bs(1) n] run_alloc.hyps(2) a(1) by auto
  have len: "lay_size l + 32 \<le> n" "0 < n" using block_align_size_SomeD [OF n] by auto
  note u = alloc_blocks_Some [OF a(1) t len(2)]
  have "live_blocks (live(p \<mapsto> l)) bs'"
    unfolding live_blocks_def
  proof (intro conjI allI impI)
    fix q k
    assume q: "(live(p \<mapsto> l)) q = Some k"
    show "\<exists>a s. q = a + 32 \<and> (a, s, True) \<in> set bs' \<and> lay_size k + 32 \<le> s"
    proof (cases "q = p")
      case True
      then show ?thesis using q u len(1) a(2) by (intro exI [of _ a] exI [of _ n]) simp
    next
      case False
      then have "live q = Some k" using q by simp
      with bs(2) obtain b s where "q = b + 32" "(b, s, True) \<in> set bs" "lay_size k + 32 \<le> s"
        by (rule live_blocksD)
      then show ?thesis using u by blast
    qed
  next
    fix b s
    assume "(b, s, True) \<in> set bs'"
    then have "(b, s, True) \<in> set bs \<or> b = a" using u by blast
    then show "(live(p \<mapsto> l)) (b + 32) \<noteq> None" using bs(2) a(2) by (auto simp: live_blocks_def)
  qed
  moreover have "heap_start h' = HEAP_START" "heap_end h' = HEAP_START + HEAP_SIZE" using rep(2,3) bs(3,4) by simp_all
  ultimately show ?case using rep(1) by blast
next
  case (run_out_of_memory h live l h')
  then obtain bs where bs: "heap_rep h bs" "live_blocks live bs" "heap_start h = HEAP_START" "heap_end h = HEAP_START + HEAP_SIZE"
    by blast
  obtain n align where n: "block_align_size l = Some (n, align)"
    using run_out_of_memory.hyps(2) by (auto simp: heap_alloc_def split: Option.bind_splits)
  show ?case
    using heap_alloc_rep [OF bs(1) n] run_out_of_memory.hyps(2) bs(2-4) by (auto split: option.splits)
next
  case (run_dealloc h live p l h')
  then obtain bs where bs: "heap_rep h bs" "live_blocks live bs" "heap_start h = HEAP_START" "heap_end h = HEAP_START + HEAP_SIZE"
    by blast
  obtain a s where a: "p = a + 32" "(a, s, True) \<in> set bs"
    by (rule live_blocksD [OF bs(2) run_dealloc.hyps(2)])
  have t: "tiles (heap_start h) (heap_end h) bs" using bs(1) by (simp add: heap_rep_def)
  note u = release_used [OF t a(2), THEN conjunct1]
  have "live_blocks (live(p := None)) (release a bs)"
    unfolding live_blocks_def
  proof (intro conjI allI impI)
    fix q k
    assume "(live(p := None)) q = Some k"
    then have q: "live q = Some k" "q \<noteq> p" by (auto split: if_splits)
    obtain b r where "q = b + 32" "(b, r, True) \<in> set bs" "lay_size k + 32 \<le> r"
      by (rule live_blocksD [OF bs(2) q(1)])
    then show "\<exists>a' s. q = a' + 32 \<and> (a', s, True) \<in> set (release a bs) \<and> lay_size k + 32 \<le> s"
      using u q(2) a(1) by blast
  next
    fix b r
    assume "(b, r, True) \<in> set (release a bs)"
    then have "(b, r, True) \<in> set bs" "b \<noteq> a" using u by blast+
    then show "(live(p := None)) (b + 32) \<noteq> None" using bs(2) a(1) by (auto simp: live_blocks_def)
  qed
  moreover have "heap_rep h' (release a bs)" "heap_start h' = HEAP_START" "heap_end h' = HEAP_START + HEAP_SIZE"
    using heap_dealloc_rep [OF bs(1) a(2), of l] run_dealloc.hyps(3) bs(3,4) unfolding a(1) by auto
  ultimately show ?case by blast
next
  case (run_write h live mem)
  then obtain bs where bs: "heap_rep h bs" "live_blocks live bs" "heap_start h = HEAP_START" "heap_end h = HEAP_START + HEAP_SIZE"
    by blast
  have t: "tiles (heap_start h) (heap_end h) bs" using bs(1) by (simp add: heap_rep_def)
  have "headers mem bs"
  proof (rule headers_cong)
    show "headers (heap_memory h) bs" using bs(1) by (simp add: heap_rep_def)
    fix a s u
    assume a: "(a, s, u) \<in> set bs"
    show "mem a = heap_memory h a"
    proof (rule ccontr)
      assume "mem a \<noteq> heap_memory h a"
      then obtain p l where p: "live p = Some l" "p < a + 32" "a < p + lay_size l" using run_write.hyps(2) by blast
      then obtain b k where b: "p = b + 32" "(b, k, True) \<in> set bs" "lay_size l + 32 \<le> k"
        by (elim live_blocksD [OF bs(2)])
      show False
        using tiles_disjoint [OF t a b(2)] tiles_addr [OF t a] p b(1,3) by auto
    qed
  qed
  then show ?case using bs by (intro exI [of _ bs]) (simp add: heap_rep_def)
qed

section \<open>Properties\<close>

text \<open>
  C3.  Live allocations never overlap.  In every state the heap can reach from \<open>init_heap\<close> by
  allocations, releases of live pointers and writes into live memory, every live pointer is 8-byte
  aligned, its memory lies inside the heap behind a block header, and the memory of two live
  pointers is disjoint, block headers included.
\<close>

theorem live_allocations_disjoint:
  assumes "heap_run h live" "live p = Some l"
  shows "p mod 8 = 0 \<and> HEAP_START + 32 \<le> p \<and> p + lay_size l \<le> HEAP_START + HEAP_SIZE
     \<and> (\<forall>q k. live q = Some k \<and> q \<noteq> p \<longrightarrow> p + lay_size l + 32 \<le> q \<or> q + lay_size k + 32 \<le> p)"
proof -
  obtain bs where bs: "heap_rep h bs" "live_blocks live bs" "heap_start h = HEAP_START" "heap_end h = HEAP_START + HEAP_SIZE"
    using heap_run_rep [OF assms(1)] by blast
  have t: "tiles HEAP_START (HEAP_START + HEAP_SIZE) bs" using bs by (simp add: heap_rep_def)
  obtain a s where a: "p = a + 32" "(a, s, True) \<in> set bs" "lay_size l + 32 \<le> s"
    by (rule live_blocksD [OF bs(2) assms(2)])
  note ta = tiles_addr [OF t a(2)]
  have "8 dvd a" using ta by (simp add: dvd_eq_mod_eq_0 HEAP_START_def)
  then have "p mod 8 = 0" unfolding a(1) by (simp add: dvd_add)
  moreover have "p + lay_size l + 32 \<le> q \<or> q + lay_size k + 32 \<le> p" if q: "live q = Some k" "q \<noteq> p" for q k
  proof -
    obtain b r where b: "q = b + 32" "(b, r, True) \<in> set bs" "lay_size k + 32 \<le> r"
      by (rule live_blocksD [OF bs(2) q(1)])
    show ?thesis using tiles_disjoint [OF t a(2) b(2)] a b q(2) by auto
  qed
  moreover have "HEAP_START + 32 \<le> p" "p + lay_size l \<le> HEAP_START + HEAP_SIZE" using ta a by linarith+
  ultimately show ?thesis by blast
qed

theorem live_allocations_disjoint_witness:
  "\<exists>h p. heap_run h [p \<mapsto> \<lparr> lay_size = 100, lay_align = 4 \<rparr>] \<and> p mod 8 = 0 \<and> HEAP_START + 32 \<le> p"
proof -
  let ?l = "\<lparr> lay_size = 100, lay_align = 4 \<rparr>"
  obtain h where h: "init_heap = Some h" "heap_rep h [(HEAP_START, HEAP_SIZE, False)]"
    using init_heap_rep by blast
  have b: "block_align_size ?l = Some (136, 8)"
    by (simp add: block_align_size_def layout_align_to_def pad_to_align_def BLOCK_ALIGN_def BLOCK_SIZE_def
        checked_add_def usize_bound_def)
  have "alloc_blocks 136 [(HEAP_START, HEAP_SIZE, False)]
      = Some (HEAP_START, [(HEAP_START, 136, True), (HEAP_START + 136, HEAP_SIZE - 136, False)])"
    by (simp add: HEAP_SIZE_def)
  then obtain h' where "heap_alloc h ?l = Some (Some (HEAP_START + 32), h')"
    using heap_alloc_rep [OF h(2) b] by auto
  then have r: "heap_run h' [HEAP_START + 32 \<mapsto> ?l]" using run_alloc [OF run_init [OF h(1)]] by blast
  have "(HEAP_START + 32) mod 8 = 0 \<and> HEAP_START + 32 \<le> HEAP_START + 32"
    using live_allocations_disjoint [OF r, of "HEAP_START + 32" ?l] by simp
  then show ?thesis
    by (intro exI [of _ h'] exI [of _ "HEAP_START + 32"] conjI r) simp_all
qed

text \<open>
  C31.  The heap never gets stuck.  In every reachable state an allocation with a valid layout
  returns, and it reports the end of memory only when no free block has exactly the needed size or
  is larger by at least one block header; releasing a live pointer returns as well.
\<close>

theorem heap_never_stuck:
  assumes "heap_run h live"
  shows "(\<forall>l n align. block_align_size l = Some (n, align) \<longrightarrow>
            (\<exists>r h'. heap_alloc h l = Some (r, h')
               \<and> (r = None \<longrightarrow> (\<exists>bs. heap_rep h bs \<and> (\<forall>a s. (a, s, False) \<in> set bs \<longrightarrow> s \<noteq> n \<and> s < n + 32)))))
     \<and> (\<forall>p l. live p = Some l \<longrightarrow> (\<exists>h'. heap_dealloc h p l = Some h'))"
proof -
  obtain bs where bs: "heap_rep h bs" "live_blocks live bs" using heap_run_rep [OF assms] by blast
  have "\<exists>r h'. heap_alloc h l = Some (r, h')
      \<and> (r = None \<longrightarrow> (\<exists>bs. heap_rep h bs \<and> (\<forall>a s. (a, s, False) \<in> set bs \<longrightarrow> s \<noteq> n \<and> s < n + 32)))"
    if n: "block_align_size l = Some (n, align)" for l n align
  proof -
    have "alloc_blocks n bs = None \<Longrightarrow> \<forall>a s. (a, s, False) \<in> set bs \<longrightarrow> s \<noteq> n \<and> s < n + 32"
      using alloc_blocks_None [of n bs] by fastforce
    then show ?thesis using heap_alloc_rep [OF bs(1) n] bs(1) by (cases "alloc_blocks n bs") auto
  qed
  moreover have "\<exists>h'. heap_dealloc h p l = Some h'" if p: "live p = Some l" for p l
  proof -
    obtain a s where "p = a + 32" "(a, s, True) \<in> set bs" by (rule live_blocksD [OF bs(2) p])
    then show ?thesis using heap_dealloc_rep [OF bs(1), of a s l] by blast
  qed
  ultimately show ?thesis by blast
qed

theorem heap_never_stuck_witness:
  "\<exists>h r h'. init_heap = Some h \<and> heap_alloc h \<lparr> lay_size = 8, lay_align = 8 \<rparr> = Some (r, h')"
proof -
  obtain h where h: "init_heap = Some h" using init_heap_rep by blast
  have "block_align_size \<lparr> lay_size = 8, lay_align = 8 \<rparr> = Some (40, 8)"
    by (simp add: block_align_size_def layout_align_to_def pad_to_align_def BLOCK_ALIGN_def BLOCK_SIZE_def
        checked_add_def usize_bound_def)
  then show ?thesis using heap_never_stuck [OF run_init [OF h]] h by blast
qed

text \<open>
  The requested alignment is ignored.  The first allocation of a page-sized, page-aligned
  buffer from the fresh heap is not page aligned.
\<close>

lemma alignment_not_honoured:
  "\<exists>h h' p. init_heap = Some h \<and> heap_alloc h \<lparr> lay_size = 4096, lay_align = 4096 \<rparr> = Some (Some p, h')
     \<and> p mod 4096 \<noteq> 0"
proof -
  let ?l = "\<lparr> lay_size = 4096, lay_align = 4096 \<rparr>"
  obtain h where h: "init_heap = Some h" "heap_rep h [(HEAP_START, HEAP_SIZE, False)]"
    using init_heap_rep by blast
  have "is_power_of_two (2 ^ 12)" unfolding is_power_of_two_exp by simp
  then have b: "block_align_size ?l = Some (4128, 4096)"
    by (simp add: block_align_size_def layout_align_to_def pad_to_align_def BLOCK_ALIGN_def BLOCK_SIZE_def
        checked_add_def usize_bound_def)
  have "alloc_blocks 4128 [(HEAP_START, HEAP_SIZE, False)]
      = Some (HEAP_START, [(HEAP_START, 4128, True), (HEAP_START + 4128, HEAP_SIZE - 4128, False)])"
    by (simp add: HEAP_SIZE_def)
  then obtain h' where "heap_alloc h ?l = Some (Some (HEAP_START + 32), h')"
    using heap_alloc_rep [OF h(2) b] by auto
  then show ?thesis using h(1) by (intro exI [of _ h] exI [of _ h'] exI [of _ "HEAP_START + 32"]) (simp add: HEAP_START_def)
qed

text \<open>
  Rounding.  For a power-of-two alignment, \<open>align_down\<close> is the greatest multiple of it that is
  not above the address and \<open>align_up\<close> the smallest one that is not below.
\<close>

lemma align_bounds:
  assumes "k < 64" "a + 2 ^ k < usize_bound"
  shows "\<exists>d u. align_down a (2 ^ k) = Some d \<and> align_up a (2 ^ k) = Some u
     \<and> 2 ^ k dvd d \<and> d \<le> a \<and> a < d + 2 ^ k \<and> 2 ^ k dvd u \<and> a \<le> u \<and> u < a + 2 ^ k"
proof -
  let ?m = "(2::nat) ^ k"
  have "align_down a ?m = Some (a div ?m * ?m)"
    using align_down_exp [of a k] assms by (simp add: minus_mod_eq_div_mult)
  moreover have "align_up a ?m = Some ((a + (?m - 1)) div ?m * ?m)" using align_up_exp [OF assms(2,1)] .
  moreover have "a = a div ?m * ?m + a mod ?m" "a mod ?m < ?m" by (rule div_mult_mod_eq [symmetric]) simp
  moreover have "a + (?m - 1) = (a + (?m - 1)) div ?m * ?m + (a + (?m - 1)) mod ?m" "(a + (?m - 1)) mod ?m < ?m"
    by (rule div_mult_mod_eq [symmetric]) simp
  moreover have "0 < ?m" by simp
  ultimately show ?thesis by (intro exI conjI) (assumption, assumption, simp, linarith, linarith, simp, linarith, linarith)
qed

end
