(* ===== verification/Paths.thy ===== *)
theory Paths
  imports Rust_Str
begin

text \<open>
  Paths and path lookup (\<open>src/fs/fs.rs\<close>): normalisation of a path into components and the
  lookup methods that the \<open>Directory\<close> trait derives from \<open>list_dir\<close>.  The trait is a record of the
  operations an implementation provides; the state \<open>'s\<close> is what \<open>list_dir\<close> works on, and \<open>None\<close> is a
  listing that does not return.

  The lemmas show the normal form of normalised paths and how normalisation and lookup compose.
\<close>

section \<open>Normalisation\<close>


definition normalize_step :: "ustr list \<Rightarrow> ustr \<Rightarrow> ustr list" where
  "normalize_step components component =
     (if component = [] \<or> component = lit ''.'' then components
      else if component = lit ''..'' then
        (if components = [] \<or> last components = lit ''..'' then components @ [component]
         else butlast components)
      else components @ [component])"

definition normalize_path_components :: "ustr \<Rightarrow> ustr list" where
  "normalize_path_components path = fold (\<lambda>c cs. normalize_step cs c) (split_on 47 path) []"

section \<open>Lookup in a directory\<close>

record ('d, 'f, 's) directory_ops =
  op_list_dir :: "'s \<Rightarrow> 'd \<Rightarrow> (('d list \<times> 'f list) \<times> 's) option"
  op_dir_name :: "'d \<Rightarrow> ustr"
  op_file_name :: "'f \<Rightarrow> ustr"

definition find_directory ::
  "('d, 'f, 's) directory_ops \<Rightarrow> 's \<Rightarrow> 'd \<Rightarrow> ustr \<Rightarrow> ('d option \<times> 's) option" where
  "find_directory ops s dir name = do {
     ((dirs, files), s) \<leftarrow> op_list_dir ops s dir;
     Some (List.find (\<lambda>d. eq_ignore_ascii_case (op_dir_name ops d) name) dirs, s)
   }"

definition find_file ::
  "('d, 'f, 's) directory_ops \<Rightarrow> 's \<Rightarrow> 'd \<Rightarrow> ustr \<Rightarrow> ('f option \<times> 's) option" where
  "find_file ops s dir name = do {
     ((dirs, files), s) \<leftarrow> op_list_dir ops s dir;
     Some (List.find (\<lambda>f. eq_ignore_ascii_case (op_file_name ops f) name) files, s)
   }"

fun find_directory_components ::
  "('d, 'f, 's) directory_ops \<Rightarrow> 's \<Rightarrow> 'd \<Rightarrow> ustr list \<Rightarrow> ('d option \<times> 's) option" where
  "find_directory_components ops s dir [] = Some (None, s)"
| "find_directory_components ops s dir (next # rest) = do {
     (r, s) \<leftarrow> find_directory ops s dir next;
     case r of
       None \<Rightarrow> Some (None, s)
     | Some d \<Rightarrow> if rest = [] then Some (Some d, s) else find_directory_components ops s d rest
   }"

fun find_file_components ::
  "('d, 'f, 's) directory_ops \<Rightarrow> 's \<Rightarrow> 'd \<Rightarrow> ustr list \<Rightarrow> ('f option \<times> 's) option" where
  "find_file_components ops s dir [] = Some (None, s)"
| "find_file_components ops s dir (next # rest) =
     (if rest = [] then find_file ops s dir next
      else do {
        (r, s) \<leftarrow> find_directory ops s dir next;
        case r of
          None \<Rightarrow> Some (None, s)
        | Some d \<Rightarrow> find_file_components ops s d rest
      })"

definition find_directory_recursive ::
  "('d, 'f, 's) directory_ops \<Rightarrow> 's \<Rightarrow> 'd \<Rightarrow> ustr \<Rightarrow> ('d option \<times> 's) option" where
  "find_directory_recursive ops s dir path = find_directory_components ops s dir (normalize_path_components path)"

definition find_file_recursive ::
  "('d, 'f, 's) directory_ops \<Rightarrow> 's \<Rightarrow> 'd \<Rightarrow> ustr \<Rightarrow> ('f option \<times> 's) option" where
  "find_file_recursive ops s dir path = find_file_components ops s dir (normalize_path_components path)"

section \<open>The normal form\<close>

text \<open>A normalised path: some \<open>..\<close> in front, then proper names; no component contains a slash.\<close>

definition proper_name :: "ustr \<Rightarrow> bool" where
  "proper_name c \<longleftrightarrow> c \<noteq> [] \<and> c \<noteq> lit ''.'' \<and> c \<noteq> lit ''..'' \<and> 47 \<notin> set c"

definition normal_path :: "ustr list \<Rightarrow> bool" where
  "normal_path cs \<longleftrightarrow> (\<exists>k ns. cs = replicate k (lit ''..'') @ ns \<and> (\<forall>n \<in> set ns. proper_name n))"

lemma lit_dots [simp]:
  "lit ''.'' = [46]" "lit ''..'' = [46, 46]" "lit ''/'' = [47]"
  by (simp_all add: lit_def)

lemma proper_name_dots [simp]: "\<not> proper_name []" "\<not> proper_name [46]" "\<not> proper_name [46, 46]"
  by (simp_all add: proper_name_def)

lemma normal_path_Nil [simp]: "normal_path []"
  by (simp add: normal_path_def)

lemma normal_pathI: "\<forall>n \<in> set ns. proper_name n \<Longrightarrow> normal_path (replicate k [46, 46] @ ns)"
  unfolding normal_path_def lit_dots by blast

lemma normal_path_step:
  assumes "normal_path cs" "47 \<notin> set c"
  shows "normal_path (normalize_step cs c)"
proof -
  obtain k ns where cs: "cs = replicate k [46, 46] @ ns" and ns: "\<forall>n \<in> set ns. proper_name n"
    using assms(1) by (auto simp: normal_path_def)
  consider (skip) "c = [] \<or> c = [46]" | (up) "c = [46, 46]" | (name) "proper_name c"
    using assms(2) by (auto simp: proper_name_def)
  then show ?thesis
  proof cases
    case skip
    then show ?thesis using assms(1) by (simp add: normalize_step_def)
  next
    case up
    show ?thesis
    proof (cases ns rule: rev_cases)
      case Nil
      then have "normalize_step cs c = replicate (Suc k) [46, 46] @ []"
        using up cs by (cases k) (simp_all add: normalize_step_def replicate_append_same [symmetric])
      then show ?thesis using normal_pathI [of "[]" "Suc k"] by simp
    next
      case (snoc ms m)
      then have "m \<noteq> [46, 46]" using ns by (auto simp: proper_name_def)
      then have "normalize_step cs c = replicate k [46, 46] @ ms"
        using up cs snoc by (simp add: normalize_step_def butlast_append)
      then show ?thesis using ns snoc by (auto intro: normal_pathI)
    qed
  next
    case name
    then have "normalize_step cs c = replicate k [46, 46] @ (ns @ [c])"
      using cs by (auto simp: normalize_step_def proper_name_def)
    then show ?thesis using ns name normal_pathI [of "ns @ [c]" k] by simp
  qed
qed

lemma fold_normalize:
  assumes "normal_path cs" "\<forall>c \<in> set ds. 47 \<notin> set c"
  shows "normal_path (fold (\<lambda>c cs. normalize_step cs c) ds cs)"
  using assms by (induction ds arbitrary: cs) (auto intro: normal_path_step)

lemma normalize_normal [simp, intro]: "normal_path (normalize_path_components p)"
  unfolding normalize_path_components_def by (rule fold_normalize) (auto dest: split_on_parts)

text \<open>Normalising the components of a normalised path changes nothing.\<close>

lemma fold_normal_names:
  "\<forall>n \<in> set ns. proper_name n \<Longrightarrow> fold (\<lambda>c cs. normalize_step cs c) ns cs = cs @ ns"
  by (induction ns arbitrary: cs) (auto simp: normalize_step_def proper_name_def)

lemma fold_normal_ups:
  "fold (\<lambda>c cs. normalize_step cs c) (replicate k [46, 46]) (replicate j [46, 46]) = replicate (j + k) [46, 46]"
proof (induction k arbitrary: j)
  case (Suc k)
  have "normalize_step (replicate j [46, 46]) [46, 46] = replicate (Suc j) [46, 46]"
    by (cases j) (simp_all add: normalize_step_def replicate_append_same [symmetric])
  then show ?case using Suc [of "Suc j"] by simp
qed simp

lemma fold_normal:
  assumes "normal_path cs"
  shows "fold (\<lambda>c cs. normalize_step cs c) cs [] = cs"
proof -
  obtain k ns where cs: "cs = replicate k [46, 46] @ ns" and ns: "\<forall>n \<in> set ns. proper_name n"
    using assms by (auto simp: normal_path_def)
  have "fold (\<lambda>c cs. normalize_step cs c) (replicate k [46, 46]) [] = replicate k [46, 46]"
    using fold_normal_ups [of k 0] by simp
  then show ?thesis unfolding cs fold_append comp_def by (simp only: fold_normal_names [OF ns])
qed

lemma normal_path_no_slash:
  assumes "normal_path cs" "c \<in> set cs"
  shows "47 \<notin> set c"
proof -
  obtain k ns where cs: "cs = replicate k [46, 46] @ ns" and ns: "\<forall>n \<in> set ns. proper_name n"
    using assms(1) by (auto simp: normal_path_def)
  have "c \<in> set (replicate k [46, 46]) \<or> c \<in> set ns" using assms(2) unfolding cs by simp
  then show ?thesis
  proof
    assume "c \<in> set (replicate k [46, 46])"
    then have "c = [46, 46]" by (rule in_set_replicate [THEN iffD1, THEN conjunct1])
    then show ?thesis by simp
  next
    assume "c \<in> set ns"
    with ns have "proper_name c" by blast
    then show ?thesis by (simp add: proper_name_def)
  qed
qed

lemma normalize_join:
  assumes "normal_path cs"
  shows "normalize_path_components (join_with 47 cs) = cs"
proof (cases "cs = []")
  case True
  then show ?thesis by (simp add: normalize_path_components_def normalize_step_def)
next
  case False
  have "split_on 47 (join_with 47 cs) = cs"
    using False normal_path_no_slash [OF assms] by (intro split_join) auto
  then show ?thesis by (simp add: normalize_path_components_def fold_normal [OF assms])
qed


section \<open>Lookup lemmas\<close>

lemma find_directory_components_append:
  assumes "ys \<noteq> []" "xs \<noteq> []"
  shows "find_directory_components ops s dir (xs @ ys) = do {
     (r, s) \<leftarrow> find_directory_components ops s dir xs;
     case r of None \<Rightarrow> Some (None, s) | Some d \<Rightarrow> find_directory_components ops s d ys
   }"
  using assms(2)
proof (induction xs arbitrary: s dir)
  case (Cons x xs)
  show ?case
  proof (cases "xs = []")
    case True
    then show ?thesis using assms(1)
      by (cases "find_directory ops s dir x") (auto split: option.splits)
  next
    case False
    then show ?thesis using Cons.IH
      by (cases "find_directory ops s dir x") (auto split: option.splits)
  qed
qed simp

lemma find_file_components_append:
  assumes "ys \<noteq> []" "xs \<noteq> []"
  shows "find_file_components ops s dir (xs @ ys) = do {
     (r, s) \<leftarrow> find_directory_components ops s dir xs;
     case r of None \<Rightarrow> Some (None, s) | Some d \<Rightarrow> find_file_components ops s d ys
   }"
  using assms(2)
proof (induction xs arbitrary: s dir)
  case (Cons x xs)
  show ?case
  proof (cases "xs = []")
    case True
    then show ?thesis using assms(1)
      by (cases "find_directory ops s dir x") (auto split: option.splits)
  next
    case False
    then show ?thesis using Cons.IH
      by (cases "find_directory ops s dir x") (auto split: option.splits)
  qed
qed simp

section \<open>Properties\<close>

text \<open>
  Normal form.  Normalisation yields \<open>..\<close> components only in front and otherwise proper names
  without slashes, and normalising the joined result again gives the same components.
\<close>

lemma normalize_normal_form:
  "normal_path (normalize_path_components p)
   \<and> normalize_path_components (join_with 47 (normalize_path_components p)) = normalize_path_components p"
  using normalize_join [OF normalize_normal] by blast


text \<open>
  Lookup composes.  Looking up a file or directory below a non-empty list of components is
  looking up the directory those components name and continuing there, in the state the first part
  of the lookup left behind.
\<close>

lemma lookup_composes:
  assumes "xs \<noteq> []" "ys \<noteq> []" "find_directory_components ops s dir xs = Some (Some d, s')"
  shows "find_file_components ops s dir (xs @ ys) = find_file_components ops s' d ys
     \<and> find_directory_components ops s dir (xs @ ys) = find_directory_components ops s' d ys"
  using assms by (simp add: find_file_components_append find_directory_components_append)

end
