(* ===== verification/Elf_Loader.thy ===== *)
theory Elf_Loader
  imports Rust_Str
begin

text \<open>
  The ELF loader (\<open>src/elf/loader.rs\<close>) and the parts of \<open>src/elf/mod.rs\<close> that do not touch page
  tables: the linked list of segments, the translation of segment flags, and the argument frame
  that is written onto a fresh user stack.

  The file is a region of memory, so a header that lies behind the end of the file reads whatever
  the memory holds there.  The outer \<open>None\<close> of a result is a panic, the inner one is Rust's \<open>None\<close>.
\<close>

section \<open>Data\<close>

record region =
  reg_addr :: nat
  reg_size :: nat

record stack =
  stk_top :: nat
  stk_bottom :: nat

datatype elf_region = ElfRegion (er_region: region) (er_next: "elf_region option") (er_flags: u32) (er_origin: region)

text \<open>\<open>last_region.lock().next = Some(..)\<close>, and the items of \<open>ElfRegionIterator\<close>.\<close>

definition set_next :: "elf_region \<Rightarrow> elf_region option \<Rightarrow> elf_region" where
  "set_next e n = ElfRegion (er_region e) n (er_flags e) (er_origin e)"

fun region_iter :: "elf_region \<Rightarrow> elf_region list" where
  "region_iter (ElfRegion r n f b) =
     ElfRegion r n f b # (case n of None \<Rightarrow> [] | Some e \<Rightarrow> region_iter e)"

record elf_header64 =
  eh_ident :: bytes
  eh_entry_addr :: nat
  eh_ph_offset :: nat
  eh_ph_entry_size :: nat
  eh_ph_num :: nat

record elf_program_header64 =
  ph_type :: nat
  ph_flags :: nat
  ph_offset :: nat
  ph_virt_addr :: nat
  ph_file_size :: nat
  ph_memory_size :: nat

record process_entry =
  pe_entry :: nat
  pe_start_region :: elf_region
  pe_ring3_page_table :: "nat option"
  pe_stack :: "stack option"
  pe_initial_rsp :: nat

text \<open>The fields the loader uses, read through a pointer to the \<open>repr(C)\<close> structures.\<close>

definition rd_le :: "memory \<Rightarrow> nat \<Rightarrow> nat \<Rightarrow> nat" where
  "rd_le mem a n = le_value (mem_read mem a n)"

definition elf_header64_at :: "memory \<Rightarrow> nat \<Rightarrow> elf_header64" where
  "elf_header64_at mem a =
     \<lparr> eh_ident = mem_read mem a 16, eh_entry_addr = rd_le mem (a + 24) 8, eh_ph_offset = rd_le mem (a + 32) 8,
       eh_ph_entry_size = rd_le mem (a + 54) 2, eh_ph_num = rd_le mem (a + 56) 2 \<rparr>"

definition elf_program_header64_at :: "memory \<Rightarrow> nat \<Rightarrow> elf_program_header64" where
  "elf_program_header64_at mem a =
     \<lparr> ph_type = rd_le mem a 4, ph_flags = rd_le mem (a + 4) 4, ph_offset = rd_le mem (a + 8) 8,
       ph_virt_addr = rd_le mem (a + 16) 8, ph_file_size = rd_le mem (a + 32) 8,
       ph_memory_size = rd_le mem (a + 40) 8 \<rparr>"

section \<open>Flags\<close>

definition PF_X :: u32 where "PF_X = 1"
definition PF_W :: u32 where "PF_W = 2"

definition PRESENT :: u64 where "PRESENT = 1"
definition WRITABLE :: u64 where "WRITABLE = 2"
definition RING3_ACCESSIBLE :: u64 where "RING3_ACCESSIBLE = 4"
definition HUGE_PAGE :: u64 where "HUGE_PAGE = 128"
definition NO_EXECUTE :: u64 where "NO_EXECUTE = 0x8000000000000000"

definition flags_contain :: "'a::len word \<Rightarrow> 'a word \<Rightarrow> bool" where
  "flags_contain f g \<longleftrightarrow> f AND g = g"

definition to_entry_flags :: "u32 \<Rightarrow> u64" where
  "to_entry_flags f =
     (let flags = 0;
          flags = (if f \<noteq> 0 then flags OR RING3_ACCESSIBLE else flags);
          flags = (if flags_contain f PF_W then flags OR WRITABLE else flags)
      in if \<not> flags_contain f PF_X then flags OR NO_EXECUTE else flags)"

section \<open>Program headers\<close>

text \<open>
  The loop over the program headers.  \<open>last_region\<close> is only assigned together with \<open>start_region\<close> and
  then refers to the same node, so every later segment becomes the successor of the first one.
  The index and the entry size are multiplied as 16-bit numbers.
\<close>

fun load_ph_loop ::
  "memory \<Rightarrow> region \<Rightarrow> elf_header64 \<Rightarrow> nat list \<Rightarrow> elf_region option \<Rightarrow> elf_region option option" where
  "load_ph_loop mem elf header [] start_region = Some start_region"
| "load_ph_loop mem elf header (i # is) start_region =
     (if 2 ^ 16 \<le> i * eh_ph_entry_size header then None
      else
        (let entry = elf_program_header64_at mem
                       (reg_addr elf + eh_ph_offset header + i * eh_ph_entry_size header)
         in if ph_type entry \<noteq> 1 then load_ph_loop mem elf header is start_region
            else if ph_memory_size entry = 0 then Some None
            else if ph_file_size entry > ph_memory_size entry then Some None
            else case checked_add (ph_offset entry) (ph_file_size entry) of
              None \<Rightarrow> Some None
            | Some ph_file_end \<Rightarrow>
                if ph_file_end > reg_size elf then Some None
                else
                  (let elf_region = ElfRegion \<lparr> reg_addr = ph_virt_addr entry, reg_size = ph_memory_size entry \<rparr> None
                                      (of_nat (ph_flags entry))
                                      \<lparr> reg_addr = reg_addr elf + ph_offset entry, reg_size = ph_file_size entry \<rparr>
                   in load_ph_loop mem elf header is
                        (case start_region of
                           Some last_region \<Rightarrow> Some (set_next last_region (Some elf_region))
                         | None \<Rightarrow> Some elf_region))))"

definition load_ph_headers :: "memory \<Rightarrow> elf_header64 \<Rightarrow> region \<Rightarrow> elf_region option option" where
  "load_ph_headers mem header elf =
     (case checked_mul (eh_ph_num header) (eh_ph_entry_size header) of
        None \<Rightarrow> Some None
      | Some ph_table_size \<Rightarrow>
          (case checked_add (eh_ph_offset header) ph_table_size of
             None \<Rightarrow> Some None
           | Some ph_table_end \<Rightarrow>
               if ph_table_end > reg_size elf then Some None
               else load_ph_loop mem elf header [0..<eh_ph_num header] None))"

definition elf_magic :: "bytes \<Rightarrow> u32" where
  "elf_magic ident =
     push_bit 24 (ucast (ident ! 0)) OR push_bit 16 (ucast (ident ! 1)) OR push_bit 8 (ucast (ident ! 2))
       OR ucast (ident ! 3)"

definition loader_load :: "memory \<Rightarrow> region \<Rightarrow> process_entry option option" where
  "loader_load mem elf =
     (if reg_size elf < 64 then Some None
      else
        (let header = elf_header64_at mem (reg_addr elf)
         in if elf_magic (eh_ident header) \<noteq> 0x7f454c46 then Some None
            else do {
              r \<leftarrow> load_ph_headers mem header elf;
              Some (map_option (\<lambda>start_region.
                      \<lparr> pe_entry = eh_entry_addr header, pe_start_region = start_region,
                        pe_ring3_page_table = None, pe_stack = None, pe_initial_rsp = 0 \<rparr>) r)
            }))"

section \<open>The argument frame\<close>

fun write_args :: "memory \<Rightarrow> nat \<Rightarrow> nat \<Rightarrow> nat \<Rightarrow> bytes list \<Rightarrow> memory" where
  "write_args mem frame index string_addr [] = mem"
| "write_args mem frame index string_addr (arg # args) =
     (let mem = mem_write mem (frame + 8 * (1 + index)) (le64 (of_nat string_addr));
          mem = mem_write mem string_addr arg;
          mem = mem_write mem (string_addr + length arg) [0]
      in write_args mem frame (index + 1) (string_addr + length arg + 1) args)"

definition string_bytes :: "bytes list \<Rightarrow> nat" where
  "string_bytes args = sum_list (map (\<lambda>arg. length arg + 1) args)"

definition write_args_frame :: "memory \<Rightarrow> stack \<Rightarrow> ustr list \<Rightarrow> (nat option \<times> memory) option" where
  "write_args_frame mem stack argv =
     (let args = map to_utf8 argv
      in if usize_bound \<le> string_bytes args then None
         else Some
           (case (do { strings_base \<leftarrow> checked_sub (stk_top stack) (string_bytes args);
                       frame_words \<leftarrow> checked_add (length args) 3;
                       frame_size \<leftarrow> checked_mul frame_words 8;
                       base \<leftarrow> checked_sub strings_base frame_size;
                       Some (strings_base, and_not base 0xF) }) of
              None \<Rightarrow> (None, mem)
            | Some (strings_base, frame_base) \<Rightarrow>
                if frame_base < stk_bottom stack then (None, mem)
                else
                  (let mem = mem_write mem frame_base (le64 (of_nat (length args)));
                       mem = write_args mem frame_base 0 strings_base args;
                       mem = mem_write mem (frame_base + 8 * (1 + length args)) (le64 0);
                       mem = mem_write mem (frame_base + 8 * (2 + length args)) (le64 0)
                   in (Some frame_base, mem))))"

section \<open>The segments the loader keeps\<close>

definition acceptable :: "region \<Rightarrow> elf_program_header64 \<Rightarrow> bool" where
  "acceptable elf h \<longleftrightarrow> 0 < ph_memory_size h \<and> ph_file_size h \<le> ph_memory_size h
     \<and> ph_offset h + ph_file_size h < usize_bound \<and> ph_offset h + ph_file_size h \<le> reg_size elf"

definition segment :: "region \<Rightarrow> elf_program_header64 \<Rightarrow> elf_region" where
  "segment elf h = ElfRegion \<lparr> reg_addr = ph_virt_addr h, reg_size = ph_memory_size h \<rparr> None (of_nat (ph_flags h))
                     \<lparr> reg_addr = reg_addr elf + ph_offset h, reg_size = ph_file_size h \<rparr>"

text \<open>The LOAD headers among the given indices.\<close>

definition load_headers :: "memory \<Rightarrow> region \<Rightarrow> elf_header64 \<Rightarrow> nat list \<Rightarrow> elf_program_header64 list" where
  "load_headers mem elf header is =
     filter (\<lambda>h. ph_type h = 1)
       (map (\<lambda>i. elf_program_header64_at mem (reg_addr elf + eh_ph_offset header + i * eh_ph_entry_size header)) is)"

fun link_segments :: "elf_region option \<Rightarrow> elf_region list \<Rightarrow> elf_region option" where
  "link_segments s [] = s"
| "link_segments None (e # es) = link_segments (Some e) es"
| "link_segments (Some f) (e # es) = link_segments (Some (set_next f (Some e))) es"

lemma load_ph_loop_eq:
  assumes "\<forall>i \<in> set is. i * eh_ph_entry_size header < 2 ^ 16"
  shows "load_ph_loop mem elf header is start =
    Some (if \<forall>h \<in> set (load_headers mem elf header is). acceptable elf h
          then link_segments start (map (segment elf) (load_headers mem elf header is)) else None)"
  using assms
proof (induction "is" arbitrary: start)
  case Nil
  then show ?case by (simp add: load_headers_def)
next
  case (Cons i "is")
  let ?h = "elf_program_header64_at mem (reg_addr elf + eh_ph_offset header + i * eh_ph_entry_size header)"
  have i: "i * eh_ph_entry_size header < 2 ^ 16" using Cons.prems by simp
  have ih: "load_ph_loop mem elf header is s =
    Some (if \<forall>h \<in> set (load_headers mem elf header is). acceptable elf h
          then link_segments s (map (segment elf) (load_headers mem elf header is)) else None)" for s
    using Cons by simp
  show ?case
  proof (cases "ph_type ?h = 1")
    case False
    then have "load_headers mem elf header (i # is) = load_headers mem elf header is"
      by (simp add: load_headers_def)
    then show ?thesis using i ih False by (simp only: load_ph_loop.simps) simp
  next
    case True
    have l: "load_headers mem elf header (i # is) = ?h # load_headers mem elf header is"
      using True by (simp add: load_headers_def)
    show ?thesis
    proof (cases "acceptable elf ?h")
      case False
      then have "load_ph_loop mem elf header (i # is) start = Some None"
        using i True by (auto simp: acceptable_def checked_add_def Let_def)
      then show ?thesis using False by (simp only: l) simp
    next
      case acc: True
      have "load_ph_loop mem elf header (i # is) start
          = load_ph_loop mem elf header is
              (case start of Some f \<Rightarrow> Some (set_next f (Some (segment elf ?h))) | None \<Rightarrow> Some (segment elf ?h))"
        using i True acc by (cases start) (simp_all add: acceptable_def checked_add_def segment_def Let_def)
      also have "\<dots> = Some (if \<forall>h \<in> set (load_headers mem elf header is). acceptable elf h
          then link_segments start (map (segment elf) (?h # load_headers mem elf header is)) else None)"
        unfolding ih by (cases start) simp_all
      finally show ?thesis unfolding l using acc by simp
    qed
  qed
qed

lemma set_next_simps [simp]:
  "er_region (set_next e n) = er_region e" "er_flags (set_next e n) = er_flags e" "er_origin (set_next e n) = er_origin e"
  "er_next (set_next e n) = n" "set_next (set_next e n) m = set_next e m"
  by (simp_all add: set_next_def)

lemma region_iter_eq: "region_iter e = e # (case er_next e of None \<Rightarrow> [] | Some n \<Rightarrow> region_iter n)"
  by (cases e) simp

lemma link_segments_Some:
  "link_segments (Some f) es = Some (if es = [] then f else set_next f (Some (last es)))"
  by (induction es arbitrary: f) auto

lemma link_segments_None:
  "link_segments None es = (case es of [] \<Rightarrow> None | e # r \<Rightarrow> Some (if r = [] then e else set_next e (Some (last r))))"
  by (cases es) (auto simp: link_segments_Some)

lemma segment_simps [simp]:
  "er_next (segment elf h) = None" "region_iter (segment elf h) = [segment elf h]"
  by (simp_all add: segment_def)

section \<open>The argument strings\<close>

lemma string_bytes_simps [simp]:
  "string_bytes [] = 0" "string_bytes (a # as) = length a + 1 + string_bytes as"
  by (simp_all add: string_bytes_def)

text \<open>Where the string of argument \<open>j\<close> starts.\<close>

lemma write_args_outside:
  assumes "x < frame + 8 * (1 + index) \<or> frame + 8 * (1 + index + length args) \<le> x" "x < sa \<or> sa + string_bytes args \<le> x"
  shows "write_args mem frame index sa args x = mem x"
  using assms
proof (induction args arbitrary: mem index sa)
  case (Cons a as)
  let ?m = "mem_write (mem_write (mem_write mem (frame + 8 * (1 + index)) (le64 (of_nat sa))) sa a) (sa + length a) [0]"
  have "write_args mem frame index sa (a # as) x = write_args ?m frame (index + 1) (sa + length a + 1) as x"
    by (simp only: write_args.simps Let_def)
  also have "\<dots> = ?m x" using Cons.prems by (intro Cons.IH) auto
  also have "\<dots> = mem x" using Cons.prems by (auto simp: mem_write_def)
  finally show ?case .
qed simp

lemma write_args_layout:
  assumes "frame + 8 * (1 + index + length args) \<le> sa" "sa + string_bytes args < usize_bound" "j < length args"
  shows "\<exists>p. sa \<le> p \<and> p + length (args ! j) < sa + string_bytes args
     \<and> rd_le (write_args mem frame index sa args) (frame + 8 * (1 + index + j)) 8 = p
     \<and> mem_read (write_args mem frame index sa args) p (length (args ! j) + 1) = args ! j @ [0]"
  using assms
proof (induction args arbitrary: mem index sa j)
  case (Cons a as)
  let ?m1 = "mem_write mem (frame + 8 * (1 + index)) (le64 (of_nat sa))"
  let ?m = "mem_write (mem_write ?m1 sa a) (sa + length a) [0]"
  let ?r = "write_args ?m frame (index + 1) (sa + length a + 1) as"
  have eq: "write_args mem frame index sa (a # as) = ?r" by (simp only: write_args.simps Let_def)
  have keep: "?r x = ?m x" if "x < frame + 8 * (2 + index) \<or> sa \<le> x \<and> x < sa + length a + 1" for x
    using that Cons.prems(1) by (intro write_args_outside) auto
  show ?case
  proof (cases j)
    case 0
    have "mem_read ?r (frame + 8 * (1 + index)) 8 = mem_read ?m (frame + 8 * (1 + index)) 8"
      using keep by (intro nth_equalityI) simp_all
    also have "\<dots> = mem_read ?m1 (frame + 8 * (1 + index)) 8"
    proof -
      have "frame + 8 * (1 + index) + 8 \<le> sa" using Cons.prems(1) by simp
      then show ?thesis by (simp add: mem_read_write_other)
    qed
    also have "\<dots> = le64 (of_nat sa)" by simp
    finally have ptr: "rd_le ?r (frame + 8 * (1 + index)) 8 = sa"
      using Cons.prems(2) by (simp add: rd_le_def unsigned_of_nat take_bit_nat_eq_self usize_bound_def)
    have "mem_read ?r sa (length a + 1) = mem_read ?m sa (length a + 1)"
      using keep by (intro nth_equalityI) simp_all
    also have "\<dots> = a @ [0]"
      by (rule nth_equalityI) (auto simp: mem_write_def nth_append)
    finally show ?thesis using ptr 0 unfolding eq by (intro exI [of _ sa]) simp
  next
    case (Suc k)
    have "\<exists>p. sa + length a + 1 \<le> p \<and> p + length (as ! k) < sa + length a + 1 + string_bytes as
       \<and> rd_le ?r (frame + 8 * (1 + (index + 1) + k)) 8 = p \<and> mem_read ?r p (length (as ! k) + 1) = as ! k @ [0]"
      using Cons.prems Suc by (intro Cons.IH) auto
    then show ?thesis unfolding eq Suc by (auto simp: algebra_simps)
  qed
qed simp

lemma write_args_frame_SomeD:
  assumes "write_args_frame mem stk argv = Some (Some rsp, mem')"
  defines "args \<equiv> map to_utf8 argv" and "n \<equiv> length argv"
  defines "sb \<equiv> stk_top stk - string_bytes args"
  obtains "string_bytes args \<le> stk_top stk" "8 * (n + 3) \<le> sb" "rsp = and_not (sb - 8 * (n + 3)) 15"
      "stk_bottom stk \<le> rsp"
      "mem' = mem_write (mem_write (write_args (mem_write mem rsp (le64 (of_nat n))) rsp 0 sb args)
                 (rsp + 8 * (1 + n)) (le64 0)) (rsp + 8 * (2 + n)) (le64 0)"
  using assms(1) unfolding write_args_frame_def Let_def args_def [symmetric] sb_def n_def
  by (auto simp: checked_add_def checked_mul_def checked_sub_def args_def mult.commute split: if_splits)

lemma args_frame_base:
  fixes top :: nat
  assumes "top < usize_bound" "8 * (n + 3) \<le> top - k" "rsp = and_not (top - k - 8 * (n + 3)) 15"
  shows "rsp mod 16 = 0" "rsp + 8 * (n + 3) \<le> top - k"
proof -
  let ?b = "top - k - 8 * (n + 3)"
  have r: "rsp = ?b - ?b mod 16" using and_not_mask [of ?b 4] assms(1,3) by simp
  then show "rsp mod 16 = 0" by (simp add: minus_mod_eq_div_mult)
  have "rsp \<le> ?b" unfolding r by simp
  then show "rsp + 8 * (n + 3) \<le> top - k" using assms(2) by linarith
qed

section \<open>Loaded segments and overflow\<close>

definition from_header :: "region \<Rightarrow> elf_region \<Rightarrow> bool" where
  "from_header elf e \<longleftrightarrow> (\<exists>h. acceptable elf h \<and> er_region e = er_region (segment elf h)
     \<and> er_origin e = er_origin (segment elf h))"

lemma load_ph_loop_regions:
  assumes "load_ph_loop mem elf header is start = Some (Some r)"
    and "\<And>s. start = Some s \<Longrightarrow> \<forall>e \<in> set (region_iter s). from_header elf e"
  shows "\<forall>e \<in> set (region_iter r). from_header elf e"
  using assms
proof (induction "is" arbitrary: start)
  case (Cons i "is")
  let ?h = "elf_program_header64_at mem (reg_addr elf + eh_ph_offset header + i * eh_ph_entry_size header)"
  show ?case
  proof (cases "ph_type ?h = 1")
    case False
    then show ?thesis using Cons by (auto split: if_splits)
  next
    case True
    then have acc: "acceptable elf ?h"
      using Cons.prems(1) by (auto simp: acceptable_def Let_def checked_add_def split: if_splits)
    let ?s = "case start of Some f \<Rightarrow> Some (set_next f (Some (segment elf ?h))) | None \<Rightarrow> Some (segment elf ?h)"
    have "load_ph_loop mem elf header is ?s = Some (Some r)"
      using Cons.prems(1) True acc
      by (cases start) (auto simp: acceptable_def Let_def checked_add_def segment_def split: if_splits)
    moreover have "\<forall>e \<in> set (region_iter s). from_header elf e" if "?s = Some s" for s
    proof -
      have new: "from_header elf (segment elf ?h)" using acc by (auto simp: from_header_def)
      show ?thesis
      proof (cases start)
        case None
        then show ?thesis using that new by auto
      next
        case (Some f)
        have "from_header elf f" using Cons.prems(2) [OF Some] by (subst (asm) region_iter_eq) simp
        then have "from_header elf (set_next f (Some (segment elf ?h)))" by (simp add: from_header_def)
        then show ?thesis using that new Some by (auto simp: region_iter_eq [of "set_next _ _"])
      qed
    qed
    ultimately show ?thesis by (rule Cons.IH)
  qed
qed simp

lemma load_ph_loop_overflow:
  assumes "load_headers mem elf header is = []" "\<exists>i \<in> set is. 2 ^ 16 \<le> i * eh_ph_entry_size header"
  shows "load_ph_loop mem elf header is start = None"
  using assms
proof (induction "is")
  case (Cons i "is")
  then have "ph_type (elf_program_header64_at mem (reg_addr elf + eh_ph_offset header + i * eh_ph_entry_size header)) \<noteq> 1"
    "load_headers mem elf header is = []"
    by (auto simp: load_headers_def split: if_splits)
  then show ?case using Cons by (auto simp: Let_def)
qed simp

text \<open>Small files for the examples below.\<close>

definition elf_file_header :: "nat \<Rightarrow> nat \<Rightarrow> nat \<Rightarrow> bytes" where
  "elf_file_header off entsize num =
     [0x7f, 0x45, 0x4c, 0x46] @ replicate 20 0 @ le64 0x400000 @ le64 (of_nat off) @ replicate 14 0
       @ le16 (of_nat entsize) @ le16 (of_nat num) @ replicate 6 0"

definition load_header_bytes :: "nat \<Rightarrow> nat \<Rightarrow> nat \<Rightarrow> nat \<Rightarrow> bytes" where
  "load_header_bytes off vaddr filesz memsz =
     le32 1 @ le32 5 @ le64 (of_nat off) @ le64 (of_nat vaddr) @ replicate 8 0 @ le64 (of_nat filesz)
       @ le64 (of_nat memsz) @ replicate 8 0"

definition one_segment_file :: memory where
  "one_segment_file = mem_write (\<lambda>_. 0) 0 (elf_file_header 64 56 1 @ load_header_bytes 120 0x400000 8 16)"

lemma length_elf_file_header [simp]: "length (elf_file_header off e n) = 64"
  by (simp add: elf_file_header_def)

lemma elf_file_header_fields:
  assumes "off < 2 ^ 64" "e < 2 ^ 16" "n < 2 ^ 16"
  shows "elf_header64_at (mem_write m 0 (elf_file_header off e n @ xs)) 0 =
     \<lparr> eh_ident = [0x7f, 0x45, 0x4c, 0x46] @ replicate 12 0, eh_entry_addr = 0x400000, eh_ph_offset = off,
       eh_ph_entry_size = e, eh_ph_num = n \<rparr>"
proof -
  let ?f = "elf_file_header off e n @ xs"
  have w: "mem_read (mem_write m 0 ?f) k j = take j (drop k ?f)" if "k + j \<le> 64" for k j
    using mem_read_window [of k j ?f m 0] that by simp
  have v: "le_value (le64 (of_nat off)) = off" "le_value (le16 (of_nat e)) = e" "le_value (le16 (of_nat n)) = n"
    "le_value (le64 0x400000) = 0x400000"
    using assms by (simp_all add: unsigned_of_nat take_bit_nat_eq_self)
  have d: "take 16 (drop 0 ?f) = [0x7f, 0x45, 0x4c, 0x46] @ replicate 12 0"
    "take 8 (drop 24 ?f) = le64 0x400000" "take 8 (drop 32 ?f) = le64 (of_nat off)"
    "take 2 (drop 54 ?f) = le16 (of_nat e)" "take 2 (drop 56 ?f) = le16 (of_nat n)"
    by (simp_all add: elf_file_header_def)
  show ?thesis
    unfolding elf_header64_at_def rd_le_def add_0 using w [of 0 16] w [of 24 8] w [of 32 8] w [of 54 2] w [of 56 2]
    by (simp only: d v)
qed

lemma elf_magic_ok [simp]: "elf_magic (0x7f # 0x45 # 0x4c # 0x46 # xs) = 0x7f454c46"
  by (simp add: elf_magic_def)

lemma one_segment_header:
  "elf_program_header64_at one_segment_file 64 =
     \<lparr> ph_type = 1, ph_flags = 5, ph_offset = 120, ph_virt_addr = 0x400000, ph_file_size = 8, ph_memory_size = 16 \<rparr>"
proof -
  let ?f = "elf_file_header 64 56 1 @ load_header_bytes 120 0x400000 8 16"
  have w: "mem_read one_segment_file k j = take j (drop k ?f)" if "k + j \<le> 120" for k j
    unfolding one_segment_file_def using mem_read_window [of k j ?f "\<lambda>_. 0" 0] that by (simp add: load_header_bytes_def)
  have d: "take 4 (drop 64 ?f) = le32 1" "take 4 (drop 68 ?f) = le32 5" "take 8 (drop 72 ?f) = le64 120"
    "take 8 (drop 80 ?f) = le64 0x400000" "take 8 (drop 96 ?f) = le64 8" "take 8 (drop 104 ?f) = le64 16"
    by (simp_all add: load_header_bytes_def)
  have "mem_read one_segment_file 64 4 = le32 1" "mem_read one_segment_file 68 4 = le32 5"
    "mem_read one_segment_file 72 8 = le64 120" "mem_read one_segment_file 80 8 = le64 0x400000"
    "mem_read one_segment_file 96 8 = le64 8" "mem_read one_segment_file 104 8 = le64 16"
    using w [of 64 4] w [of 68 4] w [of 72 8] w [of 80 8] w [of 96 8] w [of 104 8] by (simp_all only: d)
  then show ?thesis by (simp add: elf_program_header64_at_def rd_le_def)
qed

lemma one_segment_file_header:
  "elf_header64_at one_segment_file 0 =
     \<lparr> eh_ident = [0x7f, 0x45, 0x4c, 0x46] @ replicate 12 0, eh_entry_addr = 0x400000, eh_ph_offset = 64,
       eh_ph_entry_size = 56, eh_ph_num = 1 \<rparr>"
  unfolding one_segment_file_def by (rule elf_file_header_fields) simp_all

lemma one_segment_file_headers:
  "load_headers one_segment_file \<lparr> reg_addr = 0, reg_size = 200 \<rparr> (elf_header64_at one_segment_file 0) [0] =
     [\<lparr> ph_type = 1, ph_flags = 5, ph_offset = 120, ph_virt_addr = 0x400000, ph_file_size = 8, ph_memory_size = 16 \<rparr>]"
  by (simp add: load_headers_def one_segment_file_header one_segment_header)

lemma one_segment_file_loads: "\<exists>pe. loader_load one_segment_file \<lparr> reg_addr = 0, reg_size = 200 \<rparr> = Some (Some pe)"
proof -
  let ?e = "\<lparr> reg_addr = 0, reg_size = 200 \<rparr>" and ?h = "elf_header64_at one_segment_file 0"
  have n: "eh_ph_num ?h = 1" "eh_ph_entry_size ?h = 56" "eh_ph_offset ?h = 64" "elf_magic (eh_ident ?h) = 0x7f454c46"
    by (simp_all add: one_segment_file_header)
  have "\<exists>r. load_ph_loop one_segment_file ?e ?h [0] None = Some (Some r)"
    by (subst load_ph_loop_eq)
       (simp add: one_segment_file_header, simp add: one_segment_file_headers acceptable_def usize_bound_def)
  then obtain r where "load_ph_loop one_segment_file ?e ?h [0] None = Some (Some r)" by blast
  then have "load_ph_headers one_segment_file ?h ?e = Some (Some r)"
    by (simp del: load_ph_loop.simps add: load_ph_headers_def n checked_mul_def checked_add_def usize_bound_def)
  then show ?thesis by (simp add: loader_load_def n)
qed

section \<open>Properties\<close>

text \<open>
  C32.  What the loader accepts.  A file that loads has the ELF magic, and every segment that reaches
  the mapping code is non-empty, is backed by no more file bytes than it has memory, and takes its
  bytes from inside the file.
\<close>

theorem loaded_segments_valid:
  assumes "loader_load mem elf = Some (Some pe)" "e \<in> set (region_iter (pe_start_region pe))"
  shows "64 \<le> reg_size elf \<and> elf_magic (mem_read mem (reg_addr elf) 16) = 0x7f454c46
     \<and> 0 < reg_size (er_region e) \<and> reg_size (er_origin e) \<le> reg_size (er_region e)
     \<and> reg_addr elf \<le> reg_addr (er_origin e)
     \<and> reg_addr (er_origin e) + reg_size (er_origin e) \<le> reg_addr elf + reg_size elf"
proof -
  let ?h = "elf_header64_at mem (reg_addr elf)"
  have l: "load_ph_headers mem ?h elf = Some (Some (pe_start_region pe))"
    and m: "64 \<le> reg_size elf" "elf_magic (mem_read mem (reg_addr elf) 16) = 0x7f454c46"
    using assms(1) by (auto simp: loader_load_def Let_def elf_header64_at_def split: if_splits Option.bind_splits)
  then have "load_ph_loop mem elf ?h [0..<eh_ph_num ?h] None = Some (Some (pe_start_region pe))"
    by (auto simp: load_ph_headers_def split: option.splits if_splits)
  from load_ph_loop_regions [OF this] assms(2) have "from_header elf e" by simp
  then obtain h where h: "acceptable elf h" "er_region e = er_region (segment elf h)" "er_origin e = er_origin (segment elf h)"
    by (auto simp: from_header_def)
  then show ?thesis using m by (simp add: segment_def acceptable_def)
qed

theorem loaded_segments_valid_witness:
  "\<exists>pe. loader_load one_segment_file \<lparr> reg_addr = 0, reg_size = 200 \<rparr> = Some (Some pe)
     \<and> 0 < reg_size (er_region (pe_start_region pe))"
proof -
  obtain pe where pe: "loader_load one_segment_file \<lparr> reg_addr = 0, reg_size = 200 \<rparr> = Some (Some pe)"
    using one_segment_file_loads by blast
  have "pe_start_region pe \<in> set (region_iter (pe_start_region pe))" by (subst region_iter_eq) simp
  from loaded_segments_valid [OF pe this] pe show ?thesis by blast
qed

text \<open>
  C40.  Which segments are kept.  When no index overflows and every LOAD header is acceptable, the
  list that reaches the mapping code holds the first and the last LOAD segment only; any segment
  between them is lost.
\<close>

theorem loader_keeps_first_and_last:
  assumes "\<forall>i < eh_ph_num header. i * eh_ph_entry_size header < 2 ^ 16"
    and "eh_ph_offset header + eh_ph_num header * eh_ph_entry_size header \<le> reg_size elf" "reg_size elf < usize_bound"
    and "loads = load_headers mem elf header [0..<eh_ph_num header]" "loads \<noteq> []" "\<forall>h \<in> set loads. acceptable elf h"
  shows "\<exists>r. load_ph_headers mem header elf = Some (Some r)
     \<and> map er_region (region_iter r) = map (\<lambda>h. \<lparr> reg_addr = ph_virt_addr h, reg_size = ph_memory_size h \<rparr>)
         (if length loads = 1 then [hd loads] else [hd loads, last loads])"
proof -
  obtain h r where l: "loads = h # r" using assms(5) by (cases loads) auto
  have lp: "load_ph_loop mem elf header [0..<eh_ph_num header] None = Some (link_segments None (map (segment elf) loads))"
    using load_ph_loop_eq [of "[0..<eh_ph_num header]" header mem elf None] assms(1,4,6) by simp
  have "eh_ph_num header * eh_ph_entry_size header < usize_bound" using assms(2,3) by linarith
  then have "load_ph_headers mem header elf = Some (link_segments None (map (segment elf) loads))"
    using assms(2,3) lp by (simp add: load_ph_headers_def checked_mul_def checked_add_def)
  then show ?thesis
    unfolding l by (cases "r = []")
      (auto simp: link_segments_Some region_iter_eq [of "set_next _ _"] last_map segment_def)
qed

theorem loader_keeps_first_and_last_witness:
  "\<exists>r. load_ph_headers one_segment_file (elf_header64_at one_segment_file 0) \<lparr> reg_addr = 0, reg_size = 200 \<rparr> = Some (Some r)
     \<and> map er_region (region_iter r) = [\<lparr> reg_addr = 0x400000, reg_size = 16 \<rparr>]"
proof -
  let ?h = "elf_header64_at one_segment_file 0" and ?e = "\<lparr> reg_addr = 0, reg_size = 200 \<rparr>"
  have n: "eh_ph_num ?h = 1" "eh_ph_entry_size ?h = 56" "eh_ph_offset ?h = 64" by (simp_all add: one_segment_file_header)
  have l: "load_headers one_segment_file ?e ?h [0..<eh_ph_num ?h] =
      [\<lparr> ph_type = 1, ph_flags = 5, ph_offset = 120, ph_virt_addr = 0x400000, ph_file_size = 8, ph_memory_size = 16 \<rparr>]"
    using one_segment_file_headers by (simp add: n)
  show ?thesis
    using loader_keeps_first_and_last [OF _ _ _ l [symmetric]] by (simp add: n acceptable_def usize_bound_def)
qed

text \<open>
  A crafted file panics the kernel.  The offset of a program header is computed with 16-bit
  arithmetic; when the table lies inside the file but some index times the entry size exceeds 16
  bits, and no LOAD header before it is rejected, loading the file panics.
\<close>

lemma loader_index_overflow_panics:
  assumes "64 \<le> reg_size elf" "reg_size elf < usize_bound" "elf_magic (mem_read mem (reg_addr elf) 16) = 0x7f454c46"
    and "header = elf_header64_at mem (reg_addr elf)"
    and "eh_ph_offset header + eh_ph_num header * eh_ph_entry_size header \<le> reg_size elf"
    and "load_headers mem elf header [0..<eh_ph_num header] = []"
    and "i < eh_ph_num header" "2 ^ 16 \<le> i * eh_ph_entry_size header"
  shows "loader_load mem elf = None"
proof -
  have "eh_ph_num header * eh_ph_entry_size header < usize_bound" using assms(2,5) by linarith
  moreover have "load_ph_loop mem elf header [0..<eh_ph_num header] None = None"
    using assms(7,8) by (intro load_ph_loop_overflow [OF assms(6)]) auto
  ultimately have "load_ph_headers mem header elf = None"
    using assms(2,5) by (simp add: load_ph_headers_def checked_mul_def checked_add_def)
  then show ?thesis using assms(1,3,4) by (simp add: loader_load_def elf_header64_at_def)
qed

text \<open>
  The argument frame.  When \<open>write_args_frame\<close> succeeds, the stack pointer it returns is 16-byte
  aligned and inside the stack; it points at the argument count, followed by one pointer per
  argument to its NUL-terminated bytes, all inside the stack, and by two null words; memory
  outside the stack above the returned pointer is untouched.
\<close>

lemma args_frame_layout:
  assumes "write_args_frame mem stk argv = Some (Some rsp, mem')" "stk_top stk < usize_bound"
  shows "rsp mod 16 = 0 \<and> stk_bottom stk \<le> rsp \<and> rsp + 8 * (length argv + 3) \<le> stk_top stk
     \<and> rd_le mem' rsp 8 = length argv
     \<and> (\<forall>i < length argv. \<exists>p. rd_le mem' (rsp + 8 * (1 + i)) 8 = p
          \<and> rsp + 8 * (length argv + 3) \<le> p \<and> p + length (to_utf8 (argv ! i)) < stk_top stk
          \<and> mem_read mem' p (length (to_utf8 (argv ! i)) + 1) = to_utf8 (argv ! i) @ [0])
     \<and> rd_le mem' (rsp + 8 * (1 + length argv)) 8 = 0 \<and> rd_le mem' (rsp + 8 * (2 + length argv)) 8 = 0
     \<and> (\<forall>x. x < rsp \<or> stk_top stk \<le> x \<longrightarrow> mem' x = mem x)"
proof -
  let ?args = "map to_utf8 argv" and ?n = "length argv"
  let ?sb = "stk_top stk - string_bytes ?args"
  let ?w = "write_args (mem_write mem rsp (le64 (of_nat ?n))) rsp 0 ?sb ?args"
  obtain pre: "string_bytes ?args \<le> stk_top stk" "8 * (?n + 3) \<le> ?sb" "rsp = and_not (?sb - 8 * (?n + 3)) 15"
      "stk_bottom stk \<le> rsp"
    and m: "mem' = mem_write (mem_write ?w (rsp + 8 * (1 + ?n)) (le64 0)) (rsp + 8 * (2 + ?n)) (le64 0)"
    by (rule write_args_frame_SomeD [OF assms(1)])
  note rsp = args_frame_base [OF assms(2) pre(2,3)]
  have keep: "mem' x = ?w x" if "x < rsp + 8 * (1 + ?n) \<or> rsp + 8 * (3 + ?n) \<le> x" for x
    using that unfolding m by (auto simp: mem_write_def)
  have count: "rd_le mem' rsp 8 = ?n"
  proof -
    have "mem_read mem' rsp 8 = mem_read (mem_write mem rsp (le64 (of_nat ?n))) rsp 8"
    proof (rule nth_equalityI)
      fix i :: nat
      assume "i < length (mem_read mem' rsp 8)"
      then have i: "i < 8" by simp
      then have "mem' (rsp + i) = ?w (rsp + i)" by (intro keep) simp
      also have "\<dots> = mem_write mem rsp (le64 (of_nat ?n)) (rsp + i)"
        using i rsp(2) by (intro write_args_outside) auto
      finally show "mem_read mem' rsp 8 ! i = mem_read (mem_write mem rsp (le64 (of_nat ?n))) rsp 8 ! i"
        using i by (simp add: mem_write_def)
    qed simp
    moreover have "?n < 2 ^ 64" using rsp(2) assms(2) by (simp add: usize_bound_def)
    ultimately show ?thesis by (simp add: rd_le_def unsigned_of_nat take_bit_nat_eq_self)
  qed
  have args: "\<exists>p. rd_le mem' (rsp + 8 * (1 + i)) 8 = p
      \<and> rsp + 8 * (?n + 3) \<le> p \<and> p + length (to_utf8 (argv ! i)) < stk_top stk
      \<and> mem_read mem' p (length (to_utf8 (argv ! i)) + 1) = to_utf8 (argv ! i) @ [0]" if i: "i < ?n" for i
  proof -
    obtain p where p: "?sb \<le> p" "p + length (?args ! i) < ?sb + string_bytes ?args"
      "rd_le ?w (rsp + 8 * (1 + 0 + i)) 8 = p" "mem_read ?w p (length (?args ! i) + 1) = ?args ! i @ [0]"
      using write_args_layout [of rsp 0 ?args ?sb i "mem_write mem rsp (le64 (of_nat ?n))"] rsp(2) i pre(1) assms(2) by auto
    have "mem_read mem' (rsp + 8 * (1 + i)) 8 = mem_read ?w (rsp + 8 * (1 + i)) 8"
      using i by (intro nth_equalityI) (simp_all add: keep)
    moreover have "mem_read mem' p (length (?args ! i) + 1) = mem_read ?w p (length (?args ! i) + 1)"
      using p(1) rsp(2) by (intro nth_equalityI) (simp_all add: keep)
    ultimately show ?thesis using p rsp(2) pre(1) i by (auto simp: rd_le_def)
  qed
  have nulls: "rd_le mem' (rsp + 8 * (1 + ?n)) 8 = 0" "rd_le mem' (rsp + 8 * (2 + ?n)) 8 = 0"
    unfolding m rd_le_def by (simp_all add: mem_read_write_other)
  have frame: "mem' x = mem x" if x: "x < rsp \<or> stk_top stk \<le> x" for x
  proof -
    have "mem' x = ?w x" using x rsp(2) by (intro keep) auto
    also have "\<dots> = mem_write mem rsp (le64 (of_nat ?n)) x"
      using x rsp(2) pre(1) by (intro write_args_outside) auto
    also have "\<dots> = mem x" using x rsp(2) by (intro mem_write_outside) auto
    finally show ?thesis .
  qed
  show ?thesis using rsp pre(4) count args nulls frame by auto
qed

text \<open>
  Protection of a segment.  The page flags derived from the segment flags make a page writable
  exactly when the segment is, executable exactly when the segment is, and reachable from user mode
  exactly when the segment has any flag; they set no other bit.
\<close>

lemma segment_flags_exact:
  "flags_contain (to_entry_flags f) WRITABLE = flags_contain f PF_W
   \<and> flags_contain (to_entry_flags f) NO_EXECUTE = (\<not> flags_contain f PF_X)
   \<and> flags_contain (to_entry_flags f) RING3_ACCESSIBLE = (f \<noteq> 0)
   \<and> to_entry_flags f AND NOT (WRITABLE OR NO_EXECUTE OR RING3_ACCESSIBLE) = 0"
  by (simp add: to_entry_flags_def flags_contain_def WRITABLE_def NO_EXECUTE_def RING3_ACCESSIBLE_def Let_def)

end
