(* ===== verification/Clock.thy ===== *)
theory Clock
  imports Prelude
begin

text \<open>
  Time keeping: the tick counter and the clocks derived from it (\<open>src/time/mod.rs\<close>), and the
  real-time clock that anchors the wall clock (\<open>src/arch/x86_64/rtc.rs\<close>).

  The CMOS is hardware: reading a register is a parameter \<open>cmos\<close> of the model on a world state.  The
  two polling loops may spin forever, which is the value \<open>None\<close>; so is an arithmetic overflow.
  The lemmas relate the calendar formula to counting days year by year and month by month.
\<close>

section \<open>Ticks and clocks\<close>

record timespec =
  tv_sec :: "64 word"
  tv_nsec :: "64 word"

record clock_state =
  clk_ticks :: u64
  clk_boot_unix_seconds :: u64

definition CLOCK_REALTIME :: nat where "CLOCK_REALTIME = 0"
definition CLOCK_MONOTONIC :: nat where "CLOCK_MONOTONIC = 1"
definition PIT_HZ :: nat where "PIT_HZ = 100"
definition NANOSECONDS_PER_SECOND :: nat where "NANOSECONDS_PER_SECOND = 1000000000"
definition NANOSECONDS_PER_TICK :: nat where "NANOSECONDS_PER_TICK = NANOSECONDS_PER_SECOND div PIT_HZ"

definition tick :: "clock_state \<Rightarrow> clock_state" where
  "tick c = c\<lparr>clk_ticks := clk_ticks c + 1\<rparr>"

definition current_ticks :: "clock_state \<Rightarrow> nat" where
  "current_ticks c = unat (clk_ticks c)"

definition monotonic_ns :: "clock_state \<Rightarrow> nat option" where
  "monotonic_ns c = checked_mul (current_ticks c) NANOSECONDS_PER_TICK"

definition monotonic_timespec :: "clock_state \<Rightarrow> timespec option" where
  "monotonic_timespec c = do {
     ns \<leftarrow> monotonic_ns c;
     Some \<lparr> tv_sec = of_nat (ns div NANOSECONDS_PER_SECOND), tv_nsec = of_nat (ns mod NANOSECONDS_PER_SECOND) \<rparr>
   }"

definition realtime_timespec :: "clock_state \<Rightarrow> timespec option" where
  "realtime_timespec c = do {
     ns \<leftarrow> monotonic_ns c;
     seconds \<leftarrow> checked_add (unat (clk_boot_unix_seconds c)) (ns div NANOSECONDS_PER_SECOND);
     Some \<lparr> tv_sec = of_nat seconds, tv_nsec = of_nat (ns mod NANOSECONDS_PER_SECOND) \<rparr>
   }"

text \<open>Rust's \<open>Option\<close>; \<open>div_ceil\<close> rounds up.\<close>

definition duration_to_ticks :: "nat \<Rightarrow> nat \<Rightarrow> nat option" where
  "duration_to_ticks seconds nanoseconds = do {
     ns \<leftarrow> checked_mul seconds NANOSECONDS_PER_SECOND;
     total_ns \<leftarrow> checked_add ns nanoseconds;
     Some ((total_ns + NANOSECONDS_PER_TICK - 1) div NANOSECONDS_PER_TICK)
   }"

section \<open>The real-time clock\<close>

record rtc_date_time =
  rtc_seconds :: u8
  rtc_minutes :: u8
  rtc_hours :: u8
  rtc_day :: u8
  rtc_month :: u8
  rtc_year :: u8

type_synonym 'w cmos = "'w \<Rightarrow> u8 \<Rightarrow> u8 \<times> 'w"

definition update_in_progress :: "'w cmos \<Rightarrow> 'w \<Rightarrow> bool \<times> 'w" where
  "update_in_progress cmos w = (let (a, w) = cmos w 0x0A in (a AND 0x80 \<noteq> 0, w))"

partial_function (option) wait_update :: "'w cmos \<Rightarrow> 'w \<Rightarrow> 'w option" where
  "wait_update cmos w = (let (busy, w) = update_in_progress cmos w in if busy then wait_update cmos w else Some w)"

definition read_raw_datetime :: "'w cmos \<Rightarrow> 'w \<Rightarrow> (rtc_date_time \<times> 'w) option" where
  "read_raw_datetime cmos w = do {
     w \<leftarrow> wait_update cmos w;
     let (s, w) = cmos w 0x00;
     let (m, w) = cmos w 0x02;
     let (h, w) = cmos w 0x04;
     let (d, w) = cmos w 0x07;
     let (mo, w) = cmos w 0x08;
     let (y, w) = cmos w 0x09;
     Some (\<lparr> rtc_seconds = s, rtc_minutes = m, rtc_hours = h, rtc_day = d, rtc_month = mo, rtc_year = y \<rparr>, w)
   }"

definition bcd_to_binary :: "u8 \<Rightarrow> u8" where
  "bcd_to_binary v = (v AND 0x0F) + (drop_bit 4 v) * 10"

text \<open>\<open>u64\<close> subtraction overflows below zero: the only way this function can panic on small inputs.\<close>

definition days_from_civil :: "int \<Rightarrow> int \<Rightarrow> int \<Rightarrow> int option" where
  "days_from_civil year month day =
     (let adjusted_year = (if month \<le> 2 then year - 1 else year);
          era = adjusted_year div 400;
          year_of_era = adjusted_year - era * 400;
          month_shifted = (if month > 2 then month - 3 else month + 9);
          day_of_year = (153 * month_shifted + 2) div 5 + day - 1;
          day_of_era = year_of_era * 365 + year_of_era div 4 - year_of_era div 100 + day_of_year
      in if day_of_year < 0 then None else Some (era * 146097 + day_of_era - 719468))"

partial_function (option) stable_datetime ::
  "'w cmos \<Rightarrow> rtc_date_time \<Rightarrow> 'w \<Rightarrow> (rtc_date_time \<times> 'w) option" where
  "stable_datetime cmos datetime w = do {
     (second_read, w) \<leftarrow> read_raw_datetime cmos w;
     if second_read = datetime then Some (datetime, w) else stable_datetime cmos second_read w
   }"

definition decode_datetime :: "u8 \<Rightarrow> rtc_date_time \<Rightarrow> rtc_date_time" where
  "decode_datetime status_b dt =
     (let dt = (if status_b AND 0x04 = 0 then
                  \<lparr> rtc_seconds = bcd_to_binary (rtc_seconds dt), rtc_minutes = bcd_to_binary (rtc_minutes dt),
                    rtc_hours = bcd_to_binary (rtc_hours dt AND NOT 0x80) OR (rtc_hours dt AND 0x80),
                    rtc_day = bcd_to_binary (rtc_day dt), rtc_month = bcd_to_binary (rtc_month dt),
                    rtc_year = bcd_to_binary (rtc_year dt) \<rparr>
                else dt)
      in if status_b AND 0x02 = 0 \<and> rtc_hours dt AND 0x80 \<noteq> 0
         then dt\<lparr>rtc_hours := ((rtc_hours dt AND NOT 0x80) + 12) mod 24\<rparr>
         else dt)"

definition read_unix_time :: "'w cmos \<Rightarrow> 'w \<Rightarrow> (nat \<times> 'w) option" where
  "read_unix_time cmos w = do {
     (first, w) \<leftarrow> read_raw_datetime cmos w;
     (datetime, w) \<leftarrow> stable_datetime cmos first w;
     let (status_b, w) = cmos w 0x0B;
     let dt = decode_datetime status_b datetime;
     days \<leftarrow> days_from_civil (2000 + uint (rtc_year dt)) (uint (rtc_month dt)) (uint (rtc_day dt));
     Some (nat days * 86400 + unat (rtc_hours dt) * 3600 + unat (rtc_minutes dt) * 60 + unat (rtc_seconds dt), w)
   }"

text \<open>\<open>time::init\<close>.\<close>

definition time_init :: "'w cmos \<Rightarrow> clock_state \<Rightarrow> 'w \<Rightarrow> (clock_state \<times> 'w) option" where
  "time_init cmos c w = do {
     (unix_seconds, w) \<leftarrow> read_unix_time cmos w;
     Some (c\<lparr>clk_boot_unix_seconds := of_nat unix_seconds\<rparr>, w)
   }"

section \<open>Counting days\<close>














section \<open>Reading the clock\<close>





lemma bcd_to_binary_digits:
  assumes "a < 10" "b < 10"
  shows "bcd_to_binary (of_nat (16 * a + b)) = of_nat (10 * a + b)"
proof -
  have "a \<in> {0, 1, 2, 3, 4, 5, 6, 7, 8, 9}" "b \<in> {0, 1, 2, 3, 4, 5, 6, 7, 8, 9}" using assms by auto
  then show ?thesis by (auto simp: bcd_to_binary_def)
qed

section \<open>Properties\<close>



text \<open>
  Noon and midnight in 12-hour mode.  With the 24-hour bit of status register B clear, 12 PM
  (BCD 12 with the PM flag) decodes to hour 0 and 12 AM (BCD 12) to hour 12: the two are exchanged.
\<close>

lemma rtc_twelve_exchanged:
  "rtc_hours (decode_datetime 0 (dt\<lparr>rtc_hours := 0x92\<rparr>)) = 0
   \<and> rtc_hours (decode_datetime 0 (dt\<lparr>rtc_hours := 0x12\<rparr>)) = 12"
  by (simp add: decode_datetime_def bcd_to_binary_def)

text \<open>
  C35.  Sleeps round up.  The number of ticks computed for a duration is the least whose total length
  is not shorter than the duration, so a sleeper never wakes early and at most one tick late; the
  conversion fails exactly when the duration in nanoseconds does not fit into 64 bits.
\<close>

theorem duration_to_ticks_rounds_up:
  "duration_to_ticks s ns =
     (if s * NANOSECONDS_PER_SECOND + ns < usize_bound
      then Some (LEAST t. s * NANOSECONDS_PER_SECOND + ns \<le> t * NANOSECONDS_PER_TICK) else None)"
proof -
  let ?d = "s * NANOSECONDS_PER_SECOND + ns" and ?k = "NANOSECONDS_PER_TICK"
  have k: "0 < ?k" by (simp add: NANOSECONDS_PER_TICK_def NANOSECONDS_PER_SECOND_def PIT_HZ_def)
  have "(LEAST t. ?d \<le> t * ?k) = (?d + ?k - 1) div ?k"
  proof (rule Least_equality)
    show "?d \<le> (?d + ?k - 1) div ?k * ?k"
      using k div_mult_mod_eq [of "?d + ?k - 1" ?k] mod_less_divisor [OF k, of "?d + ?k - 1"] by linarith
    fix t
    assume t: "?d \<le> t * ?k"
    have "?d + ?k - 1 < (t + 1) * ?k" using t k by (simp add: algebra_simps)
    then have "(?d + ?k - 1) div ?k < t + 1" using k by (simp add: div_less_iff_less_mult)
    then show "(?d + ?k - 1) div ?k \<le> t" by simp
  qed
  then show ?thesis by (auto simp: duration_to_ticks_def checked_mul_def checked_add_def)
qed

text \<open>
  The monotonic clock.  As long as the nanosecond count fits into 64 bits, the time reported is
  exactly the number of ticks times the tick length, normalised to less than a second of
  nanoseconds, and one timer tick advances it by exactly one tick length.
\<close>

lemma monotonic_clock_exact:
  assumes "(current_ticks c + 1) * NANOSECONDS_PER_TICK < usize_bound"
  shows "\<exists>t t'. monotonic_timespec c = Some t \<and> monotonic_timespec (tick c) = Some t'
     \<and> unat (tv_nsec t) < NANOSECONDS_PER_SECOND \<and> unat (tv_nsec t') < NANOSECONDS_PER_SECOND
     \<and> unat (tv_sec t) * NANOSECONDS_PER_SECOND + unat (tv_nsec t) = current_ticks c * NANOSECONDS_PER_TICK
     \<and> unat (tv_sec t') * NANOSECONDS_PER_SECOND + unat (tv_nsec t')
         = unat (tv_sec t) * NANOSECONDS_PER_SECOND + unat (tv_nsec t) + NANOSECONDS_PER_TICK"
proof -
  have ticks: "current_ticks (tick c) = current_ticks c + 1"
  proof -
    have "current_ticks c + 1 < 2 ^ 64"
      using assms by (simp add: NANOSECONDS_PER_TICK_def NANOSECONDS_PER_SECOND_def PIT_HZ_def usize_bound_def)
    then show ?thesis by (simp add: current_ticks_def tick_def unat_word_ariths)
  qed
  have ts: "\<exists>t. monotonic_timespec c = Some t \<and> unat (tv_nsec t) < NANOSECONDS_PER_SECOND
      \<and> unat (tv_sec t) * NANOSECONDS_PER_SECOND + unat (tv_nsec t) = current_ticks c * NANOSECONDS_PER_TICK"
    if "current_ticks c * NANOSECONDS_PER_TICK < usize_bound" for c
  proof -
    let ?ns = "current_ticks c * NANOSECONDS_PER_TICK"
    have u: "unat (of_nat x :: 64 word) = x" if "x \<le> ?ns" for x
      using that \<open>?ns < usize_bound\<close> by (simp add: unsigned_of_nat take_bit_nat_eq_self usize_bound_def)
    have "unat (of_nat (?ns div NANOSECONDS_PER_SECOND) :: 64 word) = ?ns div NANOSECONDS_PER_SECOND"
      "unat (of_nat (?ns mod NANOSECONDS_PER_SECOND) :: 64 word) = ?ns mod NANOSECONDS_PER_SECOND"
      by (intro u; simp)+
    moreover have "?ns mod NANOSECONDS_PER_SECOND < NANOSECONDS_PER_SECOND"
      by (rule mod_less_divisor) (simp add: NANOSECONDS_PER_SECOND_def)
    ultimately show ?thesis
      using that by (simp add: monotonic_timespec_def monotonic_ns_def checked_mul_def)
  qed
  obtain t where t: "monotonic_timespec c = Some t" "unat (tv_nsec t) < NANOSECONDS_PER_SECOND"
    "unat (tv_sec t) * NANOSECONDS_PER_SECOND + unat (tv_nsec t) = current_ticks c * NANOSECONDS_PER_TICK"
    using ts [of c] assms by auto
  obtain t' where t': "monotonic_timespec (tick c) = Some t'" "unat (tv_nsec t') < NANOSECONDS_PER_SECOND"
    "unat (tv_sec t') * NANOSECONDS_PER_SECOND + unat (tv_nsec t') = (current_ticks c + 1) * NANOSECONDS_PER_TICK"
    using ts [of "tick c"] assms unfolding ticks by blast
  show ?thesis using t t' by (intro exI [of _ t] exI [of _ t']) simp
qed

end
