(* ===== verification/Frames.thy ===== *)
theory Frames
  imports Prelude
begin

text \<open>
  Page frames and pages (\<open>src/mem/page_frame.rs\<close>, \<open>src/mem/paging/mod.rs\<close>) and the frame
  allocator (\<open>src/mem/simple_page_frame_allocator.rs\<close>): a bump pointer with a stack of
  returned frames.  Frames and pages are their numbers.

  The locale \<open>page_frame_allocator\<close> is the contract the page table code relies on; it is
  interpreted on the allocator of the kernel.
\<close>

section \<open>Frames and pages\<close>

definition PAGE_SIZE :: nat where "PAGE_SIZE = 4096"

definition frame_from_address :: "nat \<Rightarrow> nat" where
  "frame_from_address addr = addr div PAGE_SIZE"

definition frame_start_address :: "nat \<Rightarrow> nat" where
  "frame_start_address frame = frame * PAGE_SIZE"

definition page_for_address :: "nat \<Rightarrow> nat" where
  "page_for_address addr = addr div PAGE_SIZE"

definition page_start_address :: "nat \<Rightarrow> nat" where
  "page_start_address page = page * PAGE_SIZE"

definition p4_index :: "nat \<Rightarrow> nat" where "p4_index page = drop_bit 27 page AND 0x1FF"
definition p3_index :: "nat \<Rightarrow> nat" where "p3_index page = drop_bit 18 page AND 0x1FF"
definition p2_index :: "nat \<Rightarrow> nat" where "p2_index page = drop_bit 9 page AND 0x1FF"
definition p1_index :: "nat \<Rightarrow> nat" where "p1_index page = drop_bit 0 page AND 0x1FF"

text \<open>The items of \<open>PageFrameIter\<close> and \<open>PageIter\<close>: both bounds are included.\<close>

definition frame_range :: "nat \<Rightarrow> nat \<Rightarrow> nat list" where
  "frame_range start end = [start..<Suc end]"

definition page_range :: "nat \<Rightarrow> nat \<Rightarrow> nat list" where
  "page_range start end = [start..<Suc end]"

lemma and_511: "(n AND 0x1FF :: nat) = n mod 512"
  using take_bit_eq_mask [of 9 n] by (simp add: take_bit_eq_mod mask_eq_exp_minus_1)

lemma page_index_eq:
  "p4_index p = p div 2 ^ 27 mod 512" "p3_index p = p div 2 ^ 18 mod 512"
  "p2_index p = p div 2 ^ 9 mod 512" "p1_index p = p mod 512"
  by (simp_all only: p4_index_def p3_index_def p2_index_def p1_index_def and_511 drop_bit_eq_div) simp

lemma page_index_less [simp]: "p4_index p < 512" "p3_index p < 512" "p2_index p < 512" "p1_index p < 512"
  by (simp_all add: page_index_eq)

text \<open>The four indices determine the page inside the 48-bit address space.\<close>

lemma page_indices_inject:
  assumes "p < 2 ^ 36" "q < 2 ^ 36"
    and "p4_index p = p4_index q" "p3_index p = p3_index q" "p2_index p = p2_index q" "p1_index p = p1_index q"
  shows "p = q"
proof -
  have d: "n = ((n div 2 ^ 27 mod 512 * 512 + n div 2 ^ 18 mod 512) * 512 + n div 2 ^ 9 mod 512) * 512 + n mod 512"
    if "n < 2 ^ 36" for n :: nat
  proof -
    have "n div 2 ^ 27 < 512" using that by (simp add: div_less_iff_less_mult)
    then have "n div 2 ^ 27 mod 512 = n div 2 ^ 18 div 512" by (simp add: div_mult2_eq [symmetric])
    moreover have "n div 2 ^ 18 = n div 2 ^ 9 div 512" "n div 2 ^ 9 = n div 512"
      by (simp_all add: div_mult2_eq [symmetric])
    ultimately show ?thesis by (metis div_mult_mod_eq)
  qed
  show ?thesis using d [OF assms(1)] d [OF assms(2)] assms(3-6) unfolding page_index_eq by metis
qed

section \<open>The frame allocator\<close>

record frame_allocator =
  fa_head :: nat
  fa_mem_end :: nat
  fa_free_frames :: "nat list"

definition frame_allocator_new :: "nat \<Rightarrow> nat \<Rightarrow> frame_allocator" where
  "frame_allocator_new mem_start mem_end =
     \<lparr> fa_head = frame_from_address mem_start, fa_mem_end = frame_from_address mem_end, fa_free_frames = [] \<rparr>"

text \<open>\<open>Vec::pop\<close> takes the last element; the subtraction underflows when memory ends at the head.\<close>

definition falloc :: "frame_allocator \<Rightarrow> (nat option \<times> frame_allocator) option" where
  "falloc a =
     (if fa_free_frames a \<noteq> [] then
        Some (Some (last (fa_free_frames a)), a\<lparr>fa_free_frames := butlast (fa_free_frames a)\<rparr>)
      else do {
        room \<leftarrow> checked_sub (frame_start_address (fa_mem_end a)) (frame_start_address (fa_head a) + PAGE_SIZE);
        if room < 4096 then Some (None, a)
        else
          (let next_frame = frame_from_address (frame_start_address (fa_head a) + PAGE_SIZE)
           in Some (Some next_frame, a\<lparr>fa_head := next_frame\<rparr>))
      })"

definition ffree :: "frame_allocator \<Rightarrow> nat \<Rightarrow> frame_allocator" where
  "ffree a frame = a\<lparr>fa_free_frames := fa_free_frames a @ [frame]\<rparr>"

section \<open>The contract of a frame allocator\<close>

locale page_frame_allocator =
  fixes alloc :: "'a \<Rightarrow> (nat option \<times> 'a) option"
    and release :: "'a \<Rightarrow> nat \<Rightarrow> 'a"
    and inv :: "'a \<Rightarrow> bool"
    and avail :: "'a \<Rightarrow> nat set"
    and managed :: "'a \<Rightarrow> nat set"
  assumes alloc_returns: "inv a \<Longrightarrow> \<exists>r a'. alloc a = Some (r, a')"
    and alloc_none: "inv a \<Longrightarrow> alloc a = Some (None, a') \<Longrightarrow> a' = a \<and> avail a = {}"
    and alloc_some: "inv a \<Longrightarrow> alloc a = Some (Some f, a') \<Longrightarrow>
          inv a' \<and> f \<in> avail a \<and> avail a' = avail a - {f} \<and> managed a' = managed a"
    and release_ok: "inv a \<Longrightarrow> f \<in> managed a \<Longrightarrow> f \<notin> avail a \<Longrightarrow>
          inv (release a f) \<and> avail (release a f) = insert f (avail a) \<and> managed (release a f) = managed a"
    and avail_managed: "inv a \<Longrightarrow> avail a \<subseteq> managed a"
begin

text \<open>Allocating a number of frames one after the other.\<close>

fun alloc_many :: "nat \<Rightarrow> 'a \<Rightarrow> (nat list option \<times> 'a) option" where
  "alloc_many 0 a = Some (Some [], a)"
| "alloc_many (Suc n) a = do {
     (r, a) \<leftarrow> alloc a;
     case r of
       None \<Rightarrow> Some (None, a)
     | Some f \<Rightarrow> do {
         (rs, a) \<leftarrow> alloc_many n a;
         Some (map_option (Cons f) rs, a)
       }
   }"

lemma alloc_many_distinct:
  "inv a \<Longrightarrow> alloc_many n a = Some (Some fs, a') \<Longrightarrow>
     inv a' \<and> distinct fs \<and> set fs \<subseteq> avail a \<and> avail a' = avail a - set fs \<and> length fs = n"
proof (induction n arbitrary: a fs)
  case (Suc n)
  obtain f b where f: "alloc a = Some (Some f, b)"
    using Suc.prems by (auto split: Option.bind_splits option.splits)
  obtain gs where gs: "alloc_many n b = Some (Some gs, a')" "fs = f # gs"
    using Suc.prems(2) f by (auto split: Option.bind_splits)
  note s = alloc_some [OF Suc.prems(1) f]
  from Suc.IH [OF _ gs(1)] s show ?case by (auto simp: gs(2))
qed simp

lemma alloc_release: "inv a \<Longrightarrow> alloc a = Some (Some f, a') \<Longrightarrow> avail (release a' f) = avail a \<and> inv (release a' f)"
  using alloc_some [of a f a'] release_ok [of a' f] avail_managed [of a] by auto

end

text \<open>The allocator of the kernel: the frames behind the head that fit below the end, and the returned ones.\<close>

definition fa_avail :: "frame_allocator \<Rightarrow> nat set" where
  "fa_avail a = set (fa_free_frames a) \<union> {fa_head a <..< fa_mem_end a}"

definition fa_managed :: "frame_allocator \<Rightarrow> nat set" where
  "fa_managed a = {..< fa_mem_end a}"

definition fa_inv :: "frame_allocator \<Rightarrow> bool" where
  "fa_inv a \<longleftrightarrow> fa_head a < fa_mem_end a \<and> distinct (fa_free_frames a) \<and> (\<forall>f \<in> set (fa_free_frames a). f \<le> fa_head a)"

lemma falloc_bump:
  assumes "fa_free_frames a = []" "fa_head a < fa_mem_end a"
  shows "falloc a = Some (if fa_head a + 1 < fa_mem_end a then (Some (fa_head a + 1), a\<lparr>fa_head := fa_head a + 1\<rparr>) else (None, a))"
proof -
  have "frame_start_address (fa_head a) + PAGE_SIZE = (fa_head a + 1) * 4096"
    by (simp add: frame_start_address_def PAGE_SIZE_def)
  then show ?thesis
    using assms by (auto simp: falloc_def frame_start_address_def frame_from_address_def PAGE_SIZE_def checked_sub_def)
qed

lemma falloc_pop:
  assumes "fa_free_frames a = fs @ [f]"
  shows "falloc a = Some (Some f, a\<lparr>fa_free_frames := fs\<rparr>)"
  using assms by (simp add: falloc_def)

interpretation kernel_frames: page_frame_allocator falloc ffree fa_inv fa_avail fa_managed
proof
  fix a a' :: frame_allocator and f
  assume i: "fa_inv a"
  show "\<exists>r a'. falloc a = Some (r, a')"
    using i falloc_bump [of a] falloc_pop [of a] by (cases "fa_free_frames a" rule: rev_cases) (auto simp: fa_inv_def)
  show "a' = a \<and> fa_avail a = {}" if "falloc a = Some (None, a')"
    using i that falloc_bump [of a] falloc_pop [of a]
    by (cases "fa_free_frames a" rule: rev_cases) (auto simp: fa_inv_def fa_avail_def split: if_splits)
  show "fa_inv a' \<and> f \<in> fa_avail a \<and> fa_avail a' = fa_avail a - {f} \<and> fa_managed a' = fa_managed a"
    if "falloc a = Some (Some f, a')"
    using i that falloc_bump [of a] falloc_pop [of a]
    by (cases "fa_free_frames a" rule: rev_cases) (auto simp: fa_inv_def fa_avail_def fa_managed_def split: if_splits)
  show "fa_inv (ffree a f) \<and> fa_avail (ffree a f) = insert f (fa_avail a) \<and> fa_managed (ffree a f) = fa_managed a"
    if "f \<in> fa_managed a" "f \<notin> fa_avail a"
    using i that by (auto simp: fa_inv_def fa_avail_def fa_managed_def ffree_def)
  show "fa_avail a \<subseteq> fa_managed a" using i by (auto simp: fa_inv_def fa_avail_def fa_managed_def)
qed

lemma fa_inv_new: "frame_from_address lo < frame_from_address hi \<Longrightarrow> fa_inv (frame_allocator_new lo hi)"
  by (simp add: fa_inv_def frame_allocator_new_def)

end
