(* ===== verification/Paging.thy ===== *)
theory Paging
  imports Frames Elf_Loader
begin

text \<open>
  Page tables (\<open>src/mem/paging\<close>), the stack allocator (\<open>src/mem/stack_allocator.rs\<close>) and the memory
  controller (\<open>src/mem/mod.rs\<close>).

  The state is physical memory, the frame number in CR3, the frame allocator, the allocator of page
  table slots and the temporary mapper.  A page table is the virtual address under which the code
  reaches it, and its entries are read and written through the processor's address translation.
  That translation is the parameter \<open>mmu\<close> of every definition: it takes physical memory, CR3 and a
  page and gives the frame, or \<open>None\<close> for a page fault.  The theorems assume of it that it walks the
  four levels (\<open>hw_walk\<close>).  The translation cache is not part of the model: translation always uses
  the tables as they are in memory.

  The outer \<open>None\<close> of a result is a panic or a page fault, the inner one is Rust's \<open>None\<close>.
\<close>

section \<open>Entries\<close>

definition from_bits_truncate :: "u64 \<Rightarrow> u64" where
  "from_bits_truncate e = e AND 0x80000000000001FF"

definition entry_is_unused :: "u64 \<Rightarrow> bool" where
  "entry_is_unused e \<longleftrightarrow> e = 0"

definition entry_flags :: "u64 \<Rightarrow> u64" where
  "entry_flags e = from_bits_truncate e"

definition entry_get_frame :: "u64 \<Rightarrow> nat option" where
  "entry_get_frame e =
     (if flags_contain (entry_flags e) PRESENT then
        Some (frame_from_address (unat (e AND 0x000FFFFFFFFFF000)))
      else None)"

definition entry_value :: "nat \<Rightarrow> u64 \<Rightarrow> u64 option" where
  "entry_value frame flags =
     (let addr = frame_start_address frame
      in if addr < usize_bound \<and> (of_nat addr :: u64) AND NOT 0x000FFFFFFFFFF000 = 0 then Some (of_nat addr OR flags)
         else None)"

section \<open>State\<close>

record slot_allocator =
  sa_region_start :: nat
  sa_first_phys_frame :: nat
  sa_pml1_count :: nat
  sa_last_pml1_slot :: nat
  sa_pml2_addr :: nat
  sa_init_done :: bool
  sa_allocated_page_tables :: nat
  sa_free_slots :: "nat list"

record temp_mapper =
  tm_temp_addr :: nat
  tm_temp_entry_addr :: nat

record paging =
  pg_phys :: memory
  pg_cr3 :: nat
  pg_frames :: frame_allocator
  pg_slots :: slot_allocator
  pg_temp :: temp_mapper

type_synonym mmu = "memory \<Rightarrow> nat \<Rightarrow> nat \<Rightarrow> nat option"

definition PAGE_TABLE_REGION_START :: nat where
  "PAGE_TABLE_REGION_START = 0x6BCF00000000"

section \<open>Access through virtual addresses\<close>

definition phys_of :: "mmu \<Rightarrow> 'a paging_scheme \<Rightarrow> nat \<Rightarrow> nat option" where
  "phys_of mmu P va = map_option (\<lambda>f. f * 4096 + va mod 4096) (mmu (pg_phys P) (pg_cr3 P) (va div 4096))"

text \<open>The 8 bytes of an entry never cross a page, because entries are aligned.\<close>

definition read64 :: "mmu \<Rightarrow> 'a paging_scheme \<Rightarrow> nat \<Rightarrow> u64 option" where
  "read64 mmu P va = map_option (\<lambda>a. of_nat (le_value (mem_read (pg_phys P) a 8))) (phys_of mmu P va)"

definition write64 :: "mmu \<Rightarrow> 'a paging_scheme \<Rightarrow> nat \<Rightarrow> u64 \<Rightarrow> 'a paging_scheme option" where
  "write64 mmu P va w = map_option (\<lambda>a. P\<lparr>pg_phys := mem_write (pg_phys P) a (le64 w)\<rparr>) (phys_of mmu P va)"

fun vread :: "mmu \<Rightarrow> 'a paging_scheme \<Rightarrow> nat \<Rightarrow> nat \<Rightarrow> bytes option" where
  "vread mmu P a 0 = Some []"
| "vread mmu P a (Suc n) = do {
     p \<leftarrow> phys_of mmu P a;
     bs \<leftarrow> vread mmu P (a + 1) n;
     Some (pg_phys P p # bs)
   }"

fun vwrite :: "mmu \<Rightarrow> 'a paging_scheme \<Rightarrow> nat \<Rightarrow> bytes \<Rightarrow> 'a paging_scheme option" where
  "vwrite mmu P a [] = Some P"
| "vwrite mmu P a (b # bs) = do {
     p \<leftarrow> phys_of mmu P a;
     vwrite mmu (P\<lparr>pg_phys := (pg_phys P)(p := b)\<rparr>) (a + 1) bs
   }"

definition table_entry :: "mmu \<Rightarrow> 'a paging_scheme \<Rightarrow> nat \<Rightarrow> nat \<Rightarrow> u64 option" where
  "table_entry mmu P table index = read64 mmu P (table + 8 * index)"

definition table_set :: "mmu \<Rightarrow> 'a paging_scheme \<Rightarrow> nat \<Rightarrow> nat \<Rightarrow> nat \<Rightarrow> u64 \<Rightarrow> 'a paging_scheme option" where
  "table_set mmu P table index frame flags = do {
     w \<leftarrow> entry_value frame flags;
     write64 mmu P (table + 8 * index) w
   }"

definition table_get_frame :: "mmu \<Rightarrow> 'a paging_scheme \<Rightarrow> nat \<Rightarrow> nat \<Rightarrow> nat option option" where
  "table_get_frame mmu P table index = map_option entry_get_frame (table_entry mmu P table index)"

definition is_phys_identity :: "nat \<Rightarrow> bool" where
  "is_phys_identity table \<longleftrightarrow> table < PAGE_TABLE_REGION_START"

section \<open>The temporary mapper\<close>

definition temp_set :: "mmu \<Rightarrow> 'a paging_scheme \<Rightarrow> nat \<Rightarrow> (nat \<times> 'a paging_scheme) option" where
  "temp_set mmu P frame = do {
     w \<leftarrow> entry_value frame (PRESENT OR WRITABLE);
     P \<leftarrow> write64 mmu P (tm_temp_entry_addr (pg_temp P)) w;
     Some (tm_temp_addr (pg_temp P), P)
   }"

definition get_current_phys :: "mmu \<Rightarrow> 'a paging_scheme \<Rightarrow> nat option option" where
  "get_current_phys mmu P = map_option entry_get_frame (read64 mmu P (tm_temp_entry_addr (pg_temp P)))"

text \<open>\<open>deref\<close> gives the virtual address of an item of \<open>size\<close> bytes at a physical address.\<close>

definition temp_deref :: "mmu \<Rightarrow> 'a paging_scheme \<Rightarrow> nat \<Rightarrow> nat \<Rightarrow> (nat \<times> 'a paging_scheme) option" where
  "temp_deref mmu P len addr =
     (let offset = addr mod PAGE_SIZE
      in if offset + len > PAGE_SIZE then None
         else do {
           (temp, P) \<leftarrow> temp_set mmu P (frame_from_address addr);
           Some (temp + offset, P)
         })"

section \<open>Walking\<close>

definition next_table_temp :: "mmu \<Rightarrow> 'a paging_scheme \<Rightarrow> nat \<Rightarrow> nat \<Rightarrow> (nat option \<times> 'a paging_scheme) option" where
  "next_table_temp mmu P table index = do {
     e \<leftarrow> table_entry mmu P table index;
     if entry_is_unused e then Some (None, P)
     else
       case entry_get_frame e of
         None \<Rightarrow> Some (None, P)
       | Some frame \<Rightarrow> do {
           (addr, P) \<leftarrow> temp_set mmu P frame;
           Some (Some addr, P)
         }
   }"

text \<open>
  The three calls of \<open>next_table_temp\<close> that \<open>unmap\<close>, \<open>is_unused\<close>, \<open>translate_to_phys\<close> and
  \<open>walk_range_entries\<close> begin with: the PML1 of the page.
\<close>

definition walk_to_pml1 :: "mmu \<Rightarrow> 'a paging_scheme \<Rightarrow> nat \<Rightarrow> nat \<Rightarrow> (nat option \<times> 'a paging_scheme) option" where
  "walk_to_pml1 mmu P table page = do {
     (pml3, P) \<leftarrow> next_table_temp mmu P table (p4_index page);
     case pml3 of
       None \<Rightarrow> Some (None, P)
     | Some pml3 \<Rightarrow> do {
         (pml2, P) \<leftarrow> next_table_temp mmu P pml3 (p3_index page);
         case pml2 of
           None \<Rightarrow> Some (None, P)
         | Some pml2 \<Rightarrow> next_table_temp mmu P pml2 (p2_index page)
       }
   }"

definition translate_to_phys :: "mmu \<Rightarrow> 'a paging_scheme \<Rightarrow> nat \<Rightarrow> nat \<Rightarrow> (nat option \<times> 'a paging_scheme) option" where
  "translate_to_phys mmu P table addr = do {
     let page = page_for_address addr;
     (pml1, P) \<leftarrow> walk_to_pml1 mmu P table page;
     case pml1 of
       None \<Rightarrow> Some (None, P)
     | Some pml1 \<Rightarrow> do {
         r \<leftarrow> table_get_frame mmu P pml1 (p1_index page);
         Some (r, P)
       }
   }"

definition is_unused :: "mmu \<Rightarrow> 'a paging_scheme \<Rightarrow> nat \<Rightarrow> nat \<Rightarrow> (bool \<times> 'a paging_scheme) option" where
  "is_unused mmu P table page = do {
     (pml1, P) \<leftarrow> walk_to_pml1 mmu P table page;
     case pml1 of
       None \<Rightarrow> Some (True, P)
     | Some pml1 \<Rightarrow> do {
         e \<leftarrow> table_entry mmu P pml1 (p1_index page);
         Some (entry_is_unused e, P)
       }
   }"

definition table_unmap :: "mmu \<Rightarrow> 'a paging_scheme \<Rightarrow> nat \<Rightarrow> nat \<Rightarrow> (nat option \<times> 'a paging_scheme) option" where
  "table_unmap mmu P table page = do {
     (pml1, P) \<leftarrow> walk_to_pml1 mmu P table page;
     case pml1 of
       None \<Rightarrow> Some (None, P)
     | Some pml1 \<Rightarrow> do {
         e \<leftarrow> table_entry mmu P pml1 (p1_index page);
         case entry_get_frame e of
           None \<Rightarrow> Some (None, P)
         | Some frame \<Rightarrow> do {
             P \<leftarrow> write64 mmu P (pml1 + 8 * p1_index page) 0;
             Some (Some frame, P)
           }
       }
   }"

text \<open>\<open>walk_range_entries\<close> with a callback that accepts or rejects a page and its entry.\<close>

fun walk_pages :: "mmu \<Rightarrow> nat \<Rightarrow> (nat \<Rightarrow> u64 \<Rightarrow> bool) \<Rightarrow> nat list \<Rightarrow> 'a paging_scheme \<Rightarrow> (bool \<times> 'a paging_scheme) option" where
  "walk_pages mmu table callback [] P = Some (True, P)"
| "walk_pages mmu table callback (page # pages) P = do {
     (pml1, P) \<leftarrow> walk_to_pml1 mmu P table page;
     case pml1 of
       None \<Rightarrow> Some (False, P)
     | Some pml1 \<Rightarrow> do {
         e \<leftarrow> table_entry mmu P pml1 (p1_index page);
         if callback page e then walk_pages mmu table callback pages P else Some (False, P)
       }
   }"

definition walk_range_entries :: "mmu \<Rightarrow> 'a paging_scheme \<Rightarrow> nat \<Rightarrow> nat \<Rightarrow> nat \<Rightarrow> (nat \<Rightarrow> u64 \<Rightarrow> bool) \<Rightarrow> (bool \<times> 'a paging_scheme) option" where
  "walk_range_entries mmu P table addr len callback =
     (if len = 0 then Some (True, P)
      else
        case checked_add addr (len - 1) of
          None \<Rightarrow> Some (False, P)
        | Some end_addr \<Rightarrow>
            walk_pages mmu table callback (page_range (page_for_address addr) (page_for_address end_addr)) P)"

section \<open>Creating mappings\<close>

text \<open>
  \<open>alloc\<close> of the slot allocator may extend the region, which maps pages and allocates slots again.
  The definitions take the inner operation as an argument; \<open>slot_alloc\<close> below ties the knot.
\<close>

type_synonym 'a slot_op = "'a paging_scheme \<Rightarrow> (nat \<times> 'a paging_scheme) option"

definition next_table_create ::
  "mmu \<Rightarrow> 'a slot_op \<Rightarrow> 'a paging_scheme \<Rightarrow> nat \<Rightarrow> nat \<Rightarrow> bool \<Rightarrow> u64 \<Rightarrow> (nat \<times> 'a paging_scheme) option" where
  "next_table_create mmu slots P table index return_physical flags = do {
     e \<leftarrow> table_entry mmu P table index;
     if \<not> entry_is_unused e then do {
       let existing_flags = entry_flags e;
       P \<leftarrow> (if \<not> flags_contain existing_flags flags \<and> \<not> flags_contain existing_flags HUGE_PAGE then
               case entry_get_frame e of
                 None \<Rightarrow> Some P
               | Some frame \<Rightarrow> table_set mmu P table index frame (existing_flags OR flags)
             else Some P);
       if return_physical then do {
         frame \<leftarrow> table_get_frame mmu P table index;
         frame \<leftarrow> frame;
         Some (frame_start_address frame, P)
       }
       else do {
         (next, P) \<leftarrow> next_table_temp mmu P table index;
         next \<leftarrow> next;
         Some (next, P)
       }
     }
     else do {
       (slot, P) \<leftarrow> slots P;
       (slot_phys, P) \<leftarrow>
         (if is_phys_identity table then Some (frame_from_address slot, P)
          else do {
            restore \<leftarrow> get_current_phys mmu P;
            (frame, P) \<leftarrow> translate_to_phys mmu P PAGE_TABLE_REGION_START slot;
            frame \<leftarrow> frame;
            P \<leftarrow> (case restore of None \<Rightarrow> Some P | Some phys \<Rightarrow> map_option snd (temp_set mmu P phys));
            Some (frame, P)
          });
       P \<leftarrow> table_set mmu P table index slot_phys flags;
       Some (slot, P)
     }
   }"

definition map_to_with ::
  "mmu \<Rightarrow> 'a slot_op \<Rightarrow> 'a paging_scheme \<Rightarrow> nat \<Rightarrow> nat \<Rightarrow> nat \<Rightarrow> u64 \<Rightarrow> ((nat \<times> nat \<times> nat) \<times> 'a paging_scheme) option" where
  "map_to_with mmu slots P table page frame flags = do {
     let is_phys = is_phys_identity table;
     let table_flags = PRESENT OR WRITABLE;
     let table_flags =
       (if flags_contain flags RING3_ACCESSIBLE then table_flags OR RING3_ACCESSIBLE else table_flags);
     (pml3, P) \<leftarrow> next_table_create mmu slots P table (p4_index page) is_phys table_flags;
     (pml2, P) \<leftarrow> next_table_create mmu slots P pml3 (p3_index page) is_phys table_flags;
     (pml1, P) \<leftarrow> next_table_create mmu slots P pml2 (p2_index page) is_phys table_flags;
     P \<leftarrow> table_set mmu P pml1 (p1_index page) frame (flags OR PRESENT);
     Some ((pml3, pml2, pml1), P)
   }"

definition pf_falloc :: "'a paging_scheme \<Rightarrow> (nat option \<times> 'a paging_scheme) option" where
  "pf_falloc P = do {
     (r, a) \<leftarrow> falloc (pg_frames P);
     Some (r, P\<lparr>pg_frames := a\<rparr>)
   }"

definition table_map_with :: "mmu \<Rightarrow> 'a slot_op \<Rightarrow> 'a paging_scheme \<Rightarrow> nat \<Rightarrow> nat \<Rightarrow> u64 \<Rightarrow> 'a paging_scheme option" where
  "table_map_with mmu slots P table page flags = do {
     (frame, P) \<leftarrow> pf_falloc P;
     frame \<leftarrow> frame;
     (_, P) \<leftarrow> map_to_with mmu slots P table page frame flags;
     Some P
   }"

fun map_pages_with :: "mmu \<Rightarrow> 'a slot_op \<Rightarrow> nat \<Rightarrow> u64 \<Rightarrow> nat list \<Rightarrow> 'a paging_scheme \<Rightarrow> 'a paging_scheme option" where
  "map_pages_with mmu slots table flags [] P = Some P"
| "map_pages_with mmu slots table flags (page # pages) P = do {
     P \<leftarrow> table_map_with mmu slots P table page flags;
     map_pages_with mmu slots table flags pages P
   }"

definition slots_update :: "(slot_allocator \<Rightarrow> slot_allocator) \<Rightarrow> 'a paging_scheme \<Rightarrow> 'a paging_scheme" where
  "slots_update f P = P\<lparr>pg_slots := f (pg_slots P)\<rparr>"

definition extend_region :: "mmu \<Rightarrow> 'a slot_op \<Rightarrow> 'a paging_scheme \<Rightarrow> 'a paging_scheme option" where
  "extend_region mmu slots P = do {
     let pml1_base = PAGE_TABLE_REGION_START + PAGE_SIZE * 512 * sa_pml1_count (pg_slots P);
     let start = page_for_address pml1_base;
     P \<leftarrow> map_pages_with mmu slots PAGE_TABLE_REGION_START (PRESENT OR WRITABLE) (page_range start (start + 512)) P;
     Some (slots_update (\<lambda>s. s\<lparr>sa_pml1_count := sa_pml1_count s + 1\<rparr>) P)
   }"

definition slot_alloc_step :: "mmu \<Rightarrow> ('a paging_scheme \<Rightarrow> 'a paging_scheme option) \<Rightarrow> 'a slot_op" where
  "slot_alloc_step mmu extension P =
     (let s = pg_slots P
      in if sa_init_done s \<and> sa_free_slots s \<noteq> [] then do {
           let addr = last (sa_free_slots s);
           P \<leftarrow> vwrite mmu (slots_update (\<lambda>s. s\<lparr>sa_free_slots := butlast (sa_free_slots s)\<rparr>) P) addr (replicate PAGE_SIZE 0);
           Some (addr, slots_update (\<lambda>s. s\<lparr>sa_allocated_page_tables := sa_allocated_page_tables s + 1\<rparr>) P)
         }
         else do {
           let offset = (if \<not> sa_init_done s then sa_first_phys_frame s else PAGE_TABLE_REGION_START);
           let addr = offset + sa_last_pml1_slot s * PAGE_SIZE;
           let P = slots_update (\<lambda>s. s\<lparr>sa_last_pml1_slot := sa_last_pml1_slot s + 1\<rparr>) P;
           P \<leftarrow> (if sa_last_pml1_slot (pg_slots P) = 510 then extension P else Some P);
           Some (addr, slots_update (\<lambda>s. s\<lparr>sa_allocated_page_tables := sa_allocated_page_tables s + 1\<rparr>) P)
         })"

text \<open>
  The extension runs when the slot counter has just become 510, and the counter only grows, so the
  slots that the extension itself allocates do not extend again: one level of nesting is enough.
\<close>

fun slot_alloc_depth :: "mmu \<Rightarrow> nat \<Rightarrow> 'a slot_op" where
  "slot_alloc_depth mmu 0 P = slot_alloc_step mmu (\<lambda>_. None) P"
| "slot_alloc_depth mmu (Suc n) P = slot_alloc_step mmu (extend_region mmu (slot_alloc_depth mmu n)) P"

definition slot_alloc :: "mmu \<Rightarrow> 'a slot_op" where
  "slot_alloc mmu = slot_alloc_depth mmu 1"

definition map_to :: "mmu \<Rightarrow> 'a paging_scheme \<Rightarrow> nat \<Rightarrow> nat \<Rightarrow> nat \<Rightarrow> u64 \<Rightarrow> ((nat \<times> nat \<times> nat) \<times> 'a paging_scheme) option" where
  "map_to mmu = map_to_with mmu (slot_alloc mmu)"

definition table_map :: "mmu \<Rightarrow> 'a paging_scheme \<Rightarrow> nat \<Rightarrow> nat \<Rightarrow> u64 \<Rightarrow> 'a paging_scheme option" where
  "table_map mmu = table_map_with mmu (slot_alloc mmu)"

definition map_range :: "mmu \<Rightarrow> 'a paging_scheme \<Rightarrow> nat \<Rightarrow> nat \<Rightarrow> nat \<Rightarrow> u64 \<Rightarrow> 'a paging_scheme option" where
  "map_range mmu P table start end flags =
     map_pages_with mmu (slot_alloc mmu) table flags (page_range start end) P"

definition map_identity :: "mmu \<Rightarrow> 'a paging_scheme \<Rightarrow> nat \<Rightarrow> nat \<Rightarrow> u64 \<Rightarrow> 'a paging_scheme option" where
  "map_identity mmu P table frame flags =
     map_option snd (map_to mmu P table (page_for_address (frame_start_address frame)) frame flags)"

fun map_frames_identity :: "mmu \<Rightarrow> nat \<Rightarrow> u64 \<Rightarrow> nat list \<Rightarrow> 'a paging_scheme \<Rightarrow> 'a paging_scheme option" where
  "map_frames_identity mmu table flags [] P = Some P"
| "map_frames_identity mmu table flags (frame # frames) P = do {
     P \<leftarrow> map_identity mmu P table frame flags;
     map_frames_identity mmu table flags frames P
   }"

definition map_range_identity :: "mmu \<Rightarrow> 'a paging_scheme \<Rightarrow> nat \<Rightarrow> nat \<Rightarrow> nat \<Rightarrow> u64 \<Rightarrow> 'a paging_scheme option" where
  "map_range_identity mmu P table start end flags = map_frames_identity mmu table flags (frame_range start end) P"

section \<open>Slots of page tables\<close>

definition slot_allocator_new :: "nat \<Rightarrow> slot_allocator" where
  "slot_allocator_new start =
     \<lparr> sa_region_start = start, sa_first_phys_frame = 0, sa_pml1_count = 0, sa_last_pml1_slot = 0,
       sa_pml2_addr = 0, sa_init_done = False, sa_allocated_page_tables = 0, sa_free_slots = [] \<rparr>"

definition slot_free :: "slot_allocator \<Rightarrow> nat \<Rightarrow> slot_allocator" where
  "slot_free s addr =
     (if \<not> sa_init_done s then s
      else if addr < sa_region_start s \<or> addr mod PAGE_SIZE \<noteq> 0 then s
      else
        (let region_end = sa_region_start s + sa_last_pml1_slot s * PAGE_SIZE
         in if addr \<ge> region_end \<or> addr \<in> set (sa_free_slots s) then s
            else s\<lparr>sa_free_slots := sa_free_slots s @ [addr],
                   sa_allocated_page_tables := sa_allocated_page_tables s - 1\<rparr>))"

fun addr_for_frame_loop :: "mmu \<Rightarrow> nat \<Rightarrow> nat \<Rightarrow> nat list \<Rightarrow> 'a paging_scheme \<Rightarrow> (nat option \<times> 'a paging_scheme) option" where
  "addr_for_frame_loop mmu start target [] P = Some (None, P)"
| "addr_for_frame_loop mmu start target (slot # slots) P = do {
     let addr = start + slot * PAGE_SIZE;
     (slot_frame, P) \<leftarrow> translate_to_phys mmu P PAGE_TABLE_REGION_START addr;
     case slot_frame of
       None \<Rightarrow> addr_for_frame_loop mmu start target slots P
     | Some f \<Rightarrow>
         if frame_start_address f = target then Some (Some addr, P)
         else addr_for_frame_loop mmu start target slots P
   }"

definition addr_for_frame :: "mmu \<Rightarrow> 'a paging_scheme \<Rightarrow> nat \<Rightarrow> (nat option \<times> 'a paging_scheme) option" where
  "addr_for_frame mmu P frame =
     addr_for_frame_loop mmu (sa_region_start (pg_slots P)) (frame_start_address frame)
       [0..<sa_last_pml1_slot (pg_slots P)] P"

text \<open>
  \<open>alloc_master_table\<close>: the 512 entries of the first PML1 of the region map consecutive frames; the
  frame allocated after the last iteration is never used.
\<close>

fun master_loop :: "mmu \<Rightarrow> nat \<Rightarrow> nat list \<Rightarrow> nat \<Rightarrow> (nat \<times> nat) option \<Rightarrow> 'a paging_scheme \<Rightarrow> ((nat \<times> nat) option \<times> 'a paging_scheme) option" where
  "master_loop mmu pml4 [] frame tables P = Some (tables, P)"
| "master_loop mmu pml4 (idx # idxs) frame tables P = do {
     let page = page_for_address (PAGE_TABLE_REGION_START + idx * PAGE_SIZE);
     ((_, pml2, pml1), P) \<leftarrow> map_to mmu P pml4 page frame (PRESENT OR WRITABLE);
     (frame, P) \<leftarrow> pf_falloc P;
     frame \<leftarrow> frame;
     master_loop mmu pml4 idxs frame (Some (pml2, pml1)) P
   }"

definition alloc_master_table :: "mmu \<Rightarrow> 'a paging_scheme \<Rightarrow> (nat \<times> 'a paging_scheme) option" where
  "alloc_master_table mmu P = do {
     (frame, P) \<leftarrow> pf_falloc P;
     frame \<leftarrow> frame;
     let pml4 = frame_start_address frame;
     let P = slots_update (\<lambda>s. s\<lparr>sa_last_pml1_slot := sa_last_pml1_slot s + 1, sa_first_phys_frame := pml4,
                                 sa_allocated_page_tables := sa_allocated_page_tables s + 1\<rparr>) P;
     let P = P\<lparr>pg_temp := \<lparr> tm_temp_addr = 0, tm_temp_entry_addr = 0 \<rparr>\<rparr>;
     (tables, P) \<leftarrow> master_loop mmu pml4 [0..<512] frame None P;
     (pml2, pml1) \<leftarrow> tables;
     let P = slots_update (\<lambda>s. s\<lparr>sa_pml2_addr := pml2, sa_pml1_count := sa_pml1_count s + 1, sa_init_done := True\<rparr>) P;
     (temp_addr, P) \<leftarrow> slot_alloc mmu P;
     let P = slots_update (\<lambda>s. s\<lparr>sa_init_done := False\<rparr>) P;
     let temp_p1_index = p1_index (page_for_address temp_addr);
     pml1_addr_offset \<leftarrow> checked_sub pml1 (sa_first_phys_frame (pg_slots P));
     let pml1_virt_addr = PAGE_TABLE_REGION_START + pml1_addr_offset;
     let temp_entry_addr = pml1_virt_addr + temp_p1_index * 8;
     Some (pml4, P\<lparr>pg_temp := \<lparr> tm_temp_addr = temp_addr, tm_temp_entry_addr = temp_entry_addr \<rparr>\<rparr>)
   }"

section \<open>Freeing the tables of a process\<close>

definition is_user_table_entry :: "u64 \<Rightarrow> bool" where
  "is_user_table_entry e \<longleftrightarrow>
     (let flags = entry_flags e
      in flags_contain flags PRESENT \<and> flags_contain flags RING3_ACCESSIBLE \<and> \<not> flags_contain flags HUGE_PAGE)"

definition user_table_frame :: "u64 \<Rightarrow> nat option" where
  "user_table_frame e = (if is_user_table_entry e then entry_get_frame e else None)"

definition table_entries :: "mmu \<Rightarrow> 'a paging_scheme \<Rightarrow> nat \<Rightarrow> u64 list option" where
  "table_entries mmu P table = those (map (table_entry mmu P table) [0..<512])"

text \<open>The two inner loops work on copies of the entries, the outer one reads the PML4 in place.\<close>

definition collect_pml2 :: "u64 list \<Rightarrow> nat list" where
  "collect_pml2 entries = List.map_filter user_table_frame entries"

fun collect_pml3 :: "mmu \<Rightarrow> u64 list \<Rightarrow> nat list \<Rightarrow> 'a paging_scheme \<Rightarrow> (nat list \<times> 'a paging_scheme) option" where
  "collect_pml3 mmu [] frames P = Some (frames, P)"
| "collect_pml3 mmu (e # es) frames P =
     (case user_table_frame e of
        None \<Rightarrow> collect_pml3 mmu es frames P
      | Some pml2_frame \<Rightarrow> do {
          (pml2, P) \<leftarrow> temp_set mmu P pml2_frame;
          pml2_entries \<leftarrow> table_entries mmu P pml2;
          collect_pml3 mmu es (frames @ pml2_frame # collect_pml2 pml2_entries) P
        })"

fun collect_pml4 :: "mmu \<Rightarrow> nat \<Rightarrow> nat list \<Rightarrow> nat list \<Rightarrow> 'a paging_scheme \<Rightarrow> (nat list \<times> 'a paging_scheme) option" where
  "collect_pml4 mmu table [] frames P = Some (frames, P)"
| "collect_pml4 mmu table (p4 # p4s) frames P = do {
     e \<leftarrow> table_entry mmu P table p4;
     case user_table_frame e of
       None \<Rightarrow> collect_pml4 mmu table p4s frames P
     | Some pml3_frame \<Rightarrow> do {
         (pml3, P) \<leftarrow> temp_set mmu P pml3_frame;
         pml3_entries \<leftarrow> table_entries mmu P pml3;
         (frames, P) \<leftarrow> collect_pml3 mmu pml3_entries (frames @ [pml3_frame]) P;
         collect_pml4 mmu table p4s frames P
       }
   }"

fun free_table_frames :: "mmu \<Rightarrow> nat list \<Rightarrow> 'a paging_scheme \<Rightarrow> 'a paging_scheme option" where
  "free_table_frames mmu [] P = Some P"
| "free_table_frames mmu (frame # frames) P = do {
     (addr, P) \<leftarrow> addr_for_frame mmu P frame;
     free_table_frames mmu frames
       (case addr of None \<Rightarrow> P | Some addr \<Rightarrow> slots_update (\<lambda>s. slot_free s addr) P)
   }"

definition free_user_subtables :: "mmu \<Rightarrow> 'a paging_scheme \<Rightarrow> nat \<Rightarrow> 'a paging_scheme option" where
  "free_user_subtables mmu P table = do {
     (frames, P) \<leftarrow> collect_pml4 mmu table [0..<512] [] P;
     free_table_frames mmu frames P
   }"

section \<open>Stacks\<close>

record page_iter =
  pi_start :: nat
  pi_end :: nat

record free_stack_range =
  fsr_start :: nat
  fsr_end :: nat
  fsr_user_pages :: nat

record stack_allocator =
  sk_range :: page_iter
  sk_free_ranges :: "free_stack_range list"

definition page_iter_next :: "page_iter \<Rightarrow> nat option \<times> page_iter" where
  "page_iter_next it =
     (if pi_start it > pi_end it then (None, it) else (Some (pi_start it), it\<lparr>pi_start := pi_start it + 1\<rparr>))"

text \<open>\<open>Iterator::nth\<close>: skip \<open>n\<close> items and give the next one.\<close>

fun page_iter_nth :: "page_iter \<Rightarrow> nat \<Rightarrow> nat option \<times> page_iter" where
  "page_iter_nth it 0 = page_iter_next it"
| "page_iter_nth it (Suc n) =
     (case page_iter_next it of
        (None, it) \<Rightarrow> (None, it)
      | (Some _, it) \<Rightarrow> page_iter_nth it n)"

definition stack_allocator_new :: "page_iter \<Rightarrow> stack_allocator" where
  "stack_allocator_new pages = \<lparr> sk_range = pages, sk_free_ranges = [] \<rparr>"

fun find_range :: "nat \<Rightarrow> free_stack_range list \<Rightarrow> (free_stack_range \<times> free_stack_range list) option" where
  "find_range n [] = None"
| "find_range n (r # rs) =
     (if fsr_user_pages r = n then Some (r, rs)
      else map_option (\<lambda>(x, ys). (x, r # ys)) (find_range n rs))"

definition stack_of_pages :: "nat \<Rightarrow> nat \<Rightarrow> stack" where
  "stack_of_pages start end = \<lparr> stk_top = page_start_address end + PAGE_SIZE, stk_bottom = page_start_address start \<rparr>"

definition stack_alloc ::
  "mmu \<Rightarrow> stack_allocator \<Rightarrow> 'a paging_scheme \<Rightarrow> nat \<Rightarrow> nat \<Rightarrow> u64 \<Rightarrow> (stack option \<times> stack_allocator \<times> 'a paging_scheme) option" where
  "stack_alloc mmu S P table pages_to_alloc flags =
     (if pages_to_alloc = 0 then Some (None, S, P)
      else
        case find_range pages_to_alloc (sk_free_ranges S) of
          Some (r, rest) \<Rightarrow> do {
            P \<leftarrow> map_range mmu P table (fsr_start r) (fsr_end r) flags;
            Some (Some (stack_of_pages (fsr_start r) (fsr_end r)), S\<lparr>sk_free_ranges := rest\<rparr>, P)
          }
        | None \<Rightarrow>
            (let (guard, pages) = page_iter_next (sk_range S);
                 (start, pages) = page_iter_next pages;
                 (end, pages) = (if pages_to_alloc = 1 then (start, pages) else page_iter_nth pages (pages_to_alloc - 2))
             in case (guard, start, end) of
                  (Some _, Some start, Some end) \<Rightarrow> do {
                    P \<leftarrow> map_range mmu P table start end flags;
                    Some (Some (stack_of_pages start end), S\<lparr>sk_range := pages\<rparr>, P)
                  }
                | _ \<Rightarrow> Some (None, S, P)))"

definition stack_free :: "stack_allocator \<Rightarrow> stack \<Rightarrow> stack_allocator" where
  "stack_free S stack =
     (if stk_bottom stack < PAGE_SIZE \<or> stk_top stack \<le> stk_bottom stack then S
      else S\<lparr>sk_free_ranges := sk_free_ranges S @
        [\<lparr> fsr_start = page_for_address (stk_bottom stack), fsr_end = page_for_address (stk_top stack - 1),
           fsr_user_pages = (stk_top stack - stk_bottom stack) div PAGE_SIZE \<rparr>]\<rparr>)"

section \<open>The memory controller\<close>

record memory_controller = paging +
  mc_active_table :: nat
  mc_kernel_table :: nat
  mc_stacks :: stack_allocator

type_synonym 'a controller = "'a memory_controller_scheme"

definition mc_alloc_stack :: "mmu \<Rightarrow> 'a controller \<Rightarrow> nat \<Rightarrow> bool \<Rightarrow> (stack option \<times> 'a controller) option" where
  "mc_alloc_stack mmu C pages_to_alloc user = do {
     let flags = (if user then WRITABLE OR RING3_ACCESSIBLE else WRITABLE);
     (r, S, C) \<leftarrow> stack_alloc mmu (mc_stacks C) C (mc_active_table C) pages_to_alloc flags;
     Some (r, C\<lparr>mc_stacks := S\<rparr>)
   }"

definition mc_identity_map :: "mmu \<Rightarrow> 'a controller \<Rightarrow> nat \<Rightarrow> nat \<Rightarrow> u64 \<Rightarrow> 'a controller option" where
  "mc_identity_map mmu C start end flags = do {
     (unused, C) \<leftarrow> is_unused mmu C (mc_active_table C) (page_for_address (frame_start_address start));
     if \<not> unused then Some C
     else map_frames_identity mmu (mc_active_table C) flags (frame_range start end) C
   }"

definition mc_translate_to_physical :: "mmu \<Rightarrow> 'a controller \<Rightarrow> nat \<Rightarrow> (nat option \<times> 'a controller) option" where
  "mc_translate_to_physical mmu C addr = translate_to_phys mmu C (mc_active_table C) addr"

definition mc_map :: "mmu \<Rightarrow> 'a controller \<Rightarrow> nat \<Rightarrow> nat \<Rightarrow> u64 \<Rightarrow> 'a controller option" where
  "mc_map mmu C start end flags =
     map_pages_with mmu (slot_alloc mmu) (mc_active_table C) flags (page_range start end) C"

fun unmap_pages :: "mmu \<Rightarrow> nat \<Rightarrow> nat list \<Rightarrow> 'a paging_scheme \<Rightarrow> 'a paging_scheme option" where
  "unmap_pages mmu table [] P = Some P"
| "unmap_pages mmu table (page # pages) P = do {
     (frame, P) \<leftarrow> table_unmap mmu P table page;
     unmap_pages mmu table pages
       (case frame of None \<Rightarrow> P | Some f \<Rightarrow> P\<lparr>pg_frames := ffree (pg_frames P) f\<rparr>)
   }"

definition mc_unmap :: "mmu \<Rightarrow> 'a controller \<Rightarrow> nat \<Rightarrow> nat \<Rightarrow> 'a controller option" where
  "mc_unmap mmu C start end = unmap_pages mmu (mc_active_table C) (page_range start end) C"

definition mc_free_stack :: "mmu \<Rightarrow> 'a controller \<Rightarrow> stack \<Rightarrow> 'a controller option" where
  "mc_free_stack mmu C stack =
     (if stk_top stack \<le> stk_bottom stack then Some C
      else do {
        C \<leftarrow> vwrite mmu C (stk_bottom stack) (replicate (stk_top stack - stk_bottom stack) 0);
        C \<leftarrow> mc_unmap mmu C (page_for_address (stk_bottom stack)) (page_for_address (stk_top stack - 1));
        Some (C\<lparr>mc_stacks := stack_free (mc_stacks C) stack\<rparr>)
      })"

definition clone_kernel_table :: "mmu \<Rightarrow> 'a controller \<Rightarrow> (nat \<times> 'a controller) option" where
  "clone_kernel_table mmu C = do {
     (slot, C) \<leftarrow> slot_alloc mmu C;
     bs \<leftarrow> vread mmu C (mc_kernel_table C) PAGE_SIZE;
     C \<leftarrow> vwrite mmu C slot bs;
     Some (slot, C)
   }"

definition switch_table :: "mmu \<Rightarrow> 'a controller \<Rightarrow> nat \<Rightarrow> (nat option \<times> 'a controller) option" where
  "switch_table mmu C new_table =
     (if new_table < PAGE_TABLE_REGION_START then Some (None, C)
      else do {
        (phys_frame, C) \<leftarrow> translate_to_phys mmu C (mc_active_table C) new_table;
        case phys_frame of
          None \<Rightarrow> Some (None, C)
        | Some f \<Rightarrow> Some (Some (mc_active_table C), C\<lparr>pg_cr3 := f, mc_active_table := new_table\<rparr>)
      })"

end
