(* ===== verification/Paging_Walk.thy ===== *)
theory Paging_Walk
  imports Paging
begin

text \<open>
  The page table code against the processor: the reference walk of the four levels, the temporary
  mapping window through which the kernel reaches every table, and that the software walk through
  that window computes what the processor computes.
\<close>

section \<open>What the processor does\<close>

text \<open>
  An entry of the table in a frame, the frames and the entries the four-level walk of a page from a
  root frame goes through, and the translation.
\<close>

definition pte_at :: "memory \<Rightarrow> nat \<Rightarrow> nat \<Rightarrow> u64" where
  "pte_at m f i = of_nat (le_value (mem_read m (f * 4096 + 8 * i) 8))"

definition set_pte :: "memory \<Rightarrow> nat \<Rightarrow> nat \<Rightarrow> u64 \<Rightarrow> memory" where
  "set_pte m f i w = mem_write m (f * 4096 + 8 * i) (le64 w)"

fun walk_table :: "memory \<Rightarrow> nat \<Rightarrow> nat list \<Rightarrow> nat option" where
  "walk_table m f [] = Some f"
| "walk_table m f (i # is) = do { g \<leftarrow> entry_get_frame (pte_at m f i); walk_table m g is }"

fun walk_words :: "memory \<Rightarrow> nat \<Rightarrow> nat list \<Rightarrow> (nat \<times> nat) list" where
  "walk_words m f [] = []"
| "walk_words m f (i # is) =
     (f, i) # (case entry_get_frame (pte_at m f i) of None \<Rightarrow> [] | Some g \<Rightarrow> walk_words m g is)"

definition upper_indices :: "nat \<Rightarrow> nat list" where
  "upper_indices p = [p4_index p, p3_index p, p2_index p]"

definition all_indices :: "nat \<Rightarrow> nat list" where
  "all_indices p = [p4_index p, p3_index p, p2_index p, p1_index p]"

definition pml1_frame :: "memory \<Rightarrow> nat \<Rightarrow> nat \<Rightarrow> nat option" where
  "pml1_frame m root p = walk_table m root (upper_indices p)"

definition hw_walk :: "memory \<Rightarrow> nat \<Rightarrow> nat \<Rightarrow> nat option" where
  "hw_walk m root p = walk_table m root (all_indices p)"

definition small_pages :: "memory \<Rightarrow> nat \<Rightarrow> nat \<Rightarrow> bool" where
  "small_pages m root p \<longleftrightarrow>
     (\<forall>(f, i) \<in> set (walk_words m root (upper_indices p)). \<not> flags_contain (entry_flags (pte_at m f i)) HUGE_PAGE)"

text \<open>
  The processor translates a page of the lower half of the address space by the four-level walk, if
  no entry on the way maps a huge page.
\<close>

definition walks_four_levels :: "mmu \<Rightarrow> bool" where
  "walks_four_levels mmu \<longleftrightarrow> (\<forall>m c p. p < 2 ^ 35 \<longrightarrow> small_pages m c p \<longrightarrow> mmu m c p = hw_walk m c p)"

subsection \<open>Entries in memory\<close>

lemma pte_at_set_pte:
  assumes "i < 512" "j < 512"
  shows "pte_at (set_pte m f i w) g j = (if f = g \<and> i = j then w else pte_at m g j)"
proof (cases "f = g \<and> i = j")
  case True
  then show ?thesis by (simp add: pte_at_def set_pte_def)
next
  case False
  have "g * 4096 + 8 * j + 8 \<le> f * 4096 + 8 * i \<or> f * 4096 + 8 * i + 8 \<le> g * 4096 + 8 * j"
    using assms False by (cases f g rule: linorder_cases) auto
  with False show ?thesis
    by (auto simp: pte_at_def set_pte_def mem_read_write_other)
qed

lemma set_pte_twice [simp]: "set_pte (set_pte m f i v) f i w = set_pte m f i w"
  by (rule ext) (simp add: set_pte_def mem_write_def)

lemma walk_table_append: "walk_table m f (is @ js) = walk_table m f is \<bind> (\<lambda>g. walk_table m g js)"
  by (induction "is" arbitrary: f) (auto split: Option.bind_splits)

lemma hw_walk_pml1: "hw_walk m r p = pml1_frame m r p \<bind> (\<lambda>f. entry_get_frame (pte_at m f (p1_index p)))"
proof -
  have "all_indices p = upper_indices p @ [p1_index p]" by (simp add: all_indices_def upper_indices_def)
  then show ?thesis unfolding hw_walk_def pml1_frame_def
    by (simp only: walk_table_append) (cases "walk_table m r (upper_indices p)", auto split: Option.bind_splits)
qed

lemma walk_set_pte:
  assumes "(f, i) \<notin> set (walk_words m r is)" "i < 512" "\<forall>j \<in> set is. j < 512"
  shows "walk_table (set_pte m f i w) r is = walk_table m r is
    \<and> walk_words (set_pte m f i w) r is = walk_words m r is"
  using assms
proof (induction "is" arbitrary: r)
  case (Cons j js)
  have "pte_at (set_pte m f i w) r j = pte_at m r j"
    using Cons.prems by (auto simp: pte_at_set_pte)
  then show ?case using Cons by (auto split: option.splits Option.bind_splits)
qed simp

lemma words_index: "(g, j) \<in> set (walk_words m r is) \<Longrightarrow> j \<in> set is"
  by (induction "is" arbitrary: r) (auto split: option.splits)

lemma indices_less: "j \<in> set (upper_indices p) \<Longrightarrow> j < 512" "j \<in> set (all_indices p) \<Longrightarrow> j < 512"
  by (auto simp: upper_indices_def all_indices_def)

lemma small_pages_set_pte:
  assumes "(f, i) \<notin> set (walk_words m r (upper_indices p))" "i < 512"
  shows "small_pages (set_pte m f i w) r p = small_pages m r p"
proof -
  have w: "walk_words (set_pte m f i w) r (upper_indices p) = walk_words m r (upper_indices p)"
    using walk_set_pte [OF assms] indices_less by blast
  have "pte_at (set_pte m f i w) g j = pte_at m g j"
    if "(g, j) \<in> set (walk_words m r (upper_indices p))" for g j
    using that assms words_index [OF that] indices_less(1) [of j p] by (auto simp: pte_at_set_pte)
  then show ?thesis unfolding small_pages_def w by fastforce
qed

lemma upper_words_subset: "set (walk_words m r (upper_indices p)) \<subseteq> set (walk_words m r (all_indices p))"
  by (auto simp: upper_indices_def all_indices_def split: option.splits)

lemma leaf_word: "pml1_frame m r p = Some f \<Longrightarrow> (f, p1_index p) \<in> set (walk_words m r (all_indices p))"
  by (auto simp: pml1_frame_def upper_indices_def all_indices_def split: option.splits Option.bind_splits)

subsection \<open>Values of entries\<close>

definition flag_bits :: "u64 \<Rightarrow> bool" where
  "flag_bits flags \<longleftrightarrow> flags AND 0x80000000000001FF = flags"

lemma entry_frame_bound: "entry_get_frame e = Some f \<Longrightarrow> f < 2 ^ 40"
proof -
  assume a: "entry_get_frame e = Some f"
  have "unat (e AND 0x000FFFFFFFFFF000) \<le> unat (0x000FFFFFFFFFF000 :: u64)"
    by (simp only: word_le_nat_alt [symmetric] word_and_le1)
  then have "unat (e AND 0x000FFFFFFFFFF000) \<le> 0x000FFFFFFFFFF000" by simp
  then have "unat (e AND 0x000FFFFFFFFFF000) div 4096 < 2 ^ 40"
    by (simp add: div_less_iff_less_mult)
  with a show ?thesis by (auto simp: entry_get_frame_def frame_from_address_def PAGE_SIZE_def split: if_splits)
qed

lemma frame_address_masks:
  assumes "f < 2 ^ 40"
  shows "(of_nat (f * 4096) :: u64) AND 0x000FFFFFFFFFF000 = of_nat (f * 4096)"
    and "(of_nat (f * 4096) :: u64) AND NOT 0x000FFFFFFFFFF000 = 0"
    and "(of_nat (f * 4096) :: u64) AND 0x80000000000001FF = 0"
proof -
  have e: "(of_nat (f * 4096) :: u64) = push_bit 12 (of_nat f)"
    by (simp add: push_bit_eq_mult mult.commute)
  have b: "bit (of_nat f :: u64) n \<Longrightarrow> n < 40" for n
    using assms by (metis bit_of_nat_iff bit_take_bit_iff take_bit_nat_eq_self)
  have m: "(0x000FFFFFFFFFF000 :: u64) = push_bit 12 (mask 40)"
    by (simp add: mask_eq_exp_minus_1 push_bit_eq_mult)
  have n: "(0x80000000000001FF :: u64) = mask 9 OR push_bit 63 1"
    by (simp add: mask_eq_exp_minus_1 push_bit_eq_mult)
  show "(of_nat (f * 4096) :: u64) AND 0x000FFFFFFFFFF000 = of_nat (f * 4096)"
    unfolding e m by (rule bit_word_eqI) (auto simp: bit_and_iff bit_push_bit_iff bit_mask_iff dest: b)
  show "(of_nat (f * 4096) :: u64) AND NOT 0x000FFFFFFFFFF000 = 0"
    unfolding e m by (rule bit_word_eqI) (auto simp: bit_and_iff bit_not_iff bit_push_bit_iff bit_mask_iff dest: b)
  show "(of_nat (f * 4096) :: u64) AND 0x80000000000001FF = 0"
    unfolding e n
    by (rule bit_word_eqI, simp only: bit_and_iff bit_or_iff bit_push_bit_iff bit_mask_iff bit_1_iff bit_0_eq)
       (auto dest: b)
qed

lemma entry_value_Some: "f < 2 ^ 40 \<Longrightarrow> entry_value f flags = Some (of_nat (f * 4096) OR flags)"
  using frame_address_masks(2) [of f]
  by (simp add: entry_value_def frame_start_address_def PAGE_SIZE_def usize_bound_def)

lemma entry_value_flags:
  assumes "f < 2 ^ 40" "flag_bits flags"
  shows "entry_flags (of_nat (f * 4096) OR flags) = flags"
  using frame_address_masks(3) [OF assms(1)] assms(2)
  by (simp only: entry_flags_def from_bits_truncate_def bit.conj_disj_distrib2 flag_bits_def) simp

lemma entry_value_frame:
  assumes "f < 2 ^ 40" "flag_bits flags" "flags_contain flags PRESENT"
  shows "entry_get_frame (of_nat (f * 4096) OR flags) = Some f"
proof -
  have "flags AND 0x000FFFFFFFFFF000 = (flags AND 0x80000000000001FF) AND 0x000FFFFFFFFFF000"
    using assms(2) by (simp add: flag_bits_def)
  also have "\<dots> = flags AND (0x80000000000001FF AND 0x000FFFFFFFFFF000)" by (simp only: and.assoc)
  finally have z: "flags AND 0x000FFFFFFFFFF000 = 0" by simp
  have "(of_nat (f * 4096) OR flags :: u64) AND 0x000FFFFFFFFFF000 = of_nat (f * 4096)"
    by (simp only: bit.conj_disj_distrib2 frame_address_masks(1) [OF assms(1)] z) simp
  moreover have "unat (of_nat (f * 4096) :: u64) = f * 4096"
    using assms(1) by (simp only: unsigned_of_nat) (simp add: take_bit_nat_eq_self)
  ultimately show ?thesis
    using assms(3) unfolding entry_get_frame_def entry_value_flags [OF assms(1,2)] frame_from_address_def PAGE_SIZE_def
    by simp
qed

lemma flag_bits_or: "flag_bits a \<Longrightarrow> flag_bits b \<Longrightarrow> flag_bits (a OR b)"
  by (simp only: flag_bits_def bit.conj_disj_distrib2)

lemma flag_bits_flags [simp]: "flag_bits (entry_flags e)" "flag_bits PRESENT" "flag_bits WRITABLE" "flag_bits RING3_ACCESSIBLE"
  by (simp_all add: flag_bits_def entry_flags_def from_bits_truncate_def PRESENT_def WRITABLE_def RING3_ACCESSIBLE_def and.assoc)

section \<open>The temporary mapping window\<close>

definition temp_page :: "'a paging_scheme \<Rightarrow> nat" where
  "temp_page P = tm_temp_addr (pg_temp P) div 4096"

definition entry_page :: "'a paging_scheme \<Rightarrow> nat" where
  "entry_page P = tm_temp_entry_addr (pg_temp P) div 4096"

text \<open>
  \<open>window P w\<close>: the PML1 of the temporary page is the table in frame \<open>w\<close>, the address of the
  temporary entry reaches that table, and neither translation depends on the temporary entry.
\<close>

definition window :: "'a paging_scheme \<Rightarrow> nat \<Rightarrow> bool" where
  "window P w \<longleftrightarrow>
     (let m = pg_phys P; c = pg_cr3 P; tp = temp_page P; ep = entry_page P
      in tm_temp_addr (pg_temp P) mod 4096 = 0 \<and> tm_temp_entry_addr (pg_temp P) mod 4096 = 8 * p1_index tp
         \<and> tp < 2 ^ 35 \<and> ep < 2 ^ 35 \<and> small_pages m c tp \<and> small_pages m c ep
         \<and> pml1_frame m c tp = Some w \<and> hw_walk m c ep = Some w
         \<and> (w, p1_index tp) \<notin> set (walk_words m c (upper_indices tp))
         \<and> (w, p1_index tp) \<notin> set (walk_words m c (all_indices ep)))"

text \<open>The address \<open>a\<close> reaches the table in frame \<open>r\<close>, wherever the window points.\<close>

definition reaches :: "'a paging_scheme \<Rightarrow> nat \<Rightarrow> nat \<Rightarrow> nat \<Rightarrow> bool" where
  "reaches P w a r \<longleftrightarrow>
     (let m = pg_phys P; c = pg_cr3 P; p = a div 4096
      in a mod 4096 = 0 \<and> p < 2 ^ 35 \<and> small_pages m c p \<and> hw_walk m c p = Some r
         \<and> (w, p1_index (temp_page P)) \<notin> set (walk_words m c (all_indices p)))"

text \<open>The state after the window has been pointed at frame \<open>f\<close>.\<close>

definition retarget :: "'a paging_scheme \<Rightarrow> nat \<Rightarrow> nat \<Rightarrow> 'a paging_scheme" where
  "retarget P w f =
     P\<lparr>pg_phys := set_pte (pg_phys P) w (p1_index (temp_page P)) (of_nat (f * 4096) OR (PRESENT OR WRITABLE))\<rparr>"

lemma retarget_sel [simp]:
  "pg_cr3 (retarget P w f) = pg_cr3 P" "pg_temp (retarget P w f) = pg_temp P"
  "pg_frames (retarget P w f) = pg_frames P" "pg_slots (retarget P w f) = pg_slots P"
  "temp_page (retarget P w f) = temp_page P" "entry_page (retarget P w f) = entry_page P"
  by (simp_all add: retarget_def temp_page_def entry_page_def)

lemma retarget_twice [simp]: "retarget (retarget P w f) w g = retarget P w g"
  by (simp add: retarget_def temp_page_def)

lemma pg_phys_retarget:
  "pg_phys (retarget P w f) = set_pte (pg_phys P) w (p1_index (temp_page P)) (of_nat (f * 4096) OR (PRESENT OR WRITABLE))"
  by (simp add: retarget_def)

lemma pte_at_retarget:
  "j < 512 \<Longrightarrow> (g, j) \<noteq> (w, p1_index (temp_page P)) \<Longrightarrow> pte_at (pg_phys (retarget P w f)) g j = pte_at (pg_phys P) g j"
  by (auto simp: pg_phys_retarget pte_at_set_pte)

lemma present_writable: "flag_bits (PRESENT OR WRITABLE)" "flags_contain (PRESENT OR WRITABLE) PRESENT"
  "\<not> flags_contain (PRESENT OR WRITABLE) RING3_ACCESSIBLE"
  by (simp_all add: flag_bits_def flags_contain_def PRESENT_def WRITABLE_def RING3_ACCESSIBLE_def)

lemma temp_entry_retarget:
  assumes "f < 2 ^ 40"
  shows "entry_get_frame (pte_at (pg_phys (retarget P w f)) w (p1_index (temp_page P))) = Some f"
    and "entry_flags (pte_at (pg_phys (retarget P w f)) w (p1_index (temp_page P))) = (PRESENT OR WRITABLE)"
  using entry_value_frame [OF assms present_writable(1,2)] entry_value_flags [OF assms present_writable(1)]
  by (simp_all add: pg_phys_retarget pte_at_set_pte)

lemma walk_retarget:
  assumes "(w, p1_index (temp_page P)) \<notin> set (walk_words (pg_phys P) r (all_indices p))"
  shows "hw_walk (pg_phys (retarget P w f)) r p = hw_walk (pg_phys P) r p"
    and "walk_words (pg_phys (retarget P w f)) r (all_indices p) = walk_words (pg_phys P) r (all_indices p)"
    and "small_pages (pg_phys (retarget P w f)) r p = small_pages (pg_phys P) r p"
  using walk_set_pte [OF assms page_index_less(4), of "of_nat (f * 4096) OR (PRESENT OR WRITABLE)"] indices_less(2)
    small_pages_set_pte [of w "p1_index (temp_page P)" "pg_phys P" r p] assms upper_words_subset [of "pg_phys P" r p]
  unfolding hw_walk_def pg_phys_retarget by (blast, blast, auto)

lemma upper_retarget:
  assumes "(w, p1_index (temp_page P)) \<notin> set (walk_words (pg_phys P) r (upper_indices p))"
  shows "pml1_frame (pg_phys (retarget P w f)) r p = pml1_frame (pg_phys P) r p"
    and "walk_words (pg_phys (retarget P w f)) r (upper_indices p) = walk_words (pg_phys P) r (upper_indices p)"
    and "small_pages (pg_phys (retarget P w f)) r p = small_pages (pg_phys P) r p"
  using walk_set_pte [OF assms page_index_less(4), of "of_nat (f * 4096) OR (PRESENT OR WRITABLE)"] indices_less(1)
    small_pages_set_pte [OF assms page_index_less(4)]
  unfolding pml1_frame_def pg_phys_retarget by (blast, blast, auto)

lemma window_retarget: "window P w \<Longrightarrow> window (retarget P w f) w"
  unfolding window_def Let_def by (simp add: walk_retarget upper_retarget)

lemma reaches_retarget: "reaches P w a r \<Longrightarrow> reaches (retarget P w f) w a r"
  unfolding reaches_def Let_def by (simp add: walk_retarget)

lemma mmu_temp:
  assumes "walks_four_levels mmu" "window P w" "f < 2 ^ 40"
  shows "mmu (pg_phys (retarget P w f)) (pg_cr3 P) (temp_page P) = Some f"
proof -
  have w: "window (retarget P w f) w" by (rule window_retarget [OF assms(2)])
  then have "mmu (pg_phys (retarget P w f)) (pg_cr3 P) (temp_page P) = hw_walk (pg_phys (retarget P w f)) (pg_cr3 P) (temp_page P)"
    using assms(1) unfolding walks_four_levels_def window_def Let_def by simp
  also have "\<dots> = Some f"
    using w temp_entry_retarget(1) [OF assms(3)] unfolding hw_walk_pml1 window_def Let_def by simp
  finally show ?thesis .
qed

lemma mmu_reaches:
  "walks_four_levels mmu \<Longrightarrow> reaches P w a r \<Longrightarrow> mmu (pg_phys P) (pg_cr3 P) (a div 4096) = Some r"
  unfolding walks_four_levels_def reaches_def Let_def by simp

lemma temp_set_window:
  assumes "walks_four_levels mmu" "window P w" "f < 2 ^ 40"
  shows "temp_set mmu P f = Some (tm_temp_addr (pg_temp P), retarget P w f)"
proof -
  have "mmu (pg_phys P) (pg_cr3 P) (entry_page P) = Some w"
    using assms(1,2) unfolding walks_four_levels_def window_def Let_def by simp
  moreover have "tm_temp_entry_addr (pg_temp P) mod 4096 = 8 * p1_index (temp_page P)"
    using assms(2) unfolding window_def Let_def by simp
  ultimately show ?thesis
    by (simp add: temp_set_def entry_value_Some [OF assms(3)] write64_def phys_of_def entry_page_def [symmetric]
        retarget_def set_pte_def)
qed

section \<open>The software walk\<close>

lemma table_entry_mmu:
  assumes "a mod 4096 = 0" "i < 512" "mmu (pg_phys P) (pg_cr3 P) (a div 4096) = Some r"
  shows "table_entry mmu P a i = Some (pte_at (pg_phys P) r i)"
proof -
  obtain k where k: "a = 4096 * k" using assms(1) by auto
  have "(a + 8 * i) div 4096 = a div 4096" "(a + 8 * i) mod 4096 = 8 * i"
    using assms(2) by (simp_all add: k)
  then show ?thesis using assms(3) by (simp add: table_entry_def read64_def phys_of_def pte_at_def)
qed

lemma next_table_temp_mmu:
  assumes "walks_four_levels mmu" "window P w" "a mod 4096 = 0" "i < 512"
    and "mmu (pg_phys P) (pg_cr3 P) (a div 4096) = Some r"
  shows "next_table_temp mmu P a i =
    Some (case entry_get_frame (pte_at (pg_phys P) r i) of
            None \<Rightarrow> (None, P) | Some f \<Rightarrow> (Some (tm_temp_addr (pg_temp P)), retarget P w f))"
proof (cases "entry_get_frame (pte_at (pg_phys P) r i)")
  case None
  then show ?thesis by (simp add: next_table_temp_def table_entry_mmu [of a i mmu P r] assms)
next
  case (Some f)
  have "\<not> entry_is_unused (pte_at (pg_phys P) r i)"
    using Some by (auto simp: entry_is_unused_def entry_get_frame_def entry_flags_def from_bits_truncate_def flags_contain_def PRESENT_def split: if_splits)
  with Some show ?thesis
    by (simp add: next_table_temp_def table_entry_mmu [of a i mmu P r] assms(3-5)
        temp_set_window [OF assms(1,2) entry_frame_bound [OF Some]])
qed

definition temp_moved :: "'a paging_scheme \<Rightarrow> nat \<Rightarrow> 'a paging_scheme \<Rightarrow> bool" where
  "temp_moved P w P' \<longleftrightarrow> P' = P \<or> (\<exists>f < 2 ^ 40. P' = retarget P w f)"

lemma temp_moved_trans: "temp_moved P w P' \<Longrightarrow> temp_moved P' w P'' \<Longrightarrow> temp_moved P w P''"
  unfolding temp_moved_def by auto

text \<open>One step of the walk through the window, from the table in frame \<open>g\<close> that it shows.\<close>

lemma next_table_temp_step:
  assumes "walks_four_levels mmu" "window P w" "g < 2 ^ 40" "i < 512" "(g, i) \<noteq> (w, p1_index (temp_page P))"
  shows "next_table_temp mmu (retarget P w g) (tm_temp_addr (pg_temp P)) i =
    Some (case entry_get_frame (pte_at (pg_phys P) g i) of
            None \<Rightarrow> (None, retarget P w g) | Some f \<Rightarrow> (Some (tm_temp_addr (pg_temp P)), retarget P w f))"
proof -
  have a: "tm_temp_addr (pg_temp P) mod 4096 = 0" using assms(2) unfolding window_def Let_def by simp
  have m: "mmu (pg_phys (retarget P w g)) (pg_cr3 (retarget P w g)) (tm_temp_addr (pg_temp P) div 4096) = Some g"
    using mmu_temp [OF assms(1-3)] by (simp add: temp_page_def)
  show ?thesis
    using next_table_temp_mmu [of mmu "retarget P w g" w "tm_temp_addr (pg_temp P)" i g, OF assms(1) window_retarget [OF assms(2)] a assms(4) m]
      pte_at_retarget [OF assms(4,5)]
    by (simp cong: option.case_cong)
qed

lemma walk_to_pml1_correct:
  assumes "walks_four_levels mmu" "window P w" "reaches P w a r"
    and t: "(w, p1_index (temp_page P)) \<notin> set (walk_words (pg_phys P) r (upper_indices p))"
  shows "\<exists>P'. walk_to_pml1 mmu P a p = Some (map_option (\<lambda>_. tm_temp_addr (pg_temp P)) (pml1_frame (pg_phys P) r p), P')
    \<and> temp_moved P w P' \<and> (\<forall>f. pml1_frame (pg_phys P) r p = Some f \<longrightarrow> f < 2 ^ 40 \<and> P' = retarget P w f)"
proof -
  let ?m = "pg_phys P"
  have a: "a mod 4096 = 0" using assms(3) unfolding reaches_def Let_def by simp
  note s4 = next_table_temp_mmu [of mmu P w a "p4_index p" r, OF assms(1,2) a page_index_less(1) mmu_reaches [OF assms(1,3)]]
  show ?thesis
  proof (cases "entry_get_frame (pte_at ?m r (p4_index p))")
    case None
    then show ?thesis by (simp add: walk_to_pml1_def s4 pml1_frame_def upper_indices_def temp_moved_def)
  next
    case f3: (Some f3)
    note b3 = entry_frame_bound [OF f3]
    have "(f3, p3_index p) \<noteq> (w, p1_index (temp_page P))"
      using t f3 by (auto simp: upper_indices_def)
    note s3 = next_table_temp_step [OF assms(1,2) b3 page_index_less(2) this]
    show ?thesis
    proof (cases "entry_get_frame (pte_at ?m f3 (p3_index p))")
      case None
      then show ?thesis using f3 s3 b3
        by (auto simp: walk_to_pml1_def s4 pml1_frame_def upper_indices_def temp_moved_def)
    next
      case f2: (Some f2)
      note b2 = entry_frame_bound [OF f2]
      have "(f2, p2_index p) \<noteq> (w, p1_index (temp_page P))"
        using t f3 f2 by (auto simp: upper_indices_def)
      note s2 = next_table_temp_step [OF assms(1,2) b2 page_index_less(3) this]
      show ?thesis
        using f3 f2 s3 s2 b2 entry_frame_bound [of "pte_at ?m f2 (p2_index p)"]
        by (cases "entry_get_frame (pte_at ?m f2 (p2_index p))")
           (auto simp: walk_to_pml1_def s4 pml1_frame_def upper_indices_def temp_moved_def)
    qed
  qed
qed

lemma table_entry_window:
  assumes "walks_four_levels mmu" "window P w" "f < 2 ^ 40" "i < 512"
  shows "table_entry mmu (retarget P w f) (tm_temp_addr (pg_temp P)) i = Some (pte_at (pg_phys (retarget P w f)) f i)"
proof -
  have "tm_temp_addr (pg_temp P) mod 4096 = 0" using assms(2) unfolding window_def Let_def by simp
  then show ?thesis
    using mmu_temp [OF assms(1-3)] by (intro table_entry_mmu assms(4)) (simp_all add: temp_page_def)
qed

lemma translate_walk:
  assumes "walks_four_levels mmu" "window P w" "reaches P w a r"
    and t: "(w, p1_index (temp_page P)) \<notin> set (walk_words (pg_phys P) r (all_indices (addr div 4096)))"
  shows "\<exists>P'. translate_to_phys mmu P a addr = Some (hw_walk (pg_phys P) r (addr div 4096), P') \<and> temp_moved P w P'"
proof -
  let ?p = "addr div 4096"
  obtain P' where P': "walk_to_pml1 mmu P a ?p = Some (map_option (\<lambda>_. tm_temp_addr (pg_temp P)) (pml1_frame (pg_phys P) r ?p), P')"
      "temp_moved P w P'" "\<And>f. pml1_frame (pg_phys P) r ?p = Some f \<Longrightarrow> f < 2 ^ 40 \<and> P' = retarget P w f"
    using walk_to_pml1_correct [OF assms(1-3), of ?p] t upper_words_subset [of "pg_phys P" r ?p] by fastforce
  show ?thesis
  proof (cases "pml1_frame (pg_phys P) r ?p")
    case None
    with P' show ?thesis by (simp add: translate_to_phys_def page_for_address_def PAGE_SIZE_def hw_walk_pml1)
  next
    case (Some f)
    note f = P'(3) [OF Some]
    have "(f, p1_index ?p) \<noteq> (w, p1_index (temp_page P))" using leaf_word [OF Some] t by auto
    note e = pte_at_retarget [OF page_index_less(4) this, of f]
    have "table_entry mmu P' (tm_temp_addr (pg_temp P)) (p1_index ?p) = Some (pte_at (pg_phys P) f (p1_index ?p))"
      using f table_entry_window [OF assms(1,2) _ page_index_less(4), of f ?p] e by simp
    then have "table_get_frame mmu P' (tm_temp_addr (pg_temp P)) (p1_index ?p) = Some (entry_get_frame (pte_at (pg_phys P) f (p1_index ?p)))"
      by (simp add: table_get_frame_def)
    with P'(1,2) Some show ?thesis
      by (simp add: translate_to_phys_def page_for_address_def PAGE_SIZE_def hw_walk_pml1)
  qed
qed

section \<open>A small address space\<close>

text \<open>
  Tables in frames 1 to 4.  Page 1 shows the PML4, page 5 the PML1, page 6 is the temporary page and
  page 7 is a user page in frame 9.  The example processor is the reference walk itself.
\<close>

definition demo_mem :: memory where
  "demo_mem = set_pte (set_pte (set_pte (set_pte (set_pte (set_pte (\<lambda>_. 0) 1 0 0x2007) 2 0 0x3007) 3 0 0x4007)
      4 1 0x1003) 4 5 0x4003) 4 7 0x9007"

definition demo_controller :: memory_controller where
  "demo_controller =
     \<lparr> pg_phys = demo_mem, pg_cr3 = 1, pg_frames = frame_allocator_new 0x20000 0x40000,
       pg_slots = slot_allocator_new 0, pg_temp = \<lparr> tm_temp_addr = 0x6000, tm_temp_entry_addr = 0x5030 \<rparr>,
       mc_active_table = 0x1000, mc_kernel_table = 0x1000,
       mc_stacks = stack_allocator_new \<lparr> pi_start = 16, pi_end = 31 \<rparr> \<rparr>"

lemma pte_at_zero: "pte_at (\<lambda>_. 0) f i = 0"
  by (simp add: pte_at_def mem_read_def upt_rec)

lemma demo_pte:
  "i < 512 \<Longrightarrow> pte_at demo_mem f i =
     (if f = 4 \<and> i = 7 then 0x9007 else if f = 4 \<and> i = 5 then 0x4003 else if f = 4 \<and> i = 1 then 0x1003
      else if f = 3 \<and> i = 0 then 0x4007 else if f = 2 \<and> i = 0 then 0x3007 else if f = 1 \<and> i = 0 then 0x2007 else 0)"
  by (auto simp: demo_mem_def pte_at_set_pte pte_at_zero)

lemma demo_entries:
  "entry_get_frame 0x9007 = Some 9" "entry_get_frame 0x4003 = Some 4" "entry_get_frame 0x1003 = Some 1"
  "entry_get_frame 0x4007 = Some 4" "entry_get_frame 0x3007 = Some 3" "entry_get_frame 0x2007 = Some 2"
  "entry_get_frame 0 = None"
  by (simp_all add: entry_get_frame_def entry_flags_def from_bits_truncate_def flags_contain_def PRESENT_def
      frame_from_address_def PAGE_SIZE_def)

lemma demo_index:
  "p < 512 \<Longrightarrow> upper_indices p = [0, 0, 0]" "p < 512 \<Longrightarrow> all_indices p = [0, 0, 0, p]" "p < 512 \<Longrightarrow> p1_index p = p"
  by (simp_all add: upper_indices_def all_indices_def page_index_eq)

lemma demo_small: "p < 512 \<Longrightarrow> small_pages demo_mem (Suc 0) p"
  by (simp add: small_pages_def demo_index demo_pte demo_entries entry_flags_def from_bits_truncate_def
      flags_contain_def HUGE_PAGE_def)

lemma demo_sel [simp]:
  "pg_phys demo_controller = demo_mem" "pg_cr3 demo_controller = 1" "temp_page demo_controller = 6"
  "entry_page demo_controller = 5" "tm_temp_addr (pg_temp demo_controller) = 0x6000"
  "tm_temp_entry_addr (pg_temp demo_controller) = 0x5030"
  by (simp_all add: demo_controller_def temp_page_def entry_page_def)

lemma demo_window: "window demo_controller 4"
  by (simp add: window_def Let_def demo_small demo_index pml1_frame_def hw_walk_def demo_pte demo_entries)

lemma demo_reaches: "reaches demo_controller 4 0x1000 (Suc 0)"
  by (simp add: reaches_def Let_def demo_small demo_index hw_walk_def demo_pte demo_entries)

lemma hw_walk_walks: "walks_four_levels hw_walk"
  by (simp add: walks_four_levels_def)

section \<open>Translation\<close>

text \<open>
  C20.  Translating an address in software gives what the processor gives with that table in CR3: for
  a table the active address space reaches, a page of the lower half and no huge pages on the way,
  \<open>translate_to_phys\<close> returns, its result is the frame of the processor's walk, and the only change
  is the entry of the temporary mapping.
\<close>

theorem translate_matches_processor:
  assumes "walks_four_levels mmu" "window P w" "reaches P w table pml4"
    and "addr < 2 ^ 47" "small_pages (pg_phys P) pml4 (page_for_address addr)"
    and "(w, p1_index (temp_page P)) \<notin> set (walk_words (pg_phys P) pml4 (all_indices (page_for_address addr)))"
  shows "\<exists>P'. translate_to_phys mmu P table addr = Some (mmu (pg_phys P) pml4 (page_for_address addr), P')
    \<and> temp_moved P w P'"
proof -
  have p: "page_for_address addr = addr div 4096" by (simp add: page_for_address_def PAGE_SIZE_def)
  have "addr div 4096 < 2 ^ 35" using assms(4) by (simp add: div_less_iff_less_mult)
  then have "mmu (pg_phys P) pml4 (addr div 4096) = hw_walk (pg_phys P) pml4 (addr div 4096)"
    using assms(1,5) unfolding walks_four_levels_def p by blast
  then show ?thesis using translate_walk [OF assms(1-3)] assms(6) unfolding p by simp
qed

theorem translate_matches_processor_witness:
  "\<exists>P'. translate_to_phys hw_walk demo_controller 0x1000 0x7123 = Some (Some 9, P') \<and> temp_moved demo_controller 4 P'"
  using translate_matches_processor [OF hw_walk_walks demo_window demo_reaches, where addr = "0x7123"]
  by (simp add: page_for_address_def PAGE_SIZE_def demo_small demo_index demo_pte demo_entries hw_walk_def)

end
