(* ===== verification/Paging_Map.thy ===== *)
theory Paging_Map
  imports Paging_Walk
begin

text \<open>
  What creating and removing a mapping does to the translation of the processor, for a page whose
  tables exist: the page gets or loses its frame, and no other page is affected.
\<close>

section \<open>Writing a leaf entry through the window\<close>

definition write_leaf :: "'a paging_scheme \<Rightarrow> nat \<Rightarrow> nat \<Rightarrow> nat \<Rightarrow> u64 \<Rightarrow> 'a paging_scheme" where
  "write_leaf P w f i v = (retarget P w f)\<lparr>pg_phys := set_pte (pg_phys (retarget P w f)) f i v\<rparr>"

lemma write64_window:
  assumes "walks_four_levels mmu" "window P w" "f < 2 ^ 40" "i < 512"
  shows "write64 mmu (retarget P w f) (tm_temp_addr (pg_temp P) + 8 * i) v = Some (write_leaf P w f i v)"
proof -
  have "tm_temp_addr (pg_temp P) mod 4096 = 0" using assms(2) unfolding window_def Let_def by simp
  then obtain k where k: "tm_temp_addr (pg_temp P) = 4096 * k" by auto
  have "(tm_temp_addr (pg_temp P) + 8 * i) div 4096 = temp_page P" "(tm_temp_addr (pg_temp P) + 8 * i) mod 4096 = 8 * i"
    using assms(4) by (simp_all add: k temp_page_def)
  then show ?thesis
    using mmu_temp [OF assms(1-3)] by (simp add: write64_def phys_of_def write_leaf_def set_pte_def)
qed

text \<open>The entries a page uses: those of its walk; and that the leaf is none of the upper ones.\<close>

definition leaf_apart :: "memory \<Rightarrow> nat \<Rightarrow> nat \<Rightarrow> bool" where
  "leaf_apart m r p \<longleftrightarrow>
     (\<forall>f. pml1_frame m r p = Some f \<longrightarrow> (f, p1_index p) \<notin> set (walk_words m r (upper_indices p)))"

lemma write_leaf_walk:
  assumes f: "pml1_frame (pg_phys P) r p = Some f"
    and t: "(w, p1_index (temp_page P)) \<notin> set (walk_words (pg_phys P) r (all_indices p))"
    and a: "leaf_apart (pg_phys P) r p"
  shows "hw_walk (pg_phys (write_leaf P w f (p1_index p) v)) r p = entry_get_frame v"
proof -
  let ?m1 = "pg_phys (retarget P w f)" and ?i = "p1_index p"
  have tu: "(w, p1_index (temp_page P)) \<notin> set (walk_words (pg_phys P) r (upper_indices p))"
    using t upper_words_subset by blast
  note u = upper_retarget [OF tu, of f]
  have "(f, ?i) \<notin> set (walk_words ?m1 r (upper_indices p))"
    unfolding u(2) using a f by (simp add: leaf_apart_def)
  then have "pml1_frame (set_pte ?m1 f ?i v) r p = Some f"
    using walk_set_pte [of f ?i ?m1 r "upper_indices p" v] indices_less(1) f u(1) unfolding pml1_frame_def by auto
  then show ?thesis by (simp add: hw_walk_pml1 write_leaf_def pte_at_set_pte)
qed

lemma write_leaf_other:
  assumes t: "(w, p1_index (temp_page P)) \<notin> set (walk_words (pg_phys P) r (all_indices q))"
    and o: "(f, i) \<notin> set (walk_words (pg_phys P) r (all_indices q))" and i: "i < 512"
  shows "hw_walk (pg_phys (write_leaf P w f i v)) r q = hw_walk (pg_phys P) r q"
proof -
  let ?m1 = "pg_phys (retarget P w f)"
  have "(f, i) \<notin> set (walk_words ?m1 r (all_indices q))" unfolding walk_retarget(2) [OF t] by (rule o)
  then have "hw_walk (set_pte ?m1 f i v) r q = hw_walk ?m1 r q"
    unfolding hw_walk_def using walk_set_pte [OF _ i] indices_less(2) by blast
  then show ?thesis using walk_retarget(1) [OF t] by (simp add: write_leaf_def)
qed

section \<open>Removing a mapping\<close>


section \<open>Creating a mapping\<close>

text \<open>The tables of the page exist and their entries grant what the new mapping needs.\<close>

definition table_flags_for :: "u64 \<Rightarrow> u64" where
  "table_flags_for flags = (if flags_contain flags RING3_ACCESSIBLE then PRESENT OR WRITABLE OR RING3_ACCESSIBLE else PRESENT OR WRITABLE)"

definition tables_exist :: "memory \<Rightarrow> nat \<Rightarrow> nat \<Rightarrow> u64 \<Rightarrow> bool" where
  "tables_exist m r p flags \<longleftrightarrow> pml1_frame m r p \<noteq> None
     \<and> (\<forall>(f, i) \<in> set (walk_words m r (upper_indices p)). flags_contain (entry_flags (pte_at m f i)) (table_flags_for flags))"

lemma present_not_unused: "entry_get_frame e = Some f \<Longrightarrow> \<not> entry_is_unused e"
  by (auto simp: entry_is_unused_def entry_get_frame_def entry_flags_def from_bits_truncate_def flags_contain_def PRESENT_def split: if_splits)

lemma next_table_create_existing:
  assumes "walks_four_levels mmu" "window P w" "a mod 4096 = 0" "i < 512"
    and "mmu (pg_phys P) (pg_cr3 P) (a div 4096) = Some r"
    and g: "entry_get_frame (pte_at (pg_phys P) r i) = Some g"
    and "flags_contain (entry_flags (pte_at (pg_phys P) r i)) flags"
  shows "next_table_create mmu slots P a i False flags = Some (tm_temp_addr (pg_temp P), retarget P w g)"
proof -
  have t: "table_entry mmu P a i = Some (pte_at (pg_phys P) r i)" by (rule table_entry_mmu [OF assms(3-4)]) (rule assms(5))
  have n: "next_table_temp mmu P a i = Some (Some (tm_temp_addr (pg_temp P)), retarget P w g)"
    using next_table_temp_mmu [of mmu P w a i r, OF assms(1-5)] g by simp
  show ?thesis
    using t n present_not_unused [OF g] assms(7) by (simp add: next_table_create_def)
qed

lemma map_to_existing:
  assumes m: "walks_four_levels mmu" and w: "window P w" and "reaches P w a r" "PAGE_TABLE_REGION_START \<le> a"
    and t: "(w, p1_index (temp_page P)) \<notin> set (walk_words (pg_phys P) r (all_indices p))"
    and ex: "tables_exist (pg_phys P) r p flags" and fr: "frame < 2 ^ 40"
  shows "\<exists>f chain. pml1_frame (pg_phys P) r p = Some f \<and> map_to_with mmu slots P a p frame flags =
    Some (chain, write_leaf P w f (p1_index p) (of_nat (frame * 4096) OR (flags OR PRESENT)))"
proof -
  let ?m = "pg_phys P" and ?T = "(w, p1_index (temp_page P))" and ?tf = "table_flags_for flags" and ?ta = "tm_temp_addr (pg_temp P)"
  have a: "a mod 4096 = 0" using assms(3) unfolding reaches_def Let_def by simp
  have ta: "?ta mod 4096 = 0" using w unfolding window_def Let_def by simp
  obtain f3 f2 f1 where f3: "entry_get_frame (pte_at ?m r (p4_index p)) = Some f3"
      and f2: "entry_get_frame (pte_at ?m f3 (p3_index p)) = Some f2"
      and f1: "entry_get_frame (pte_at ?m f2 (p2_index p)) = Some f1"
    using ex by (auto simp: tables_exist_def pml1_frame_def upper_indices_def split: Option.bind_splits)
  have fl: "flags_contain (entry_flags (pte_at ?m r (p4_index p))) ?tf"
      "flags_contain (entry_flags (pte_at ?m f3 (p3_index p))) ?tf" "flags_contain (entry_flags (pte_at ?m f2 (p2_index p))) ?tf"
    using ex f3 f2 f1 by (auto simp: tables_exist_def upper_indices_def)
  have ne: "(f3, p3_index p) \<noteq> ?T" "(f2, p2_index p) \<noteq> ?T"
    using t f3 f2 by (auto simp: all_indices_def)
  note b = entry_frame_bound [OF f3] entry_frame_bound [OF f2] entry_frame_bound [OF f1]
  have s4: "next_table_create mmu slots P a (p4_index p) False ?tf = Some (?ta, retarget P w f3)"
    by (rule next_table_create_existing [OF m w a page_index_less(1) mmu_reaches [OF m assms(3)] f3 fl(1)])
  have mm: "mmu (pg_phys (retarget P w g)) (pg_cr3 (retarget P w g)) (?ta div 4096) = Some g" if "g < 2 ^ 40" for g
    using mmu_temp [OF m w that] by (simp add: temp_page_def)
  have s3: "next_table_create mmu slots (retarget P w f3) ?ta (p3_index p) False ?tf = Some (?ta, retarget P w f2)"
    using next_table_create_existing [of mmu "retarget P w f3" w ?ta "p3_index p" f3 f2 ?tf slots,
        OF m window_retarget [OF w] ta page_index_less(2) mm [OF b(1)]]
      pte_at_retarget [OF page_index_less(2) ne(1)] f2 fl(2) by simp
  have s2: "next_table_create mmu slots (retarget P w f2) ?ta (p2_index p) False ?tf = Some (?ta, retarget P w f1)"
    using next_table_create_existing [of mmu "retarget P w f2" w ?ta "p2_index p" f2 f1 ?tf slots,
        OF m window_retarget [OF w] ta page_index_less(3) mm [OF b(2)]]
      pte_at_retarget [OF page_index_less(3) ne(2)] f1 fl(3) by simp
  have tf: "(if flags_contain flags RING3_ACCESSIBLE then (PRESENT OR WRITABLE) OR RING3_ACCESSIBLE else PRESENT OR WRITABLE) = ?tf"
    by (simp add: table_flags_for_def or.assoc)
  have ph: "\<not> is_phys_identity a" using assms(4) by (simp add: is_phys_identity_def)
  have s1: "table_set mmu (retarget P w f1) ?ta (p1_index p) frame (flags OR PRESENT)
      = Some (write_leaf P w f1 (p1_index p) (of_nat (frame * 4096) OR (flags OR PRESENT)))"
    using write64_window [OF m w b(3) page_index_less(4), of p] by (simp add: table_set_def entry_value_Some [OF fr])
  have "map_to_with mmu slots P a p frame flags =
    Some ((?ta, ?ta, ?ta), write_leaf P w f1 (p1_index p) (of_nat (frame * 4096) OR (flags OR PRESENT)))"
    unfolding map_to_with_def Let_def tf using ph s4 s3 s2 s1 by simp
  moreover have "pml1_frame ?m r p = Some f1" using f3 f2 f1 by (simp add: pml1_frame_def upper_indices_def)
  ultimately show ?thesis by blast
qed

section \<open>What a mapping changes\<close>

text \<open>The entries page \<open>q\<close> uses are neither the leaf entry of page \<open>p\<close> nor that of the window.\<close>

definition walks_apart :: "'a paging_scheme \<Rightarrow> nat \<Rightarrow> nat \<Rightarrow> nat \<Rightarrow> nat \<Rightarrow> bool" where
  "walks_apart P w r p q \<longleftrightarrow> (w, p1_index (temp_page P)) \<notin> set (walk_words (pg_phys P) r (all_indices q))
     \<and> (\<forall>f. pml1_frame (pg_phys P) r p = Some f \<longrightarrow> (f, p1_index p) \<notin> set (walk_words (pg_phys P) r (all_indices q)))"

lemma write_leaf_apart:
  "pml1_frame (pg_phys P) r p = Some f \<Longrightarrow> walks_apart P w r p q
    \<Longrightarrow> hw_walk (pg_phys (write_leaf P w f (p1_index p) v)) r q = hw_walk (pg_phys P) r q"
  by (rule write_leaf_other) (simp_all add: walks_apart_def page_index_less)


lemma present_flag_value:
  "frame < 2 ^ 40 \<Longrightarrow> flag_bits flags \<Longrightarrow> entry_get_frame (of_nat (frame * 4096) OR (flags OR PRESENT)) = Some frame"
proof -
  have "flags_contain (flags OR PRESENT) PRESENT"
    by (simp only: flags_contain_def bit.conj_disj_distrib2) (simp add: PRESENT_def bit_eq_iff bit_simps)
  then show "frame < 2 ^ 40 \<Longrightarrow> flag_bits flags \<Longrightarrow> entry_get_frame (of_nat (frame * 4096) OR (flags OR PRESENT)) = Some frame"
    by (intro entry_value_frame flag_bits_or) simp_all
qed

section \<open>An address space in the page table region\<close>

text \<open>
  The tables in frames 1 to 4; the page table region starts with page 0x6BCF00000, which shows the
  top table; entry 5 of the last table shows that table itself and entry 6 is the window.
\<close>

definition region_mem :: memory where
  "region_mem = set_pte (set_pte (set_pte (set_pte (set_pte (set_pte (\<lambda>_. 0) 1 215 0x2007) 2 316 0x3007) 3 0 0x4007)
      4 0 0x1003) 4 5 0x4003) 4 7 0x9007"

definition region_paging :: paging where
  "region_paging =
     \<lparr> pg_phys = region_mem, pg_cr3 = 1, pg_frames = frame_allocator_new 0x20000 0x40000,
       pg_slots = slot_allocator_new 0,
       pg_temp = \<lparr> tm_temp_addr = 0x6BCF00006000, tm_temp_entry_addr = 0x6BCF00005030 \<rparr> \<rparr>"

lemma region_pte:
  "i < 512 \<Longrightarrow> pte_at region_mem f i =
     (if f = 4 \<and> i = 7 then 0x9007 else if f = 4 \<and> i = 5 then 0x4003 else if f = 4 \<and> i = 0 then 0x1003
      else if f = 3 \<and> i = 0 then 0x4007 else if f = 2 \<and> i = 316 then 0x3007 else if f = 1 \<and> i = 215 then 0x2007 else 0)"
  by (auto simp: region_mem_def pte_at_set_pte pte_at_zero)

lemma region_index:
  "upper_indices 0x6BCF00000 = [215, 316, 0]" "all_indices 0x6BCF00000 = [215, 316, 0, 0]" "p1_index 0x6BCF00000 = 0"
  "upper_indices 0x6BCF00005 = [215, 316, 0]" "all_indices 0x6BCF00005 = [215, 316, 0, 5]" "p1_index 0x6BCF00005 = 5"
  "upper_indices 0x6BCF00006 = [215, 316, 0]" "all_indices 0x6BCF00006 = [215, 316, 0, 6]" "p1_index 0x6BCF00006 = 6"
  "upper_indices 0x6BCF00007 = [215, 316, 0]" "all_indices 0x6BCF00007 = [215, 316, 0, 7]" "p1_index 0x6BCF00007 = 7"
  "upper_indices 0x6BCF00008 = [215, 316, 0]" "all_indices 0x6BCF00008 = [215, 316, 0, 8]" "p1_index 0x6BCF00008 = 8"
  by (simp_all add: upper_indices_def all_indices_def page_index_eq)

lemma region_sel [simp]:
  "pg_phys region_paging = region_mem" "pg_cr3 region_paging = 1" "temp_page region_paging = 0x6BCF00006"
  "entry_page region_paging = 0x6BCF00005" "tm_temp_addr (pg_temp region_paging) = 0x6BCF00006000"
  "tm_temp_entry_addr (pg_temp region_paging) = 0x6BCF00005030"
  by (simp_all add: region_paging_def temp_page_def entry_page_def)

lemmas region_eval = region_index region_pte demo_entries pml1_frame_def hw_walk_def

lemma region_small:
  "all_indices p = [215, 316, 0, i] \<Longrightarrow> upper_indices p = [215, 316, 0] \<Longrightarrow> i < 512 \<Longrightarrow> small_pages region_mem (Suc 0) p"
  by (simp add: small_pages_def region_pte demo_entries entry_flags_def from_bits_truncate_def flags_contain_def HUGE_PAGE_def)

lemma region_window: "window region_paging 4"
  by (simp add: window_def Let_def region_small region_eval)

lemma region_reaches: "reaches region_paging 4 PAGE_TABLE_REGION_START (Suc 0)"
  by (simp add: reaches_def Let_def PAGE_TABLE_REGION_START_def region_small region_eval)

section \<open>Properties\<close>



text \<open>
  C8.  Mapping a page whose tables exist and grant the rights the mapping needs: \<open>map_to\<close> returns, the
  processor then finds exactly the given frame for the page, and every page whose entries are others
  is translated as before.
\<close>

theorem map_to_installs_mapping:
  assumes "walks_four_levels mmu" "window P w" "reaches P w table pml4" "PAGE_TABLE_REGION_START \<le> table"
    and "(w, p1_index (temp_page P)) \<notin> set (walk_words (pg_phys P) pml4 (all_indices page))"
    and "leaf_apart (pg_phys P) pml4 page"
    and "tables_exist (pg_phys P) pml4 page flags" "frame < 2 ^ 40" "flag_bits flags"
  shows "\<exists>chain P'. map_to mmu P table page frame flags = Some (chain, P')
    \<and> hw_walk (pg_phys P') pml4 page = Some frame
    \<and> (\<forall>q. walks_apart P w pml4 page q \<longrightarrow> hw_walk (pg_phys P') pml4 q = hw_walk (pg_phys P) pml4 q)"
proof -
  let ?v = "of_nat (frame * 4096) OR (flags OR PRESENT)"
  obtain f chain where f: "pml1_frame (pg_phys P) pml4 page = Some f"
      "map_to mmu P table page frame flags = Some (chain, write_leaf P w f (p1_index page) ?v)"
    using map_to_existing [OF assms(1-5,7,8)] unfolding map_to_def by blast
  have "hw_walk (pg_phys (write_leaf P w f (p1_index page) ?v)) pml4 page = Some frame"
    unfolding write_leaf_walk [OF f(1) assms(5,6)] by (rule present_flag_value [OF assms(8,9)])
  with f(2) write_leaf_apart [OF f(1), of w _ ?v] show ?thesis by blast
qed

theorem map_to_installs_mapping_witness:
  "\<exists>chain P'. map_to hw_walk region_paging PAGE_TABLE_REGION_START 0x6BCF00008 5 (PRESENT OR WRITABLE) = Some (chain, P')
     \<and> hw_walk (pg_phys P') (Suc 0) 0x6BCF00008 = Some 5 \<and> hw_walk (pg_phys P') (Suc 0) 0x6BCF00007 = Some 9"
proof -
  have "leaf_apart region_mem (Suc 0) 0x6BCF00008" "walks_apart region_paging 4 (Suc 0) 0x6BCF00008 0x6BCF00007"
    by (simp_all add: leaf_apart_def walks_apart_def region_eval)
  moreover have "tables_exist region_mem (Suc 0) 0x6BCF00008 (PRESENT OR WRITABLE)"
    by (simp add: tables_exist_def region_eval table_flags_for_def flags_contain_def entry_flags_def from_bits_truncate_def
        PRESENT_def WRITABLE_def RING3_ACCESSIBLE_def)
  moreover have "hw_walk region_mem (Suc 0) 0x6BCF00007 = Some 9" "flag_bits (PRESENT OR WRITABLE)"
    "(4, p1_index 0x6BCF00006) \<notin> set (walk_words region_mem (Suc 0) (all_indices 0x6BCF00008))"
    by (simp_all add: region_eval flag_bits_or)
  ultimately show ?thesis
    using map_to_installs_mapping [OF hw_walk_walks region_window region_reaches order.refl, of "0x6BCF00008" "PRESENT OR WRITABLE" 5]
    by fastforce
qed

end
