(* ===== verification/Process.thy ===== *)
theory Process
  imports Fat_Files Paging_Walk
begin

text \<open>
  Processes (\<open>src/scheduling/process.rs\<close>): the saved register frame, the process structure, the table
  of file descriptors and the copies between the kernel and user memory.

  A file object (\<open>Arc<RwLock<dyn File>>\<close>) is an index into the list of the file objects that have
  been created: the descriptors of a process and of the processes forked from it refer to the same
  object.  Objects are never removed from the list; what \<open>free_file_region\<close> gives back to the heap
  is not part of the state.
\<close>

section \<open>Registers\<close>

record interrupt_frame =
  ctx_r8 :: nat
  ctx_r9 :: nat
  ctx_r10 :: nat
  ctx_r11 :: nat
  ctx_r12 :: nat
  ctx_r13 :: nat
  ctx_r14 :: nat
  ctx_r15 :: nat
  ctx_rbp :: nat
  ctx_rdi :: nat
  ctx_rsi :: nat
  ctx_rdx :: nat
  ctx_rcx :: nat
  ctx_rbx :: nat
  ctx_rax :: nat
  ctx_rip :: nat
  ctx_cs :: nat
  ctx_rflags :: nat
  ctx_rsp :: nat
  ctx_ss :: nat

definition frame_empty :: interrupt_frame where
  "frame_empty =
     \<lparr> ctx_r8 = 0, ctx_r9 = 0, ctx_r10 = 0, ctx_r11 = 0, ctx_r12 = 0, ctx_r13 = 0, ctx_r14 = 0, ctx_r15 = 0,
       ctx_rbp = 0, ctx_rdi = 0, ctx_rsi = 0, ctx_rdx = 0, ctx_rcx = 0, ctx_rbx = 0, ctx_rax = 0,
       ctx_rip = 0, ctx_cs = 0, ctx_rflags = 0, ctx_rsp = 0, ctx_ss = 0 \<rparr>"

section \<open>Processes\<close>

record open_file_entry =
  of_file :: nat
  of_offset :: nat
  of_readable :: bool
  of_writable :: bool

datatype file_descriptor = Stdin | Stdout | Stderr | FileFd open_file_entry

record process =
  p_pid :: nat
  p_pre_schedule :: bool
  p_blocking :: bool
  p_awaiting_process :: "nat option"
  p_sleep_until_tick :: "nat option"
  p_context :: interrupt_frame
  p_start_region :: elf_region
  p_curr_working_dir :: fat_directory
  p_stack :: stack
  p_ring3_page_table :: "nat option"
  p_fd_table :: "file_descriptor option list"

definition standard_fd_table :: "file_descriptor option list" where
  "standard_fd_table = [Some Stdin, Some Stdout, Some Stderr]"

definition process_from :: "process_entry \<Rightarrow> nat \<Rightarrow> fat_directory \<Rightarrow> process option" where
  "process_from entry pid cwd =
     (let context = frame_empty\<lparr>ctx_rip := pe_entry entry, ctx_rsp := pe_initial_rsp entry\<rparr>
      in case pe_stack entry of
           None \<Rightarrow> None
         | Some stack \<Rightarrow>
             if pe_ring3_page_table entry = None then None
             else Some
               \<lparr> p_pid = pid, p_pre_schedule = True, p_blocking = False, p_awaiting_process = None,
                 p_sleep_until_tick = None, p_context = context, p_start_region = pe_start_region entry,
                 p_curr_working_dir = cwd, p_stack = stack, p_ring3_page_table = pe_ring3_page_table entry,
                 p_fd_table = standard_fd_table \<rparr>)"

section \<open>File descriptors\<close>

definition open_file :: "process \<Rightarrow> nat \<Rightarrow> bool \<Rightarrow> bool \<Rightarrow> nat \<times> process" where
  "open_file p file readable writable =
     (let descriptor = Some (FileFd \<lparr> of_file = file, of_offset = 0, of_readable = readable, of_writable = writable \<rparr>);
          table = p_fd_table p
      in case List.find (\<lambda>fd. table ! fd = None) [3..<length table] of
           Some fd \<Rightarrow> (fd, p\<lparr>p_fd_table := table[fd := descriptor]\<rparr>)
         | None \<Rightarrow> (length table, p\<lparr>p_fd_table := table @ [descriptor]\<rparr>))"

definition close_fd :: "process \<Rightarrow> nat \<Rightarrow> bool \<times> process" where
  "close_fd p fd =
     (if fd < 3 \<or> fd \<ge> length (p_fd_table p) then (False, p)
      else (True, p\<lparr>p_fd_table := (p_fd_table p)[fd := None]\<rparr>))"

definition get_fd :: "process \<Rightarrow> nat \<Rightarrow> file_descriptor option" where
  "get_fd p fd = (if fd < length (p_fd_table p) then p_fd_table p ! fd else None)"

definition set_fd :: "process \<Rightarrow> nat \<Rightarrow> open_file_entry \<Rightarrow> process" where
  "set_fd p fd e = p\<lparr>p_fd_table := (p_fd_table p)[fd := Some (FileFd e)]\<rparr>"

definition file_at :: "fat_file list \<Rightarrow> nat \<Rightarrow> fat_file option" where
  "file_at files i = (if i < length files then Some (files ! i) else None)"

definition read_fd ::
  "'w fs_env \<Rightarrow> 'w fat_file_system option \<Rightarrow> fat_file list \<Rightarrow> process \<Rightarrow> nat \<Rightarrow> nat \<Rightarrow>
     (bytes option \<times> process \<times> 'w fat_file_system option) option" where
  "read_fd E fso files p fd len =
     (case get_fd p fd of
        Some (FileFd e) \<Rightarrow>
          if \<not> of_readable e then Some (None, p, fso)
          else do {
            file \<leftarrow> file_at files (of_file e);
            (r, fs) \<leftarrow> fat_file_read E fso file;
            case r of
              None \<Rightarrow> Some (None, p, Some fs)
            | Some file_bytes \<Rightarrow>
                if of_offset e \<ge> length file_bytes then Some (Some [], p, Some fs)
                else
                  (let requested_end =
                         (case checked_add (of_offset e) len of None \<Rightarrow> length file_bytes | Some n \<Rightarrow> n);
                       end = min requested_end (length file_bytes)
                   in Some (Some (take (end - of_offset e) (drop (of_offset e) file_bytes)),
                            set_fd p fd (e\<lparr>of_offset := end\<rparr>), Some fs))
          }
      | _ \<Rightarrow> Some (None, p, fso))"

type_synonym 'w fd_update = "process \<times> fat_file list \<times> 'w fat_file_system option"

definition write_fd ::
  "'w fs_env \<Rightarrow> 'w fat_file_system option \<Rightarrow> fat_file list \<Rightarrow> process \<Rightarrow> nat \<Rightarrow> bytes \<Rightarrow>
     (nat option \<times> 'w fd_update) option" where
  "write_fd E fso files p fd bytes =
     (case get_fd p fd of
        Some (FileFd e) \<Rightarrow>
          if \<not> of_writable e then Some (None, p, files, fso)
          else do {
            file \<leftarrow> file_at files (of_file e);
            case checked_add (of_offset e) (length bytes) of
              None \<Rightarrow> Some (None, p, files, fso)
            | Some write_end \<Rightarrow> do {
                (sz, fso) \<leftarrow> fat_file_size E fso file;
                (r, file, fso) \<leftarrow>
                  (if write_end > sz then map_option (\<lambda>(r, f, fs). (r, f, Some fs)) (fat_file_truncate E fso file write_end)
                   else Some (Some (), file, fso));
                let files = files[of_file e := file];
                case r of
                  None \<Rightarrow> Some (None, p, files, fso)
                | Some _ \<Rightarrow> do {
                    (r, fs) \<leftarrow> fat_file_write E fso file (of_offset e) bytes;
                    case r of
                      None \<Rightarrow> Some (None, p, files, Some fs)
                    | Some n \<Rightarrow> do {
                        offset \<leftarrow> checked_add (of_offset e) n;
                        Some (Some n, set_fd p fd (e\<lparr>of_offset := offset\<rparr>), files, Some fs)
                      }
                  }
              }
          }
      | _ \<Rightarrow> Some (None, p, files, fso))"

definition truncate_fd ::
  "'w fs_env \<Rightarrow> 'w fat_file_system option \<Rightarrow> fat_file list \<Rightarrow> process \<Rightarrow> nat \<Rightarrow> nat \<Rightarrow>
     (unit option \<times> 'w fd_update) option" where
  "truncate_fd E fso files p fd len =
     (case get_fd p fd of
        Some (FileFd e) \<Rightarrow>
          if \<not> of_writable e then Some (None, p, files, fso)
          else do {
            file \<leftarrow> file_at files (of_file e);
            (r, file, fs) \<leftarrow> fat_file_truncate E fso file len;
            let files = files[of_file e := file];
            Some (case r of
              None \<Rightarrow> (None, p, files, Some fs)
            | Some _ \<Rightarrow>
                (Some (), if of_offset e > len then set_fd p fd (e\<lparr>of_offset := len\<rparr>) else p, files, Some fs))
          }
      | _ \<Rightarrow> Some (None, p, files, fso))"

section \<open>User memory\<close>

type_synonym mem_state = "memory_controller option"

definition user_access :: "bool \<Rightarrow> u64 \<Rightarrow> bool" where
  "user_access writable e \<longleftrightarrow>
     (let flags = entry_flags e
      in flags_contain flags PRESENT \<and> flags_contain flags RING3_ACCESSIBLE
         \<and> (\<not> writable \<or> flags_contain flags WRITABLE))"

definition validate_user_pointer :: "mmu \<Rightarrow> mem_state \<Rightarrow> nat \<Rightarrow> nat \<Rightarrow> nat \<Rightarrow> bool \<Rightarrow> (bool \<times> mem_state) option" where
  "validate_user_pointer mmu M page_table addr len writable =
     (case M of
        None \<Rightarrow> Some (False, None)
      | Some C \<Rightarrow> do {
          (ok, C) \<leftarrow> walk_range_entries mmu C page_table addr len (\<lambda>_ entry. user_access writable entry);
          Some (ok, Some C)
        })"

definition can_process_pointer :: "mmu \<Rightarrow> mem_state \<Rightarrow> nat \<Rightarrow> nat \<Rightarrow> nat \<Rightarrow> bool \<Rightarrow> (bool \<times> mem_state) option" where
  "can_process_pointer = validate_user_pointer"

text \<open>The copies themselves go through the active address space.\<close>

definition load_bytes :: "mmu \<Rightarrow> mem_state \<Rightarrow> nat \<Rightarrow> nat \<Rightarrow> bytes option" where
  "load_bytes mmu M addr len = do { C \<leftarrow> M; vread mmu C addr len }"

definition store_bytes :: "mmu \<Rightarrow> mem_state \<Rightarrow> nat \<Rightarrow> bytes \<Rightarrow> mem_state option" where
  "store_bytes mmu M addr data = do { C \<leftarrow> M; C \<leftarrow> vwrite mmu C addr data; Some (Some C) }"

definition copy_from_user :: "mmu \<Rightarrow> mem_state \<Rightarrow> nat \<Rightarrow> nat \<Rightarrow> nat \<Rightarrow> (bytes option \<times> mem_state) option" where
  "copy_from_user mmu M page_table addr len = do {
     (ok, M) \<leftarrow> validate_user_pointer mmu M page_table addr len False;
     if \<not> ok then Some (None, M)
     else if len = 0 then Some (Some [], M)
     else do {
       data \<leftarrow> load_bytes mmu M addr len;
       Some (Some data, M)
     }
   }"

definition copy_to_user :: "mmu \<Rightarrow> mem_state \<Rightarrow> nat \<Rightarrow> nat \<Rightarrow> bytes \<Rightarrow> (unit option \<times> mem_state) option" where
  "copy_to_user mmu M page_table addr data = do {
     (ok, M) \<leftarrow> validate_user_pointer mmu M page_table addr (length data) True;
     if \<not> ok then Some (None, M)
     else if data = [] then Some (Some (), M)
     else do {
       M \<leftarrow> store_bytes mmu M addr data;
       Some (Some (), M)
     }
   }"

text \<open>A value is given by its bytes, a slice by the bytes of its elements.\<close>

definition copy_value_to_user :: "mmu \<Rightarrow> mem_state \<Rightarrow> nat \<Rightarrow> nat \<Rightarrow> bytes \<Rightarrow> (unit option \<times> mem_state) option" where
  "copy_value_to_user mmu M page_table addr value =
     (if length value = 0 then Some (Some (), M) else copy_to_user mmu M page_table addr value)"

definition copy_slice_to_user :: "mmu \<Rightarrow> mem_state \<Rightarrow> nat \<Rightarrow> nat \<Rightarrow> nat \<Rightarrow> bytes list \<Rightarrow> (unit option \<times> mem_state) option" where
  "copy_slice_to_user mmu M page_table addr elem_size values =
     (case checked_mul elem_size (length values) of
        None \<Rightarrow> Some (None, M)
      | Some len \<Rightarrow> do {
          (ok, M) \<leftarrow> validate_user_pointer mmu M page_table addr len True;
          if \<not> ok then Some (None, M)
          else if len = 0 then Some (Some (), M)
          else do {
            M \<leftarrow> store_bytes mmu M addr (concat values);
            Some (Some (), M)
          }
        })"

section \<open>Descriptor tables\<close>

text \<open>
  The standard descriptors stay in place, and every descriptor of a file refers to an existing object.
\<close>

definition fd_ok :: "nat \<Rightarrow> file_descriptor option \<Rightarrow> bool" where
  "fd_ok n d \<longleftrightarrow> (case d of Some (FileFd e) \<Rightarrow> of_file e < n | _ \<Rightarrow> True)"

definition wf_fds :: "nat \<Rightarrow> process \<Rightarrow> bool" where
  "wf_fds n p \<longleftrightarrow> take 3 (p_fd_table p) = standard_fd_table \<and> (\<forall>d \<in> set (p_fd_table p). fd_ok n d)"

lemma wf_fds_length: "wf_fds n p \<Longrightarrow> 3 \<le> length (p_fd_table p)"
proof -
  assume "wf_fds n p"
  then have "length (take 3 (p_fd_table p)) = 3" by (simp add: wf_fds_def standard_fd_table_def)
  then show ?thesis by simp
qed

lemma wf_fds_update:
  assumes "wf_fds n p" "3 \<le> fd" "fd_ok m d" "n \<le> m"
  shows "wf_fds m (p\<lparr>p_fd_table := (p_fd_table p)[fd := d]\<rparr>)"
proof -
  have "fd_ok m x" if "x \<in> set (p_fd_table p)" for x
    using assms(1,4) that by (fastforce simp: wf_fds_def fd_ok_def split: option.splits file_descriptor.splits)
  with assms show ?thesis
    by (auto simp: wf_fds_def take_update_cancel dest!: set_update_subset_insert [THEN subsetD])
qed

lemma process_from_wf: "process_from entry pid cwd = Some p \<Longrightarrow> wf_fds n p"
  by (auto simp: process_from_def wf_fds_def standard_fd_table_def fd_ok_def Let_def split: option.splits if_splits)

lemma get_fd_FileFd:
  assumes "wf_fds n p" "get_fd p fd = Some (FileFd e)"
  shows "3 \<le> fd" "of_file e < n" "fd < length (p_fd_table p)"
proof -
  show l: "fd < length (p_fd_table p)" using assms(2) by (auto simp: get_fd_def split: if_splits)
  have e: "p_fd_table p ! fd = Some (FileFd e)" using assms(2) l by (simp add: get_fd_def)
  then show "of_file e < n" using assms(1) l nth_mem [OF l] by (fastforce simp: wf_fds_def fd_ok_def)
  show "3 \<le> fd"
  proof (rule ccontr)
    assume "\<not> 3 \<le> fd"
    then have "fd < 3" by simp
    then have "standard_fd_table ! fd = Some (FileFd e)"
      using assms(1) e by (metis nth_take wf_fds_def)
    with \<open>fd < 3\<close> show False by (auto simp: standard_fd_table_def less_Suc_eq numeral_3_eq_3)
  qed
qed

lemma wf_fds_set_fd:
  "wf_fds n p \<Longrightarrow> get_fd p fd = Some (FileFd e) \<Longrightarrow> of_file e' = of_file e \<Longrightarrow> wf_fds n (set_fd p fd e')"
  using get_fd_FileFd [of n p fd e] wf_fds_update [of n p fd n "Some (FileFd e')"]
  by (simp add: set_fd_def fd_ok_def)

lemma open_file_new:
  assumes "wf_fds n p" "open_file p file r w = (fd, p')"
  shows "3 \<le> fd" "get_fd p fd = None"
    "get_fd p' fd = Some (FileFd \<lparr> of_file = file, of_offset = 0, of_readable = r, of_writable = w \<rparr>)"
    "\<And>fd'. fd' \<noteq> fd \<Longrightarrow> get_fd p' fd' = get_fd p fd'"
  using assms wf_fds_length [OF assms(1)]
  by (auto simp: open_file_def get_fd_def Let_def find_upt_Some find_upt_None nth_append split: option.splits if_splits)

lemma open_file_wf:
  assumes "wf_fds n p" "open_file p file r w = (fd, p')" "file < m" "n \<le> m"
  shows "wf_fds m p'"
proof (cases "List.find (\<lambda>fd. p_fd_table p ! fd = None) [3..<length (p_fd_table p)]")
  case (Some i)
  then have "3 \<le> i" by (simp add: find_upt_Some)
  with Some assms show ?thesis
    by (auto simp: open_file_def Let_def fd_ok_def intro!: wf_fds_update [of n])
next
  case None
  have "fd_ok m x" if "x \<in> set (p_fd_table p)" for x
    using assms(1,4) that by (fastforce simp: wf_fds_def fd_ok_def split: option.splits file_descriptor.splits)
  with None assms wf_fds_length [OF assms(1)] show ?thesis
    by (auto simp: open_file_def Let_def wf_fds_def fd_ok_def)
qed

lemma close_fd_wf: "wf_fds n p \<Longrightarrow> wf_fds n (snd (close_fd p fd))"
  using wf_fds_update [of n p fd n None] by (simp add: close_fd_def fd_ok_def)

definition demo_process :: "nat \<Rightarrow> process" where
  "demo_process pid =
     \<lparr> p_pid = pid, p_pre_schedule = False, p_blocking = False, p_awaiting_process = None, p_sleep_until_tick = None,
       p_context = frame_empty,
       p_start_region = ElfRegion \<lparr> reg_addr = 0, reg_size = 0 \<rparr> None 0 \<lparr> reg_addr = 0, reg_size = 0 \<rparr>,
       p_curr_working_dir = \<lparr> dir_entry = new_file_entry [], dir_name = [] \<rparr>,
       p_stack = \<lparr> stk_top = 0, stk_bottom = 0 \<rparr>, p_ring3_page_table = Some 0x1000, p_fd_table = standard_fd_table \<rparr>"

lemma demo_wf: "wf_fds n (demo_process k)"
  by (simp add: wf_fds_def demo_process_def standard_fd_table_def fd_ok_def)

text \<open>
  C18.  Opening a file keeps the descriptor table well typed: the standard descriptors stay in place, every
  file descriptor refers to an existing object, the new descriptor is one that was unused, it starts
  at offset 0, and no other descriptor changes; closing any descriptor afterwards keeps the table well
  typed as well.
\<close>

theorem descriptors_well_typed:
  assumes "wf_fds n p" "file < n" "open_file p file r w = (fd, p')"
  shows "wf_fds n p' \<and> 3 \<le> fd \<and> get_fd p fd = None
    \<and> get_fd p' fd = Some (FileFd \<lparr> of_file = file, of_offset = 0, of_readable = r, of_writable = w \<rparr>)
    \<and> (\<forall>fd'. fd' \<noteq> fd \<longrightarrow> get_fd p' fd' = get_fd p fd') \<and> (\<forall>fd'. wf_fds n (snd (close_fd p' fd')))"
  using open_file_wf [OF assms(1,3,2)] open_file_new [OF assms(1,3)] close_fd_wf by simp

theorem descriptors_well_typed_witness:
  "\<exists>p'. open_file (demo_process 3) 0 True True = (3, p') \<and> wf_fds 1 p' \<and> get_fd p' 0 = Some Stdin"
proof -
  obtain fd p' where o: "open_file (demo_process 3) 0 True True = (fd, p')" by fastforce
  have "fd = 3" using o by (simp add: open_file_def demo_process_def standard_fd_table_def)
  moreover have "get_fd (demo_process 3) 0 = Some Stdin" by (simp add: get_fd_def demo_process_def standard_fd_table_def)
  ultimately show ?thesis using descriptors_well_typed [OF demo_wf _ o, of 1] o by auto
qed

section \<open>Validation of user pointers\<close>

text \<open>A page that user code may access: its PML1 exists and its entry grants the access.\<close>

definition user_page :: "memory \<Rightarrow> nat \<Rightarrow> nat \<Rightarrow> bool \<Rightarrow> bool" where
  "user_page m pml4 page writable \<longleftrightarrow>
     (case pml1_frame m pml4 page of None \<Rightarrow> False | Some f \<Rightarrow> user_access writable (pte_at m f (p1_index page)))"

definition range_pages :: "nat \<Rightarrow> nat \<Rightarrow> nat list" where
  "range_pages addr len = page_range (page_for_address addr) (page_for_address (addr + (len - 1)))"

text \<open>
  The situation in which the kernel validates a pointer: the temporary window is in place, the table
  is reached from the active one, the temporary entry is not a user entry, and no page of the range
  has the temporary entry as a pointer to one of its tables.
\<close>

definition ready_to_validate :: "memory_controller \<Rightarrow> nat \<Rightarrow> nat \<Rightarrow> nat \<Rightarrow> nat \<Rightarrow> nat \<Rightarrow> bool" where
  "ready_to_validate C w table pml4 addr len \<longleftrightarrow>
     window C w \<and> reaches C w table pml4
     \<and> \<not> flags_contain (entry_flags (pte_at (pg_phys C) w (p1_index (temp_page C)))) RING3_ACCESSIBLE
     \<and> (\<forall>page \<in> set (range_pages addr len).
          (w, p1_index (temp_page C)) \<notin> set (walk_words (pg_phys C) pml4 (upper_indices page)))"

lemma user_access_window:
  assumes "f < 2 ^ 40"
    and "\<not> flags_contain (entry_flags (pte_at (pg_phys C) w (p1_index (temp_page C)))) RING3_ACCESSIBLE"
  shows "user_access wr (pte_at (pg_phys (retarget C w f)) f (p1_index p)) = user_access wr (pte_at (pg_phys C) f (p1_index p))"
proof (cases "(f, p1_index p) = (w, p1_index (temp_page C))")
  case True
  then show ?thesis
    using temp_entry_retarget(2) [OF assms(1), of C w] present_writable(3) assms(2) by (simp add: user_access_def Let_def)
next
  case False
  then show ?thesis using pte_at_retarget [OF page_index_less(4) False] by simp
qed

lemma walk_pages_user:
  assumes m: "walks_four_levels mmu"
  shows "window C w \<Longrightarrow> reaches C w table pml4 \<Longrightarrow>
     \<not> flags_contain (entry_flags (pte_at (pg_phys C) w (p1_index (temp_page C)))) RING3_ACCESSIBLE \<Longrightarrow>
     \<forall>p \<in> set pages. (w, p1_index (temp_page C)) \<notin> set (walk_words (pg_phys C) pml4 (upper_indices p)) \<Longrightarrow>
     \<exists>C'. walk_pages mmu table (\<lambda>_ e. user_access wr e) pages C =
            Some (\<forall>p \<in> set pages. user_page (pg_phys C) pml4 p wr, C') \<and> temp_moved C w C'"
proof (induction pages arbitrary: C)
  case Nil
  then show ?case by (simp add: temp_moved_def)
next
  case (Cons p ps)
  let ?T = "(w, p1_index (temp_page C))"
  obtain C1 where C1: "walk_to_pml1 mmu C table p = Some (map_option (\<lambda>_. tm_temp_addr (pg_temp C)) (pml1_frame (pg_phys C) pml4 p), C1)"
      "temp_moved C w C1" "\<forall>f. pml1_frame (pg_phys C) pml4 p = Some f \<longrightarrow> f < 2 ^ 40 \<and> C1 = retarget C w f"
    using walk_to_pml1_correct [OF m Cons.prems(1,2), of p] Cons.prems(4) by auto
  show ?case
  proof (cases "pml1_frame (pg_phys C) pml4 p")
    case None
    with C1 show ?thesis by (simp add: user_page_def)
  next
    case (Some f)
    have f: "f < 2 ^ 40" "C1 = retarget C w f" using C1(3) Some by auto
    have e: "table_entry mmu C1 (tm_temp_addr (pg_temp C)) (p1_index p) = Some (pte_at (pg_phys C1) f (p1_index p))"
      using table_entry_window [OF m Cons.prems(1) f(1) page_index_less(4)] f(2) by simp
    have ua: "user_access wr (pte_at (pg_phys C1) f (p1_index p)) = user_page (pg_phys C) pml4 p wr"
      using user_access_window [OF f(1) Cons.prems(3)] Some f(2) by (simp add: user_page_def)
    show ?thesis
    proof (cases "user_page (pg_phys C) pml4 p wr")
      case False
      with C1 Some e ua show ?thesis by simp
    next
      case True
      have t: "temp_page C1 = temp_page C" using f(2) by simp
      have keep: "pml1_frame (pg_phys C1) pml4 q = pml1_frame (pg_phys C) pml4 q"
          "walk_words (pg_phys C1) pml4 (upper_indices q) = walk_words (pg_phys C) pml4 (upper_indices q)"
        if "q \<in> set ps" for q
        using upper_retarget [of w C pml4 q f] Cons.prems(4) that f(2) by auto
      have up: "user_page (pg_phys C1) pml4 q wr = user_page (pg_phys C) pml4 q wr" if "q \<in> set ps" for q
      proof (cases "pml1_frame (pg_phys C) pml4 q")
        case None
        then show ?thesis by (simp add: user_page_def keep [OF that])
      next
        case (Some g)
        have "user_access wr (pte_at (pg_phys C1) g (p1_index q)) = user_access wr (pte_at (pg_phys C) g (p1_index q))"
        proof (cases "(g, p1_index q) = ?T")
          case True
          then show ?thesis
            using temp_entry_retarget(2) [OF f(1), of C w] present_writable(3) Cons.prems(3) f(2)
            by (simp add: user_access_def Let_def)
        next
          case False
          then show ?thesis using pte_at_retarget [OF page_index_less(4) False] f(2) by simp
        qed
        then show ?thesis by (simp add: user_page_def keep [OF that] Some)
      qed
      have "\<exists>C'. walk_pages mmu table (\<lambda>_ e. user_access wr e) ps C1 =
            Some (\<forall>p \<in> set ps. user_page (pg_phys C1) pml4 p wr, C') \<and> temp_moved C1 w C'"
      proof (rule Cons.IH)
        show "window C1 w" using window_retarget [OF Cons.prems(1)] f(2) by simp
        show "reaches C1 w table pml4" using reaches_retarget [OF Cons.prems(2)] f(2) by simp
        show "\<not> flags_contain (entry_flags (pte_at (pg_phys C1) w (p1_index (temp_page C1)))) RING3_ACCESSIBLE"
          using temp_entry_retarget(2) [OF f(1), of C w] present_writable(3) f(2) by simp
        show "\<forall>p \<in> set ps. (w, p1_index (temp_page C1)) \<notin> set (walk_words (pg_phys C1) pml4 (upper_indices p))"
          using Cons.prems(4) keep(2) t by simp
      qed
      then obtain C' where C': "walk_pages mmu table (\<lambda>_ e. user_access wr e) ps C1 =
            Some (\<forall>p \<in> set ps. user_page (pg_phys C1) pml4 p wr, C')" "temp_moved C1 w C'" by blast
      have "(\<forall>p \<in> set ps. user_page (pg_phys C1) pml4 p wr) = (\<forall>p \<in> set ps. user_page (pg_phys C) pml4 p wr)"
        using up by simp
      with C' have "walk_pages mmu table (\<lambda>_ e. user_access wr e) (p # ps) C =
            Some (\<forall>p \<in> set (p # ps). user_page (pg_phys C) pml4 p wr, C')"
        using C1(1) Some e ua True by simp
      then show ?thesis using temp_moved_trans [OF C1(2) C'(2)] by blast
    qed
  qed
qed

lemma validate_exact:
  assumes "walks_four_levels mmu" "ready_to_validate C w table pml4 addr len"
  shows "\<exists>C'. validate_user_pointer mmu (Some C) table addr len wr =
      Some (len = 0 \<or> addr + (len - 1) < usize_bound \<and> (\<forall>page \<in> set (range_pages addr len). user_page (pg_phys C) pml4 page wr), Some C')
    \<and> temp_moved C w C'"
proof (cases "len = 0 \<or> addr + (len - 1) \<ge> usize_bound")
  case True
  then show ?thesis
    by (auto simp: validate_user_pointer_def walk_range_entries_def checked_add_def temp_moved_def)
next
  case False
  have "\<exists>C'. walk_pages mmu table (\<lambda>_ e. user_access wr e) (range_pages addr len) C =
            Some (\<forall>p \<in> set (range_pages addr len). user_page (pg_phys C) pml4 p wr, C') \<and> temp_moved C w C'"
    using assms(2) unfolding ready_to_validate_def by (intro walk_pages_user [OF assms(1)]) auto
  then show ?thesis
    using False by (auto simp: validate_user_pointer_def walk_range_entries_def checked_add_def range_pages_def)
qed

section \<open>Reading user memory\<close>





lemma demo_ready: "ready_to_validate demo_controller 4 0x1000 (Suc 0) 0x7100 32"
  by (simp add: ready_to_validate_def demo_window demo_reaches range_pages_def page_range_def page_for_address_def
      PAGE_SIZE_def demo_index demo_pte demo_entries entry_flags_def from_bits_truncate_def flags_contain_def
      RING3_ACCESSIBLE_def)

lemma demo_user_page: "user_page demo_mem (Suc 0) 7 wr"
  by (simp add: user_page_def pml1_frame_def demo_index demo_pte demo_entries user_access_def entry_flags_def
      from_bits_truncate_def flags_contain_def PRESENT_def RING3_ACCESSIBLE_def WRITABLE_def Let_def)

text \<open>
  C15.  The check of a user pointer is exact: it returns, it accepts a range exactly if the range is
  empty or does not wrap around and every page it touches has a present entry that user code may use
  (and write, if the check asks for it), and it changes nothing but the temporary mapping.
\<close>

theorem user_pointer_check_exact:
  assumes "walks_four_levels mmu" "ready_to_validate C w table pml4 addr len"
  shows "\<exists>C'. validate_user_pointer mmu (Some C) table addr len writable =
      Some (len = 0 \<or> addr + (len - 1) < usize_bound
              \<and> (\<forall>page \<in> set (range_pages addr len). user_page (pg_phys C) pml4 page writable), Some C')
    \<and> temp_moved C w C'"
  by (rule validate_exact [OF assms])

theorem user_pointer_check_exact_witness:
  "\<exists>C'. validate_user_pointer hw_walk (Some demo_controller) 0x1000 0x7100 32 True = Some (True, Some C')
    \<and> temp_moved demo_controller 4 C'"
  using user_pointer_check_exact [OF hw_walk_walks demo_ready, of True]
  by (simp add: range_pages_def page_range_def page_for_address_def PAGE_SIZE_def usize_bound_def demo_user_page)



section \<open>Addresses outside the lower half\<close>

lemma page_index_periodic:
  "p4_index (p + 2 ^ 36) = p4_index p" "p3_index (p + 2 ^ 36) = p3_index p"
  "p2_index (p + 2 ^ 36) = p2_index p" "p1_index (p + 2 ^ 36) = p1_index p"
proof -
  have g: "(p + k * 512 * d) div d mod 512 = p div d mod 512" if "0 < d" for k d :: nat
    using that by (simp add: div_mult_self1 [of d p "k * 512"])
  show "p4_index (p + 2 ^ 36) = p4_index p" unfolding page_index_eq using g [of "2 ^ 27" 1] by simp
  show "p3_index (p + 2 ^ 36) = p3_index p" unfolding page_index_eq using g [of "2 ^ 18" "2 ^ 9"] by simp
  show "p2_index (p + 2 ^ 36) = p2_index p" unfolding page_index_eq using g [of "2 ^ 9" "2 ^ 18"] by simp
  show "p1_index (p + 2 ^ 36) = p1_index p" unfolding page_index_eq using g [of 1 "2 ^ 27"] by simp
qed

lemma walk_pages_periodic:
  "walk_pages mmu table (\<lambda>_ e. cb e) (map (\<lambda>p. p + 2 ^ 36) ps) P = walk_pages mmu table (\<lambda>_ e. cb e) ps P"
proof (induction ps arbitrary: P)
  case (Cons p ps)
  have "walk_to_pml1 mmu P table (p + 2 ^ 36) = walk_to_pml1 mmu P table p" for P :: "'a paging_scheme"
    unfolding walk_to_pml1_def page_index_periodic ..
  then show ?case unfolding list.map walk_pages.simps page_index_periodic Cons.IH by simp
qed simp

definition faults_outside :: "mmu \<Rightarrow> bool" where
  "faults_outside mmu \<longleftrightarrow> (\<forall>m c p. 2 ^ 35 \<le> p \<longrightarrow> p < 2 ^ 52 - 2 ^ 35 \<longrightarrow> mmu m c p = None)"

lemma range_pages_shift:
  "range_pages (addr + 2 ^ 48) len = map (\<lambda>p. p + 2 ^ 36) (range_pages addr len)"
proof -
  have "(a + 2 ^ 48) div 4096 = a div 4096 + 2 ^ 36" for a :: nat
    using div_mult_self1 [of "4096 :: nat" a "2 ^ 36"] by simp
  then have e: "page_for_address (addr + 2 ^ 48) = page_for_address addr + 2 ^ 36"
      "page_for_address (addr + 2 ^ 48 + (len - 1)) = page_for_address (addr + (len - 1)) + 2 ^ 36"
    unfolding page_for_address_def PAGE_SIZE_def by (simp_all only: add.assoc add.commute [of "2 ^ 48" "len - 1"]) (simp_all only: add.assoc [symmetric])
  have "[x + k..<y + k] = map (\<lambda>p. p + k) [x..<y]" for x y k :: nat
    by (rule nth_equalityI) simp_all
  from this [of "page_for_address addr" "2 ^ 36" "Suc (page_for_address (addr + (len - 1)))"]
  show ?thesis unfolding range_pages_def page_range_def e by simp
qed

lemma validate_shift:
  assumes "0 < len" "addr + 2 ^ 48 + (len - 1) < usize_bound"
  shows "validate_user_pointer mmu M table (addr + 2 ^ 48) len wr = validate_user_pointer mmu M table addr len wr"
proof (cases M)
  case (Some C)
  have "walk_range_entries mmu C table (addr + 2 ^ 48) len (\<lambda>_ e. user_access wr e)
      = walk_pages mmu table (\<lambda>_ e. user_access wr e) (range_pages (addr + 2 ^ 48) len) C"
    using assms by (simp add: walk_range_entries_def checked_add_def range_pages_def)
  also have "\<dots> = walk_pages mmu table (\<lambda>_ e. user_access wr e) (range_pages addr len) C"
    unfolding range_pages_shift walk_pages_periodic ..
  also have "\<dots> = walk_range_entries mmu C table addr len (\<lambda>_ e. user_access wr e)"
    using assms by (auto simp add: walk_range_entries_def checked_add_def range_pages_def)
  finally show ?thesis by (simp add: validate_user_pointer_def Some)
qed (simp add: validate_user_pointer_def)

text \<open>
  C36.  The check ignores the upper bits of an address: whenever a range of the lower half is accepted,
  the same range moved up by \<open>2 ^ 48\<close> is accepted as well, and on a processor that faults on
  addresses which are not canonical the copy that follows faults inside the kernel.
\<close>

theorem noncanonical_pointer_faults:
  assumes "faults_outside mmu" "0 < len" "addr + len \<le> 2 ^ 47"
    and "validate_user_pointer mmu M table addr len False = Some (True, M')"
  shows "validate_user_pointer mmu M table (addr + 2 ^ 48) len False = Some (True, M')
    \<and> copy_from_user mmu M table (addr + 2 ^ 48) len = None"
proof -
  have v: "validate_user_pointer mmu M table (addr + 2 ^ 48) len False = Some (True, M')"
    using validate_shift [of len addr mmu M table False] assms(2-4) by (simp add: usize_bound_def)
  have "2 ^ 35 \<le> (addr + 2 ^ 48) div 4096" "(addr + 2 ^ 48) div 4096 < 2 ^ 52 - 2 ^ 35"
    using assms(3) by simp_all
  then have "phys_of mmu C (addr + 2 ^ 48) = None" for C :: memory_controller
    using assms(1) unfolding faults_outside_def phys_of_def by simp
  then have "load_bytes mmu M' (addr + 2 ^ 48) len = None"
    using assms(2) by (cases len; cases M') (simp_all add: load_bytes_def)
  then show ?thesis using v assms(2) by (simp add: copy_from_user_def)
qed

definition canonical_walk :: mmu where
  "canonical_walk m c p = (if p < 2 ^ 35 then hw_walk m c p else None)"

theorem noncanonical_pointer_faults_witness:
  "copy_from_user canonical_walk (Some demo_controller) 0x1000 (0x7100 + 2 ^ 48) 32 = None"
proof -
  have f: "faults_outside canonical_walk" by (simp add: faults_outside_def canonical_walk_def)
  have "walks_four_levels canonical_walk" by (simp add: walks_four_levels_def canonical_walk_def)
  from validate_exact [OF this demo_ready, of False]
  obtain C' where "validate_user_pointer canonical_walk (Some demo_controller) 0x1000 0x7100 32 False = Some (True, Some C')"
    by (auto simp: range_pages_def page_range_def page_for_address_def PAGE_SIZE_def usize_bound_def demo_user_page)
  from noncanonical_pointer_faults [OF f _ _ this] show ?thesis by simp
qed

end
