(* ===== verification/Elf_Map.thy ===== *)
theory Elf_Map
  imports Paging
begin

text \<open>
  Loading an ELF file into a new address space and removing its segments again (\<open>load\<close>, \<open>unmap\<close> and
  \<open>unmap_regions_from_active_table\<close> of \<open>src/elf/mod.rs\<close>).

  The file lies in kernel memory \<open>mem\<close>, which the mappings of the new process do not change.  The
  argument frame is computed by \<open>write_args_frame\<close> on the stack's own bytes, which are then stored
  through the page table that is active at that time.
\<close>

definition USER_STACK_PAGES :: nat where "USER_STACK_PAGES = 32"

fun unmap_regions_from_active_table :: "mmu \<Rightarrow> elf_region list \<Rightarrow> 'a controller \<Rightarrow> 'a controller option" where
  "unmap_regions_from_active_table mmu [] C = Some C"
| "unmap_regions_from_active_table mmu (r # rs) C =
     (let region = er_region r
      in if reg_size region = 0 then unmap_regions_from_active_table mmu rs C
         else do {
           C \<leftarrow> vwrite mmu C (reg_addr region) (replicate (reg_size region) 0);
           region_end \<leftarrow> checked_add (reg_addr region) (reg_size region);
           C \<leftarrow> mc_unmap mmu C (page_for_address (reg_addr region)) (page_for_address (region_end - 1));
           unmap_regions_from_active_table mmu rs C
         })"

definition elf_unmap :: "mmu \<Rightarrow> elf_region \<Rightarrow> memory_controller option \<Rightarrow> memory_controller option option" where
  "elf_unmap mmu start_region M =
     (case M of
        None \<Rightarrow> Some None
      | Some C \<Rightarrow> map_option Some (unmap_regions_from_active_table mmu (region_iter start_region) C))"

fun map_regions :: "mmu \<Rightarrow> nat \<Rightarrow> elf_region list \<Rightarrow> 'a controller \<Rightarrow> 'a controller option" where
  "map_regions mmu table [] C = Some C"
| "map_regions mmu table (r # rs) C = do {
     region_end \<leftarrow> checked_add (reg_addr (er_region r)) (reg_size (er_region r));
     last_addr \<leftarrow> checked_sub region_end 1;
     C \<leftarrow> map_range mmu C table (page_for_address (reg_addr (er_region r))) (page_for_address last_addr)
            (to_entry_flags (er_flags r));
     map_regions mmu table rs C
   }"

text \<open>The copy loop; \<open>False\<close> is the refusal of a segment with more file bytes than memory.\<close>

fun copy_regions :: "mmu \<Rightarrow> memory \<Rightarrow> elf_region list \<Rightarrow> 'a controller \<Rightarrow> (bool \<times> 'a controller) option" where
  "copy_regions mmu mem [] C = Some (True, C)"
| "copy_regions mmu mem (r # rs) C =
     (let ph_file_size = reg_size (er_origin r); len = reg_size (er_region r); destination = reg_addr (er_region r)
      in if ph_file_size > len then Some (False, C)
         else do {
           C \<leftarrow> vwrite mmu C destination (mem_read mem (reg_addr (er_origin r)) ph_file_size);
           C \<leftarrow> (if len - ph_file_size > 0 then vwrite mmu C (destination + ph_file_size) (replicate (len - ph_file_size) 0)
                 else Some C);
           copy_regions mmu mem rs C
         })"

text \<open>The common end of the failing branches: remove the segments and go back to the old table.\<close>

definition abandon_load :: "mmu \<Rightarrow> elf_region \<Rightarrow> nat \<Rightarrow> 'a controller \<Rightarrow> (process_entry option \<times> 'a controller) option" where
  "abandon_load mmu start_region prev_table C = do {
     C \<leftarrow> unmap_regions_from_active_table mmu (region_iter start_region) C;
     (_, C) \<leftarrow> switch_table mmu C prev_table;
     Some (None, C)
   }"

definition store_args_frame :: "mmu \<Rightarrow> stack \<Rightarrow> ustr list \<Rightarrow> 'a controller \<Rightarrow> (nat option \<times> 'a controller) option" where
  "store_args_frame mmu stack argv C = do {
     data \<leftarrow> vread mmu C (stk_bottom stack) (stk_top stack - stk_bottom stack);
     (r, m) \<leftarrow> write_args_frame (mem_write (\<lambda>_. 0) (stk_bottom stack) data) stack argv;
     C \<leftarrow> vwrite mmu C (stk_bottom stack) (mem_read m (stk_bottom stack) (stk_top stack - stk_bottom stack));
     Some (r, C)
   }"

definition elf_load ::
  "mmu \<Rightarrow> memory \<Rightarrow> region \<Rightarrow> ustr list \<Rightarrow> memory_controller option \<Rightarrow> (process_entry option \<times> memory_controller option) option" where
  "elf_load mmu mem elf argv M = do {
     entry \<leftarrow> loader_load mem elf;
     case (entry, M) of
       (None, _) \<Rightarrow> Some (None, M)
     | (_, None) \<Rightarrow> Some (None, None)
     | (Some entry, Some C) \<Rightarrow> map_option (\<lambda>(r, C). (r, Some C)) (do {
         let start_region = pe_start_region entry;
         (ring3_table, C) \<leftarrow> clone_kernel_table mmu C;
         (prev, C) \<leftarrow> switch_table mmu C ring3_table;
         case prev of
           None \<Rightarrow> Some (None, C)
         | Some prev_table \<Rightarrow> do {
             C \<leftarrow> map_regions mmu ring3_table (region_iter start_region) C;
             (copied, C) \<leftarrow> copy_regions mmu mem (region_iter start_region) C;
             if \<not> copied then abandon_load mmu start_region prev_table C
             else do {
               (stack, S, C) \<leftarrow> stack_alloc mmu (mc_stacks C) C ring3_table USER_STACK_PAGES (WRITABLE OR RING3_ACCESSIBLE);
               let C = C\<lparr>mc_stacks := S\<rparr>;
               case stack of
                 None \<Rightarrow> abandon_load mmu start_region prev_table C
               | Some stack \<Rightarrow> do {
                   (initial_rsp, C) \<leftarrow> store_args_frame mmu stack argv C;
                   case initial_rsp of
                     None \<Rightarrow> do {
                       C \<leftarrow> mc_free_stack mmu C stack;
                       abandon_load mmu start_region prev_table C
                     }
                   | Some initial_rsp \<Rightarrow> do {
                       (back, C) \<leftarrow> switch_table mmu C prev_table;
                       Some (if back = None then None
                             else Some (entry\<lparr>pe_ring3_page_table := Some ring3_table, pe_stack := Some stack,
                                              pe_initial_rsp := initial_rsp\<rparr>), C)
                     }
                 }
             }
           }
       })
   }"

end
