(* ===== verification/Kernel.thy ===== *)
theory Kernel
  imports Process Elf_Map Paths Clock
begin

text \<open>
  The kernel state and scheduling (\<open>src/scheduling/mod.rs\<close>): the round robin, process creation and
  exit, and the operations of the current process on files and directories.

  The state holds the statics of the kernel: the process list with the current index, the memory
  controller, the root directory and the file system, the file objects, the clock, and the text that
  processes have written to the console.  Parameters of the kernel that are not part of this code are
  in \<open>kernel_env\<close>: the disk and case mapping of the file system, the processor's translation, the
  user segment selectors of the GDT, where the heap places the buffer of a file, and the
  uninitialised padding bytes of the structures that are copied to user memory.

  The outer \<open>None\<close> of a result is a panic or a hang.  Where control leaves the caller the result says
  where it goes: to a process, or to the idle loop that waits for the next interrupt.  Log output
  is not part of the state.
\<close>

section \<open>State\<close>

record 'w kernel_env =
  ke_fs :: "'w fs_env"
  ke_mmu :: mmu
  ke_user_code :: nat
  ke_user_data :: nat
  ke_buffer :: "bytes \<Rightarrow> memory \<times> nat"
  ke_padding :: "nat \<Rightarrow> bytes"

record 'w kernel =
  k_scheduling_enabled :: bool
  k_current_index :: nat
  k_processes :: "process list"
  k_pid_counter :: nat
  k_mem :: mem_state
  k_root_dir :: "fat_directory option"
  k_fs :: "'w fat_file_system option"
  k_files :: "fat_file list"
  k_clock :: clock_state
  k_console :: "ustr list"

definition current_process :: "'w kernel \<Rightarrow> process option" where
  "current_process K =
     (if k_current_index K < length (k_processes K) then Some (k_processes K ! k_current_index K) else None)"

definition set_current :: "'w kernel \<Rightarrow> process \<Rightarrow> 'w kernel" where
  "set_current K p = K\<lparr>k_processes := (k_processes K)[k_current_index K := p]\<rparr>"

section \<open>Switching contexts\<close>

text \<open>
  The stack machine of \<open>jump\<close>: the values are pushed, the general registers are popped in the opposite
  order and \<open>iretq\<close> takes the rest.
\<close>

definition jump_pushes :: "interrupt_frame \<Rightarrow> nat list" where
  "jump_pushes c = fold Cons
     [ctx_ss c, ctx_rsp c, ctx_rflags c, ctx_cs c, ctx_rip c,
      ctx_r8 c, ctx_r9 c, ctx_r10 c, ctx_r11 c, ctx_r12 c, ctx_r13 c, ctx_r14 c, ctx_r15 c,
      ctx_rbp c, ctx_rdi c, ctx_rsi c, ctx_rdx c, ctx_rcx c, ctx_rbx c, ctx_rax c] []"

definition jump_pops :: "nat list \<Rightarrow> interrupt_frame option" where
  "jump_pops st =
     (case st of
        [rax, rbx, rcx, rdx, rsi, rdi, rbp, r15, r14, r13, r12, r11, r10, r9, r8, rip, cs, rflags, rsp, ss] \<Rightarrow>
          Some \<lparr> ctx_r8 = r8, ctx_r9 = r9, ctx_r10 = r10, ctx_r11 = r11, ctx_r12 = r12, ctx_r13 = r13, ctx_r14 = r14,
                 ctx_r15 = r15, ctx_rbp = rbp, ctx_rdi = rdi, ctx_rsi = rsi, ctx_rdx = rdx, ctx_rcx = rcx,
                 ctx_rbx = rbx, ctx_rax = rax, ctx_rip = rip, ctx_cs = cs, ctx_rflags = rflags, ctx_rsp = rsp, ctx_ss = ss \<rparr>
      | _ \<Rightarrow> None)"

definition jump :: "interrupt_frame \<Rightarrow> interrupt_frame option" where
  "jump c = jump_pops (jump_pushes c)"

text \<open>
  The interrupt trampoline: the processor has pushed \<open>ss\<close> to \<open>rip\<close>, the trampoline pushes the general
  registers, and the handler reads the stack from the top as the fields of the frame in order.
\<close>

definition trampoline_pushes :: "interrupt_frame \<Rightarrow> nat list" where
  "trampoline_pushes c = fold Cons
     [ctx_ss c, ctx_rsp c, ctx_rflags c, ctx_cs c, ctx_rip c,
      ctx_rax c, ctx_rbx c, ctx_rcx c, ctx_rdx c, ctx_rsi c, ctx_rdi c, ctx_rbp c,
      ctx_r15 c, ctx_r14 c, ctx_r13 c, ctx_r12 c, ctx_r11 c, ctx_r10 c, ctx_r9 c, ctx_r8 c] []"

definition frame_of_stack :: "nat list \<Rightarrow> interrupt_frame option" where
  "frame_of_stack st =
     (case st of
        [r8, r9, r10, r11, r12, r13, r14, r15, rbp, rdi, rsi, rdx, rcx, rbx, rax, rip, cs, rflags, rsp, ss] \<Rightarrow>
          Some \<lparr> ctx_r8 = r8, ctx_r9 = r9, ctx_r10 = r10, ctx_r11 = r11, ctx_r12 = r12, ctx_r13 = r13, ctx_r14 = r14,
                 ctx_r15 = r15, ctx_rbp = rbp, ctx_rdi = rdi, ctx_rsi = rsi, ctx_rdx = rdx, ctx_rcx = rcx,
                 ctx_rbx = rbx, ctx_rax = rax, ctx_rip = rip, ctx_cs = cs, ctx_rflags = rflags, ctx_rsp = rsp, ctx_ss = ss \<rparr>
      | _ \<Rightarrow> None)"

section \<open>The round robin\<close>

definition process_ready :: "process list \<Rightarrow> nat \<Rightarrow> process \<Rightarrow> bool" where
  "process_ready processes ticks p =
     (let ready = \<not> p_blocking p;
          ready = (case p_awaiting_process p of
                     None \<Rightarrow> ready
                   | Some subprocess \<Rightarrow> \<not> list_ex (\<lambda>q. p_pid q = subprocess) processes)
      in case p_sleep_until_tick p of
           None \<Rightarrow> ready
         | Some deadline \<Rightarrow> if ticks < deadline then False else ready)"

fun pick_process :: "process list \<Rightarrow> nat \<Rightarrow> nat \<Rightarrow> nat \<Rightarrow> nat option" where
  "pick_process processes ticks current_index 0 = None"
| "pick_process processes ticks current_index (Suc passes) =
     (let current_index = (if current_index + 1 \<ge> length processes then 0 else current_index + 1)
      in if process_ready processes ticks (processes ! current_index) then Some current_index
         else pick_process processes ticks current_index passes)"

definition save_context :: "'w kernel \<Rightarrow> interrupt_frame option \<Rightarrow> 'w kernel option" where
  "save_context K interrupt_stack =
     (case (interrupt_stack, current_process K) of
        (Some st, Some current) \<Rightarrow> do {
          _ \<leftarrow> checked_add (p_pid current) 1;
          Some (if \<not> p_pre_schedule current \<and> ctx_rip st > 0x1FFFFF then set_current K (current\<lparr>p_context := st\<rparr>)
                else K)
        }
      | _ \<Rightarrow> Some K)"

definition wake :: "process \<Rightarrow> process" where
  "wake p = p\<lparr>p_pre_schedule := False, p_awaiting_process := None, p_sleep_until_tick := None\<rparr>"

definition next_process :: "'w kernel \<Rightarrow> interrupt_frame option \<Rightarrow> (process option \<times> 'w kernel) option" where
  "next_process K interrupt_stack =
     (if length (k_processes K) = 0 then Some (None, K)
      else do {
        K \<leftarrow> save_context K interrupt_stack;
        case pick_process (k_processes K) (current_ticks (k_clock K)) (k_current_index K) (length (k_processes K)) of
          None \<Rightarrow> Some (None, K)
        | Some i \<Rightarrow>
            (let new_current = wake (k_processes K ! i)
             in Some (Some new_current, K\<lparr>k_current_index := i, k_processes := (k_processes K)[i := new_current]\<rparr>))
      })"

datatype outcome = Returned "nat option" | Resumed nat interrupt_frame | Idle

text \<open>
  \<open>schedule\<close> ends in the idle loop with interrupts enabled if no process is ready.  The other failing
  branches also loop, but with the lock of the memory controller held, so the next timer interrupt
  cannot make progress: they are hangs.
\<close>

definition schedule :: "'w kernel_env \<Rightarrow> 'w kernel \<Rightarrow> interrupt_frame option \<Rightarrow> (outcome \<times> 'w kernel) option" where
  "schedule E K interrupt_stack = do {
     (process_to_jump, K) \<leftarrow> next_process K interrupt_stack;
     case process_to_jump of
       None \<Rightarrow> Some (Idle, K)
     | Some p \<Rightarrow> do {
         C \<leftarrow> k_mem K;
         ring3_page_table \<leftarrow> p_ring3_page_table p;
         (old, C) \<leftarrow> switch_table (ke_mmu E) C ring3_page_table;
         _ \<leftarrow> old;
         regs \<leftarrow> jump (p_context p);
         Some (Resumed (p_pid p) regs, K\<lparr>k_mem := Some C\<rparr>)
       }
   }"

section \<open>Processes\<close>

text \<open>\<open>with_root_dir\<close> panics without a root directory.\<close>

definition deploy :: "'w kernel_env \<Rightarrow> 'w kernel \<Rightarrow> process_entry \<Rightarrow> bool \<Rightarrow> (nat \<times> 'w kernel) option" where
  "deploy E K entry fork_current = do {
     let pid = k_pid_counter K;
     pid_next \<leftarrow> checked_add pid 1;
     let K = K\<lparr>k_pid_counter := pid_next\<rparr>;
     if fork_current \<and> length (k_processes K) \<noteq> 0 \<and> current_process K = None then Some (0, K)
     else do {
       let parent_state =
         (if fork_current \<and> length (k_processes K) \<noteq> 0
          then map_option (\<lambda>c. (p_curr_working_dir c, p_fd_table c)) (current_process K) else None);
       cwd \<leftarrow> (case parent_state of Some (cwd, _) \<Rightarrow> Some cwd | None \<Rightarrow> k_root_dir K);
       case process_from entry pid cwd of
         None \<Rightarrow> Some (0, K)
       | Some process \<Rightarrow>
           (let process = (case parent_state of Some (_, fds) \<Rightarrow> process\<lparr>p_fd_table := fds\<rparr> | None \<Rightarrow> process);
                context = (p_context process)\<lparr>ctx_cs := ke_user_code E, ctx_ss := ke_user_data E, ctx_rflags := 0x202\<rparr>
            in Some (pid, K\<lparr>k_processes := k_processes K @ [process\<lparr>p_context := context\<rparr>]\<rparr>))
     }
   }"

text \<open>Indexing the process list panics out of range.\<close>

definition update_current :: "'w kernel \<Rightarrow> (process \<Rightarrow> process) \<Rightarrow> 'w kernel option" where
  "update_current K f =
     (if length (k_processes K) = 0 then Some K
      else map_option (\<lambda>p. set_current K (f p)) (current_process K))"

definition block_current :: "'w kernel \<Rightarrow> 'w kernel option" where
  "block_current K = update_current K (\<lambda>p. p\<lparr>p_blocking := True\<rparr>)"

definition sleep_current_until :: "'w kernel \<Rightarrow> nat \<Rightarrow> 'w kernel option" where
  "sleep_current_until K deadline_tick = update_current K (\<lambda>p. p\<lparr>p_sleep_until_tick := Some deadline_tick\<rparr>)"

definition process_input :: "'w kernel \<Rightarrow> nat \<Rightarrow> 'w kernel" where
  "process_input K input =
     K\<lparr>k_processes := map (\<lambda>p. if \<not> p_blocking p then p
                              else p\<lparr>p_context := (p_context p)\<lparr>ctx_rax := input\<rparr>, p_blocking := False\<rparr>) (k_processes K)\<rparr>"

definition current_wait_for_process :: "'w kernel \<Rightarrow> nat \<Rightarrow> 'w kernel" where
  "current_wait_for_process K subprocess =
     (case current_process K of
        None \<Rightarrow> K
      | Some p \<Rightarrow> set_current K (p\<lparr>p_awaiting_process := Some subprocess\<rparr>))"

definition remove_nth :: "nat \<Rightarrow> 'a list \<Rightarrow> 'a list" where
  "remove_nth i xs = take i xs @ drop (Suc i) xs"

definition exit_current :: "'w kernel_env \<Rightarrow> 'w kernel \<Rightarrow> 'w kernel option" where
  "exit_current E K =
     (case current_process K of
        None \<Rightarrow> Some K
      | Some removed \<Rightarrow> do {
          M \<leftarrow> elf_unmap (ke_mmu E) (p_start_region removed) (k_mem K);
          M \<leftarrow> (case M of
                  None \<Rightarrow> Some None
                | Some C \<Rightarrow> map_option Some (do {
                    C \<leftarrow> mc_free_stack (ke_mmu E) C (p_stack removed);
                    case p_ring3_page_table removed of
                      None \<Rightarrow> Some C
                    | Some page_table \<Rightarrow> do {
                        C \<leftarrow> free_user_subtables (ke_mmu E) C page_table;
                        Some (slots_update (\<lambda>s. slot_free s page_table) C)
                      }
                  }));
          Some (K\<lparr>k_processes := remove_nth (k_current_index K) (k_processes K), k_mem := M,
                  k_current_index := (if k_current_index K \<noteq> 0 then k_current_index K - 1 else 0)\<rparr>)
        })"

definition get_current_cwd :: "'w kernel \<Rightarrow> fat_directory option" where
  "get_current_cwd K =
     (if length (k_processes K) = 0 then k_root_dir K else map_option p_curr_working_dir (current_process K))"

definition get_current_process_page_table :: "'w kernel \<Rightarrow> nat option" where
  "get_current_process_page_table K = do { p \<leftarrow> current_process K; p_ring3_page_table p }"

definition get_current_file_descriptor :: "'w kernel \<Rightarrow> nat \<Rightarrow> file_descriptor option" where
  "get_current_file_descriptor K fd = do { p \<leftarrow> current_process K; get_fd p fd }"

section \<open>Files of the current process\<close>

definition strip_prefix :: "ustr \<Rightarrow> ustr \<Rightarrow> ustr option" where
  "strip_prefix prefix s = (if take (length prefix) s = prefix then Some (drop (length prefix) s) else None)"

definition fat_ops :: "'w fs_env \<Rightarrow> (fat_directory, fat_file, 'w fat_file_system option) directory_ops" where
  "fat_ops E =
     \<lparr> op_list_dir = (\<lambda>fso d. map_option (\<lambda>(r, fs). (r, Some fs)) (fat_list_dir E fso d)),
       op_dir_name = dir_name, op_file_name = file_name \<rparr>"

text \<open>The directory a path starts from, and the rest of the path.\<close>

definition path_base :: "'w kernel \<Rightarrow> ustr \<Rightarrow> (fat_directory \<times> ustr) option" where
  "path_base K path =
     (case strip_prefix (lit ''~/'') path of
        Some rest \<Rightarrow> map_option (\<lambda>r. (r, rest)) (k_root_dir K)
      | None \<Rightarrow>
          (case strip_prefix (lit ''/'') path of
             Some rest \<Rightarrow> map_option (\<lambda>r. (r, rest)) (k_root_dir K)
           | None \<Rightarrow> map_option (\<lambda>d. (d, path)) (get_current_cwd K)))"

definition find_file_from_path :: "'w kernel_env \<Rightarrow> 'w kernel \<Rightarrow> ustr \<Rightarrow> (fat_file option \<times> 'w kernel) option" where
  "find_file_from_path E K path = do {
     (base, rest) \<leftarrow> path_base K path;
     (r, fso) \<leftarrow> find_file_components (fat_ops (ke_fs E)) (k_fs K) base (normalize_path_components rest);
     Some (r, K\<lparr>k_fs := fso\<rparr>)
   }"

definition find_directory_from_path :: "'w kernel_env \<Rightarrow> 'w kernel \<Rightarrow> ustr \<Rightarrow> (fat_directory option \<times> 'w kernel) option" where
  "find_directory_from_path E K path =
     (if path = lit ''/'' \<or> path = lit ''~'' then map_option (\<lambda>r. (Some r, K)) (k_root_dir K)
      else do {
        (base, rest) \<leftarrow> path_base K path;
        let components = normalize_path_components rest;
        if components = [] then Some (Some base, K)
        else do {
          (r, fso) \<leftarrow> find_directory_components (fat_ops (ke_fs E)) (k_fs K) base components;
          Some (r, K\<lparr>k_fs := fso\<rparr>)
        }
      })"

definition resolve_parent_directory_and_name ::
  "'w kernel_env \<Rightarrow> 'w kernel \<Rightarrow> ustr \<Rightarrow> ((fat_directory \<times> ustr) option \<times> 'w kernel) option" where
  "resolve_parent_directory_and_name E K path =
     (if path = [] \<or> ends_with path 47 then Some (None, K)
      else do {
        (base_dir, rest) \<leftarrow> path_base K path;
        let components = normalize_path_components rest;
        if components = [] then Some (None, K)
        else if last components = lit ''..'' then Some (None, K)
        else if butlast components = [] then Some (Some (base_dir, last components), K)
        else do {
          (r, fso) \<leftarrow> find_directory_components (fat_ops (ke_fs E)) (k_fs K) base_dir (butlast components);
          Some (map_option (\<lambda>parent. (parent, last components)) r, K\<lparr>k_fs := fso\<rparr>)
        }
      })"

text \<open>Opening a file object for the current process: the object is new, the descriptor refers to it.\<close>

definition open_for_current :: "'w kernel \<Rightarrow> fat_file \<Rightarrow> bool \<Rightarrow> bool \<Rightarrow> nat option \<times> 'w kernel" where
  "open_for_current K file readable writable =
     (let index = length (k_files K); K = K\<lparr>k_files := k_files K @ [file]\<rparr>
      in case current_process K of
           None \<Rightarrow> (None, K)
         | Some p \<Rightarrow> (let (fd, p) = open_file p index readable writable in (Some fd, set_current K p)))"

definition curr_process_open_file :: "'w kernel_env \<Rightarrow> 'w kernel \<Rightarrow> ustr \<Rightarrow> bool \<Rightarrow> bool \<Rightarrow> (nat option \<times> 'w kernel) option" where
  "curr_process_open_file E K path readable writable = do {
     (file, K) \<leftarrow> find_file_from_path E K path;
     Some (case file of None \<Rightarrow> (None, K) | Some file \<Rightarrow> open_for_current K file readable writable)
   }"

definition create_file_from_path :: "'w kernel_env \<Rightarrow> 'w kernel \<Rightarrow> ustr \<Rightarrow> (fat_file option \<times> 'w kernel) option" where
  "create_file_from_path E K path = do {
     (target, K) \<leftarrow> resolve_parent_directory_and_name E K path;
     case target of
       None \<Rightarrow> Some (None, K)
     | Some (parent, name) \<Rightarrow> do {
         (r, fso) \<leftarrow> fat_dir_create_file (ke_fs E) (k_fs K) parent name;
         Some (r, K\<lparr>k_fs := fso\<rparr>)
       }
   }"

definition curr_process_create_file :: "'w kernel_env \<Rightarrow> 'w kernel \<Rightarrow> ustr \<Rightarrow> bool \<Rightarrow> bool \<Rightarrow> (nat option \<times> 'w kernel) option" where
  "curr_process_create_file E K path readable writable = do {
     (file, K) \<leftarrow> create_file_from_path E K path;
     Some (case file of None \<Rightarrow> (None, K) | Some file \<Rightarrow> open_for_current K file readable writable)
   }"

text \<open>The three operations on the entry a path names.\<close>

definition update_directory ::
  "('w fs_env \<Rightarrow> 'w fat_file_system option \<Rightarrow> fat_directory \<Rightarrow> ustr \<Rightarrow> (unit option \<times> 'w fat_file_system option) option) \<Rightarrow>
     'w kernel_env \<Rightarrow> 'w kernel \<Rightarrow> ustr \<Rightarrow> (bool \<times> 'w kernel) option" where
  "update_directory operation E K path = do {
     (target, K) \<leftarrow> resolve_parent_directory_and_name E K path;
     case target of
       None \<Rightarrow> Some (False, K)
     | Some (parent, name) \<Rightarrow> do {
         (r, fso) \<leftarrow> operation (ke_fs E) (k_fs K) parent name;
         Some (r \<noteq> None, K\<lparr>k_fs := fso\<rparr>)
       }
   }"

definition curr_process_create_directory :: "'w kernel_env \<Rightarrow> 'w kernel \<Rightarrow> ustr \<Rightarrow> (bool \<times> 'w kernel) option" where
  "curr_process_create_directory = update_directory fat_dir_create_directory"

definition curr_process_unlink_file :: "'w kernel_env \<Rightarrow> 'w kernel \<Rightarrow> ustr \<Rightarrow> (bool \<times> 'w kernel) option" where
  "curr_process_unlink_file = update_directory fat_dir_unlink_file"

definition curr_process_remove_directory :: "'w kernel_env \<Rightarrow> 'w kernel \<Rightarrow> ustr \<Rightarrow> (bool \<times> 'w kernel) option" where
  "curr_process_remove_directory = update_directory fat_dir_remove_directory"

definition close_current_file_descriptor :: "'w kernel \<Rightarrow> nat \<Rightarrow> bool \<times> 'w kernel" where
  "close_current_file_descriptor K fd =
     (case current_process K of
        None \<Rightarrow> (False, K)
      | Some p \<Rightarrow> (let (closed, p) = close_fd p fd in (closed, set_current K p)))"

definition read_current_file_descriptor :: "'w kernel_env \<Rightarrow> 'w kernel \<Rightarrow> nat \<Rightarrow> nat \<Rightarrow> (bytes option \<times> 'w kernel) option" where
  "read_current_file_descriptor E K fd len =
     (case current_process K of
        None \<Rightarrow> Some (None, K)
      | Some p \<Rightarrow> do {
          (r, p, fso) \<leftarrow> read_fd (ke_fs E) (k_fs K) (k_files K) p fd len;
          Some (r, set_current (K\<lparr>k_fs := fso\<rparr>) p)
        })"

definition write_current_file_descriptor :: "'w kernel_env \<Rightarrow> 'w kernel \<Rightarrow> nat \<Rightarrow> bytes \<Rightarrow> (nat option \<times> 'w kernel) option" where
  "write_current_file_descriptor E K fd data =
     (case current_process K of
        None \<Rightarrow> Some (None, K)
      | Some p \<Rightarrow> do {
          (r, p, files, fso) \<leftarrow> write_fd (ke_fs E) (k_fs K) (k_files K) p fd data;
          Some (r, set_current (K\<lparr>k_fs := fso, k_files := files\<rparr>) p)
        })"

definition truncate_current_file_descriptor :: "'w kernel_env \<Rightarrow> 'w kernel \<Rightarrow> nat \<Rightarrow> nat \<Rightarrow> (unit option \<times> 'w kernel) option" where
  "truncate_current_file_descriptor E K fd len =
     (case current_process K of
        None \<Rightarrow> Some (None, K)
      | Some p \<Rightarrow> do {
          (r, p, files, fso) \<leftarrow> truncate_fd (ke_fs E) (k_fs K) (k_files K) p fd len;
          Some (r, set_current (K\<lparr>k_fs := fso, k_files := files\<rparr>) p)
        })"

definition change_cwd :: "'w kernel \<Rightarrow> fat_directory \<Rightarrow> 'w kernel option" where
  "change_cwd K cwd = update_current K (\<lambda>p. p\<lparr>p_curr_working_dir := cwd\<rparr>)"

definition enable_scheduling :: "'w kernel \<Rightarrow> 'w kernel" where
  "enable_scheduling K = K\<lparr>k_scheduling_enabled := True\<rparr>"

text \<open>
  The timer interrupt: count the tick, hand over a character that has arrived on the serial line, and
  schedule.
\<close>

definition timer_isr :: "'w kernel_env \<Rightarrow> 'w kernel \<Rightarrow> nat option \<Rightarrow> interrupt_frame \<Rightarrow> (outcome \<times> 'w kernel) option" where
  "timer_isr E K serial st =
     (let K = K\<lparr>k_clock := tick (k_clock K)\<rparr>
      in if \<not> k_scheduling_enabled K then Some (Returned None, K)
         else
           (let K = (case serial of None \<Rightarrow> K | Some input \<Rightarrow> process_input K input)
            in schedule E K (Some st)))"

end
