(* ===== verification/Scheduler.thy ===== *)
theory Scheduler
  imports Kernel
begin

text \<open>
  The scheduler against its specification: the process list with the current index refines a queue
  that is served in rotation, every ready process is served within one round, and the state keeps
  its invariant over every sequence of scheduler operations.
\<close>

section \<open>Contexts\<close>

lemma jump_restores [simp]: "jump c = Some c"
  by (simp add: jump_def jump_pops_def jump_pushes_def)

lemma trampoline_frame [simp]: "frame_of_stack (trampoline_pushes c) = Some c"
  by (simp add: frame_of_stack_def trampoline_pushes_def)

section \<open>The queue\<close>

text \<open>The processes in the order in which the scheduler looks at them.\<close>

definition run_queue :: "'w kernel \<Rightarrow> process list" where
  "run_queue K = rotate (k_current_index K + 1) (k_processes K)"

text \<open>
  The specification: the first ready process of the queue runs; the processes in front of it and then
  the process itself go to the end.
\<close>

definition serve_queue :: "(process \<Rightarrow> bool) \<Rightarrow> process list \<Rightarrow> (process \<times> process list) option" where
  "serve_queue ready q =
     (case dropWhile (\<lambda>p. \<not> ready p) q of
        [] \<Rightarrow> None
      | p # rest \<Rightarrow> Some (wake p, rest @ takeWhile (\<lambda>p. \<not> ready p) q @ [wake p]))"

definition ready_in :: "'w kernel \<Rightarrow> process \<Rightarrow> bool" where
  "ready_in K p = process_ready (k_processes K) (current_ticks (k_clock K)) p"

definition index_ok :: "'w kernel \<Rightarrow> bool" where
  "index_ok K \<longleftrightarrow> k_current_index K < length (k_processes K) \<or> k_processes K = [] \<and> k_current_index K = 0"

lemma next_index:
  "0 < n \<Longrightarrow> c < n \<Longrightarrow> (if c + 1 \<ge> n then 0 else c + 1) = (c + 1) mod (n :: nat)"
  by (cases "c + 1 = n") auto

lemma pick_process_find:
  assumes "c < length ps"
  shows "pick_process ps t c m = List.find (\<lambda>i. process_ready ps t (ps ! i)) (map (\<lambda>j. (c + 1 + j) mod length ps) [0..<m])"
  using assms
proof (induction m arbitrary: c)
  case (Suc m)
  let ?c = "(c + 1) mod length ps"
  have c: "?c < length ps" using Suc.prems by (cases ps) simp_all
  have e: "(if c + 1 \<ge> length ps then 0 else c + 1) = ?c" using Suc.prems by (intro next_index) auto
  have s: "map (\<lambda>j. (c + 1 + j) mod length ps) [0..<Suc m] = ?c # map (\<lambda>j. (?c + 1 + j) mod length ps) [0..<m]"
    using mod_add_left_eq [of "c + 1" "length ps"]
    by (simp add: upt_conv_Cons map_Suc_upt [symmetric] del: upt_Suc) (metis add_Suc add_Suc_right)
  show ?case unfolding pick_process.simps e s Let_def using Suc.IH [OF c] by simp
qed simp

lemma rotate_nth_mod:
  "j < length ps \<Longrightarrow> rotate k ps ! j = ps ! ((k + j) mod length ps)"
  by (simp add: nth_rotate)

lemma find_rotation:
  assumes "c < length ps" "List.find (\<lambda>i. P (ps ! i)) (map (\<lambda>j. (c + 1 + j) mod length ps) [0..<length ps]) = Some i"
  shows "\<exists>j < length ps. i = (c + 1 + j) mod length ps \<and> P (rotate (c + 1) ps ! j) \<and> (\<forall>k < j. \<not> P (rotate (c + 1) ps ! k))"
proof -
  obtain j where j: "j < length ps" "i = (c + 1 + j) mod length ps" "P (ps ! i)"
      "\<forall>k < j. \<not> P (ps ! ((c + 1 + k) mod length ps))"
    using assms(2) unfolding find_Some_iff_nth by auto
  then show ?thesis by (intro exI [of _ j]) (auto simp: rotate_nth_mod simp del: rotate_Suc)
qed

lemma split_first:
  assumes "j < length q" "P (q ! j)" "\<forall>k < j. \<not> P (q ! k)"
  shows "takeWhile (\<lambda>x. \<not> P x) q = take j q" "dropWhile (\<lambda>x. \<not> P x) q = q ! j # drop (Suc j) q"
proof -
  have q: "q = take j q @ q ! j # drop (Suc j) q" using assms(1) by (simp add: id_take_nth_drop)
  have n: "\<forall>x \<in> set (take j q). \<not> P x" using assms(1,3) by (auto simp: in_set_conv_nth)
  have "takeWhile (\<lambda>x. \<not> P x) (take j q @ q ! j # drop (Suc j) q) = take j q"
    using n assms(2) by (simp add: takeWhile_append2)
  then show "takeWhile (\<lambda>x. \<not> P x) q = take j q" using q by simp
  have "dropWhile (\<lambda>x. \<not> P x) (take j q @ q ! j # drop (Suc j) q) = q ! j # drop (Suc j) q"
    using n assms(2) by (simp add: dropWhile_append2)
  then show "dropWhile (\<lambda>x. \<not> P x) q = q ! j # drop (Suc j) q" using q by simp
qed

lemma rotate_update:
  assumes "c < length ps" "j < length ps" "i = (c + 1 + j) mod length ps"
  shows "rotate (i + 1) (ps[i := p]) = drop (Suc j) (rotate (c + 1) ps) @ take j (rotate (c + 1) ps) @ [p]"
proof (rule nth_equalityI)
  let ?n = "length ps"
  have n: "0 < ?n" using assms(1) by linarith
  have il: "i < ?n" using assms(3) n by simp
  show "length (rotate (i + 1) (ps[i := p])) = length (drop (Suc j) (rotate (c + 1) ps) @ take j (rotate (c + 1) ps) @ [p])"
    using assms(2) by simp
  fix k
  assume k: "k < length (rotate (i + 1) (ps[i := p]))"
  then have k: "k < ?n" by simp
  have l: "rotate (i + 1) (ps[i := p]) ! k = ps[i := p] ! ((i + 1 + k) mod ?n)"
    using k by (simp add: rotate_nth_mod del: rotate_Suc)
  have i: "(i + 1 + k) mod ?n = (c + 1 + (j + 1 + k)) mod ?n"
    unfolding assms(3) using mod_add_left_eq [of "c + 1 + j" ?n "1 + k"] by (simp add: algebra_simps)
  show "rotate (i + 1) (ps[i := p]) ! k = (drop (Suc j) (rotate (c + 1) ps) @ take j (rotate (c + 1) ps) @ [p]) ! k"
  proof (cases "k = ?n - 1")
    case True
    have "i + 1 + k = i + ?n" using True n by linarith
    then have "(i + 1 + k) mod ?n = i" using il by (simp only: mod_add_self2 mod_less)
    moreover have "((drop (Suc j) (rotate (c + 1) ps) @ take j (rotate (c + 1) ps)) @ [p]) ! k = p"
      using nth_append_length [of "drop (Suc j) (rotate (c + 1) ps) @ take j (rotate (c + 1) ps)" p "[]"] True assms(2)
      by (simp del: rotate_Suc)
    ultimately show ?thesis using l il by (simp del: rotate_Suc)
  next
    case False
    with k have kn: "k < ?n - 1" by simp
    have ne: "(i + 1 + k) mod ?n \<noteq> i"
    proof
      assume a: "(i + 1 + k) mod ?n = i"
      show False
      proof (cases "i + 1 + k < ?n")
        case True
        with a show False by simp
      next
        case False
        then have "(i + 1 + k) mod ?n = (i + 1 + k - ?n) mod ?n" by (intro le_mod_geq) simp
        also have "\<dots> = i + 1 + k - ?n" using il kn by (intro mod_less) linarith
        finally show False using a kn il False by linarith
      qed
    qed
    have "ps[i := p] ! ((i + 1 + k) mod ?n) = ps ! ((c + 1 + (j + 1 + k)) mod ?n)"
      using ne i by (metis nth_list_update_neq)
    also have "\<dots> = (drop (Suc j) (rotate (c + 1) ps) @ take j (rotate (c + 1) ps) @ [p]) ! k"
    proof (cases "Suc j + k < ?n")
      case True
      then have "k < ?n - Suc j" by linarith
      with True show ?thesis by (simp add: nth_append rotate_nth_mod del: rotate_Suc)
    next
      case False
      then have a: "Suc j + k - ?n < ?n" "k - (?n - Suc j) = Suc j + k - ?n" "Suc j + k - ?n < j" using k kn assms(2) by auto
      have "(c + 1 + (j + 1 + k)) mod ?n = (c + 1 + (Suc j + k - ?n)) mod ?n"
      proof -
        have "c + 1 + (j + 1 + k) = c + 1 + (Suc j + k - ?n) + ?n" using False by simp
        then show ?thesis by (metis mod_add_self2)
      qed
      moreover have "\<not> k < ?n - Suc j" using False by linarith
      ultimately show ?thesis using a assms(2)
        by (simp add: nth_append rotate_nth_mod del: rotate_Suc)
    qed
    finally show ?thesis unfolding l .
  qed
qed

lemma next_process_None_stack:
  "next_process K None =
     (if k_processes K = [] then Some (None, K)
      else case pick_process (k_processes K) (current_ticks (k_clock K)) (k_current_index K) (length (k_processes K)) of
          None \<Rightarrow> Some (None, K)
        | Some i \<Rightarrow> Some (Some (wake (k_processes K ! i)),
            K\<lparr>k_current_index := i, k_processes := (k_processes K)[i := wake (k_processes K ! i)]\<rparr>))"
  by (auto simp: next_process_def save_context_def Let_def split: option.splits)

lemma serve_refines:
  assumes "index_ok K" "k_processes K \<noteq> []"
  shows "case pick_process (k_processes K) (current_ticks (k_clock K)) (k_current_index K) (length (k_processes K)) of
      None \<Rightarrow> serve_queue (ready_in K) (run_queue K) = None
    | Some i \<Rightarrow> i < length (k_processes K) \<and> ready_in K (k_processes K ! i) \<and>
        serve_queue (ready_in K) (run_queue K) =
        Some (wake (k_processes K ! i), rotate (i + 1) ((k_processes K)[i := wake (k_processes K ! i)]))"
proof -
  let ?ps = "k_processes K" and ?c = "k_current_index K"
  have c: "?c < length ?ps" using assms by (auto simp: index_ok_def)
  show ?thesis
  proof (cases "pick_process ?ps (current_ticks (k_clock K)) ?c (length ?ps)")
    case None
    then have "\<forall>j < length ?ps. \<not> ready_in K (?ps ! ((?c + 1 + j) mod length ?ps))"
      unfolding pick_process_find [OF c] ready_in_def by (auto simp: find_None_iff)
    then have "\<forall>p \<in> set (run_queue K). \<not> ready_in K p"
      unfolding run_queue_def by (metis in_set_conv_nth length_rotate rotate_nth_mod)
    then have "dropWhile (\<lambda>p. \<not> ready_in K p) (run_queue K) = []" by simp
    then have "serve_queue (ready_in K) (run_queue K) = None" unfolding serve_queue_def by (simp only: list.case)
    then show ?thesis using None by simp
  next
    case (Some i)
    obtain j where j: "j < length ?ps" "i = (?c + 1 + j) mod length ?ps" "ready_in K (run_queue K ! j)"
        "\<forall>k < j. \<not> ready_in K (run_queue K ! k)"
      using find_rotation [OF c, of "ready_in K" i] Some unfolding pick_process_find [OF c] run_queue_def ready_in_def by blast
    have q: "run_queue K ! j = ?ps ! i" using j(1,2) by (simp add: run_queue_def rotate_nth_mod del: rotate_Suc)
    have "0 < length ?ps" using c by linarith
    then have i: "i < length ?ps" using j(2) by simp
    have "j < length (run_queue K)" using j(1) by (simp add: run_queue_def)
    note s = split_first [OF this j(3,4)]
    have "serve_queue (ready_in K) (run_queue K) = Some (wake (?ps ! i), drop (Suc j) (run_queue K) @ take j (run_queue K) @ [wake (?ps ! i)])"
      by (simp add: serve_queue_def s q)
    then show ?thesis
      using Some i j(3) q rotate_update [OF c j(1,2), of "wake (?ps ! i)"] by (simp add: run_queue_def)
  qed
qed

section \<open>The invariant\<close>

text \<open>
  Process identifiers are distinct and below the counter, the current index is in range, every process
  has a page table, and the descriptor tables are well formed.
\<close>

definition sched_inv :: "'w kernel \<Rightarrow> bool" where
  "sched_inv K \<longleftrightarrow>
     index_ok K \<and> distinct (map p_pid (k_processes K)) \<and> k_pid_counter K < usize_bound
     \<and> (\<forall>p \<in> set (k_processes K). p_pid p < k_pid_counter K \<and> p_ring3_page_table p \<noteq> None
          \<and> wf_fds (length (k_files K)) p)"

text \<open>What an operation may do to the scheduler's part of the state without breaking the invariant.\<close>

definition same_tasks :: "'w kernel \<Rightarrow> 'w kernel \<Rightarrow> bool" where
  "same_tasks K K' \<longleftrightarrow>
     map p_pid (k_processes K') = map p_pid (k_processes K) \<and> k_pid_counter K' = k_pid_counter K \<and> index_ok K'
     \<and> (\<forall>p \<in> set (k_processes K'). p_ring3_page_table p \<noteq> None \<and> wf_fds (length (k_files K')) p)"

lemma sched_inv_same: "sched_inv K \<Longrightarrow> same_tasks K K' \<Longrightarrow> sched_inv K'"
proof -
  assume i: "sched_inv K" and s: "same_tasks K K'"
  have "p_pid ` set (k_processes K') = p_pid ` set (k_processes K)"
    using s by (metis list.set_map same_tasks_def)
  moreover have "\<forall>x \<in> p_pid ` set (k_processes K). x < k_pid_counter K" using i by (auto simp: sched_inv_def)
  ultimately have "\<forall>p \<in> set (k_processes K'). p_pid p < k_pid_counter K" by blast
  with i s show ?thesis by (simp add: sched_inv_def same_tasks_def)
qed

lemma current_in: "current_process K = Some p \<Longrightarrow> p \<in> set (k_processes K) \<and> k_current_index K < length (k_processes K)"
  by (auto simp: current_process_def split: if_splits)

lemma wf_fds_mono: "wf_fds n p \<Longrightarrow> n \<le> m \<Longrightarrow> wf_fds m p"
  by (fastforce simp: wf_fds_def fd_ok_def split: option.splits file_descriptor.splits)

lemma wf_fds_cong: "p_fd_table p' = p_fd_table p \<Longrightarrow> wf_fds n p' = wf_fds n p"
  by (simp add: wf_fds_def)

text \<open>Replacing one process by one with the same identity.\<close>

lemma same_tasks_update:
  assumes "sched_inv K" "i < length (k_processes K)" "p = k_processes K ! i"
    and "p_pid p' = p_pid p" "p_ring3_page_table p' = p_ring3_page_table p"
    and "k_processes K' = (k_processes K)[i := p']" "k_pid_counter K' = k_pid_counter K"
    and "length (k_files K) \<le> length (k_files K')" "wf_fds (length (k_files K')) p'"
    and "k_current_index K' < length (k_processes K)"
  shows "same_tasks K K'"
proof -
  have "map p_pid ((k_processes K)[i := p']) = map p_pid (k_processes K)"
    using assms(2-4) by (simp add: map_update list_update_same_conv)
  moreover have "p_ring3_page_table q \<noteq> None \<and> wf_fds (length (k_files K')) q" if "q \<in> set (k_processes K')" for q
  proof -
    have "q = p' \<or> q \<in> set (k_processes K)" using that set_update_subset_insert assms(6) by fastforce
    then show ?thesis
      using assms nth_mem [OF assms(2)] wf_fds_mono by (fastforce simp: sched_inv_def)
  qed
  ultimately show ?thesis using assms(6,7,10) by (simp add: same_tasks_def index_ok_def)
qed

lemma same_tasks_refl: "sched_inv K \<Longrightarrow> k_processes K' = k_processes K \<Longrightarrow> k_pid_counter K' = k_pid_counter K \<Longrightarrow>
    k_current_index K' = k_current_index K \<Longrightarrow> length (k_files K) \<le> length (k_files K') \<Longrightarrow> same_tasks K K'"
  using wf_fds_mono by (fastforce simp: same_tasks_def sched_inv_def index_ok_def)

lemma set_current_inv:
  fixes K K' :: "'w kernel"
  assumes "sched_inv K" "current_process K = Some p" "p_pid p' = p_pid p" "p_ring3_page_table p' = p_ring3_page_table p"
    and "wf_fds (length (k_files K')) p'" "k_processes K' = k_processes K" "k_pid_counter K' = k_pid_counter K"
    and "k_current_index K' = k_current_index K" "length (k_files K) \<le> length (k_files K')"
  shows "sched_inv (set_current K' p')"
proof (rule sched_inv_same [OF assms(1)])
  have "p = k_processes K ! k_current_index K" using assms(2) by (auto simp: current_process_def split: if_splits)
  then show "same_tasks K (set_current K' p')"
    using assms current_in [OF assms(2)]
    by (intro same_tasks_update [where i = "k_current_index K"]) (simp_all add: set_current_def)
qed

lemma update_current_inv:
  assumes "sched_inv K" "update_current K f = Some K'"
    and "\<And>p. p_pid (f p) = p_pid p \<and> p_ring3_page_table (f p) = p_ring3_page_table p \<and> p_fd_table (f p) = p_fd_table p"
  shows "sched_inv K'"
proof (cases "k_processes K = []")
  case True
  with assms show ?thesis by (simp add: update_current_def)
next
  case False
  then obtain p where p: "current_process K = Some p" "K' = set_current K (f p)"
    using assms(2) by (auto simp: update_current_def)
  have "wf_fds (length (k_files K)) p" using assms(1) current_in [OF p(1)] by (simp add: sched_inv_def)
  then show ?thesis unfolding p(2)
    using assms(3) wf_fds_cong [of "f p" p] by (intro set_current_inv [OF assms(1) p(1)]) simp_all
qed

lemma save_context_inv:
  assumes "sched_inv K" "save_context K st = Some K'"
  shows "sched_inv K'" "length (k_processes K') = length (k_processes K)"
proof -
  show "sched_inv K'"
  proof (cases "st = None \<or> current_process K = None")
    case True
    with assms show ?thesis by (auto simp: save_context_def split: option.splits)
  next
    case False
    then obtain fr p where p: "st = Some fr" "current_process K = Some p" by auto
    have "wf_fds (length (k_files K)) p" using assms(1) current_in [OF p(2)] by (simp add: sched_inv_def)
    then have "sched_inv (set_current K (p\<lparr>p_context := fr\<rparr>))"
      by (intro set_current_inv [OF assms(1) p(2)]) (simp_all add: wf_fds_def)
    with assms p show ?thesis by (auto simp: save_context_def split: Option.bind_splits if_splits)
  qed
  show "length (k_processes K') = length (k_processes K)"
    using assms(2) by (auto simp: save_context_def set_current_def split: option.splits Option.bind_splits if_splits)
qed

lemma next_process_split:
  assumes "next_process K st = Some (r, K')" "k_processes K \<noteq> []"
  shows "\<exists>K1. save_context K st = Some K1 \<and> next_process K1 None = Some (r, K') \<and> k_processes K1 \<noteq> []"
proof -
  obtain K1 where K1: "save_context K st = Some K1"
    using assms by (auto simp: next_process_def split: Option.bind_splits)
  have "k_processes K1 \<noteq> []"
    using K1 assms(2)
    by (auto simp: save_context_def set_current_def split: option.splits Option.bind_splits if_splits)
  then show ?thesis using assms K1 by (auto simp: next_process_def save_context_def [of K1 None])
qed

lemma next_process_None_inv:
  assumes "sched_inv K" "next_process K None = Some (r, K')" "k_processes K \<noteq> []"
  shows "sched_inv K'"
proof -
  note q = serve_refines [of K]
  show ?thesis
  proof (cases "pick_process (k_processes K) (current_ticks (k_clock K)) (k_current_index K) (length (k_processes K))")
    case None
    with assms show ?thesis by (simp add: next_process_None_stack)
  next
    case (Some i)
    have i: "i < length (k_processes K)" using q assms(1,3) Some by (simp add: sched_inv_def)
    have K': "K' = K\<lparr>k_current_index := i, k_processes := (k_processes K)[i := wake (k_processes K ! i)]\<rparr>"
      using assms Some by (simp add: next_process_None_stack)
    have "wf_fds (length (k_files K)) (k_processes K ! i)" using assms(1) i by (simp add: sched_inv_def)
    then have "same_tasks K K'"
      unfolding K' using i by (intro same_tasks_update [OF assms(1) i refl, where p' = "wake (k_processes K ! i)"]) (simp_all add: wake_def wf_fds_def)
    then show ?thesis by (rule sched_inv_same [OF assms(1)])
  qed
qed

lemma next_process_inv: "sched_inv K \<Longrightarrow> next_process K st = Some (r, K') \<Longrightarrow> sched_inv K'"
proof (cases "k_processes K = []")
  case True
  then show "sched_inv K \<Longrightarrow> next_process K st = Some (r, K') \<Longrightarrow> sched_inv K'" by (simp add: next_process_def)
next
  case False
  assume "sched_inv K" "next_process K st = Some (r, K')"
  then show "sched_inv K'"
    using next_process_split [OF _ False, of st r K'] save_context_inv(1) next_process_None_inv by blast
qed

lemma sched_inv_mem [simp]: "sched_inv (K\<lparr>k_mem := M\<rparr>) = sched_inv K"
  "sched_inv (K\<lparr>k_fs := fso\<rparr>) = sched_inv K" "sched_inv (K\<lparr>k_clock := clk\<rparr>) = sched_inv K"
  by (simp_all add: sched_inv_def index_ok_def)

lemma schedule_next:
  assumes "schedule E K st = Some (r, K')"
  shows "\<exists>p K1 M. next_process K st = Some (p, K1) \<and> K' = K1\<lparr>k_mem := M\<rparr>"
proof -
  obtain p K1 where p: "next_process K st = Some (p, K1)"
    using assms by (auto simp: schedule_def split: Option.bind_splits)
  have "K' = K1 \<or> (\<exists>C. K' = K1\<lparr>k_mem := Some C\<rparr>)"
    using assms p by (auto simp: schedule_def split: Option.bind_splits option.splits)
  then have "\<exists>M. K' = K1\<lparr>k_mem := M\<rparr>" by (metis kernel.surjective kernel.update_convs(5))
  with p show ?thesis by blast
qed

lemma schedule_inv: "sched_inv K \<Longrightarrow> schedule E K st = Some (r, K') \<Longrightarrow> sched_inv K'"
  using schedule_next [of E K st r K'] next_process_inv [of K st] by fastforce

lemma deploy_inv:
  assumes i: "sched_inv K" and d: "deploy E K entry fork = Some (pid, K')"
  shows "sched_inv K'"
proof -
  let ?K = "K\<lparr>k_pid_counter := k_pid_counter K + 1\<rparr>"
  have c: "k_pid_counter K + 1 < usize_bound" using d by (auto simp: deploy_def Let_def split: Option.bind_splits)
  have "\<forall>p \<in> set (k_processes K). p_pid p < k_pid_counter K" using i by (simp add: sched_inv_def)
  then have b: "sched_inv ?K" using i c by (fastforce simp: sched_inv_def index_ok_def)
  consider (fail) "K' = ?K"
    | (new) p where "K' = ?K\<lparr>k_processes := k_processes K @ [p]\<rparr>" "p_pid p = k_pid_counter K"
        "p_ring3_page_table p \<noteq> None" "wf_fds (length (k_files K)) p"
  proof -
    assume f: "K' = ?K \<Longrightarrow> thesis"
      and n: "\<And>p. K' = ?K\<lparr>k_processes := k_processes K @ [p]\<rparr> \<Longrightarrow> p_pid p = k_pid_counter K \<Longrightarrow>
        p_ring3_page_table p \<noteq> None \<Longrightarrow> wf_fds (length (k_files K)) p \<Longrightarrow> thesis"
    let ?parent = "if fork \<and> length (k_processes K) \<noteq> 0
          then map_option (\<lambda>c. (p_curr_working_dir c, p_fd_table c)) (current_process K) else None"
    have cur: "current_process ?K = current_process K" by (simp add: current_process_def)
    show thesis
    proof (cases "fork \<and> length (k_processes K) \<noteq> 0 \<and> current_process K = None")
      case True
      then show thesis using d c f cur by (auto simp: deploy_def checked_add_def Let_def)
    next
      case False
      then obtain cwd where cwd: "(case ?parent of Some (cwd, _) \<Rightarrow> Some cwd | None \<Rightarrow> k_root_dir K) = Some cwd"
        using d c cur by (auto simp: deploy_def checked_add_def Let_def split: Option.bind_splits if_splits option.splits)
      show thesis
      proof (cases "process_from entry (k_pid_counter K) cwd")
        case None
        then show thesis using d c cur False cwd f
          by (auto simp: deploy_def checked_add_def Let_def split: Option.bind_splits if_splits option.splits)
      next
        case (Some p)
        let ?p = "case ?parent of Some (_, fds) \<Rightarrow> p\<lparr>p_fd_table := fds\<rparr> | None \<Rightarrow> p"
        let ?q = "?p\<lparr>p_context := (p_context ?p)\<lparr>ctx_cs := ke_user_code E, ctx_ss := ke_user_data E, ctx_rflags := 0x202\<rparr>\<rparr>"
        have K': "K' = ?K\<lparr>k_processes := k_processes K @ [?q]\<rparr>"
          using d c cur False cwd Some
          by (auto simp: deploy_def checked_add_def Let_def split: Option.bind_splits if_splits option.splits)
        have pp: "p_pid p = k_pid_counter K" "p_ring3_page_table p \<noteq> None" "wf_fds (length (k_files K)) p"
          using Some process_from_wf [OF Some] by (auto simp: process_from_def Let_def split: option.splits if_splits)
        have "wf_fds (length (k_files K)) q" if "current_process K = Some q" for q
          using i current_in [OF that] by (simp add: sched_inv_def)
        then have w: "wf_fds (length (k_files K)) ?q"
          using pp(3) by (auto simp: wf_fds_def split: option.splits)
        show thesis
          by (rule n [OF K']) (use pp w in \<open>auto split: option.splits\<close>)
      qed
    qed
  qed
  then show ?thesis
  proof cases
    case fail
    with b show ?thesis by simp
  next
    case (new p)
    have "k_current_index K < length (k_processes K @ [p])" using i by (auto simp: sched_inv_def index_ok_def)
    moreover have "k_pid_counter K \<notin> p_pid ` set (k_processes K)" using i by (auto simp: sched_inv_def)
    ultimately show ?thesis using b new unfolding new(1) by (simp add: sched_inv_def index_ok_def)
  qed
qed

lemma exit_current_inv:
  assumes i: "sched_inv K" and e: "exit_current E K = Some K'"
  shows "sched_inv K'"
proof (cases "current_process K")
  case None
  with i e show ?thesis by (simp add: exit_current_def)
next
  case (Some p)
  let ?c = "k_current_index K" and ?ps = "k_processes K"
  obtain M where K': "K' = K\<lparr>k_processes := remove_nth ?c ?ps, k_mem := M, k_current_index := (if ?c \<noteq> 0 then ?c - 1 else 0)\<rparr>"
    using e Some by (auto simp: exit_current_def split: Option.bind_splits)
  have c: "?c < length ?ps" using current_in [OF Some] by simp
  have sub: "set (remove_nth ?c ?ps) \<subseteq> set ?ps"
    by (auto simp: remove_nth_def dest: in_set_takeD in_set_dropD)
  have "distinct (map p_pid ?ps)" using i by (simp add: sched_inv_def)
  moreover have "map p_pid ?ps = map p_pid (take ?c ?ps) @ p_pid (?ps ! ?c) # map p_pid (drop (Suc ?c) ?ps)"
    by (subst id_take_nth_drop [OF c]) simp
  ultimately have d: "distinct (map p_pid (remove_nth ?c ?ps))" by (simp add: remove_nth_def)
  have l: "length (remove_nth ?c ?ps) = length ?ps - 1" using c by (simp add: remove_nth_def)
  have "index_ok K'" using c l unfolding K' index_ok_def by (auto simp flip: length_greater_0_conv)
  with i sub d show ?thesis unfolding K' sched_inv_def by auto
qed

definition give_input :: "nat \<Rightarrow> process \<Rightarrow> process" where
  "give_input input p =
     (if \<not> p_blocking p then p else p\<lparr>p_context := (p_context p)\<lparr>ctx_rax := input\<rparr>, p_blocking := False\<rparr>)"

lemma give_input_sel [simp]:
  "p_pid (give_input c p) = p_pid p" "p_ring3_page_table (give_input c p) = p_ring3_page_table p"
  "p_fd_table (give_input c p) = p_fd_table p" "p_awaiting_process (give_input c p) = p_awaiting_process p"
  by (simp_all add: give_input_def)

lemma process_input_map: "process_input K input = K\<lparr>k_processes := map (give_input input) (k_processes K)\<rparr>"
  by (simp add: process_input_def give_input_def cong: map_cong)

lemma process_input_inv: "sched_inv K \<Longrightarrow> sched_inv (process_input K input)"
proof (rule sched_inv_same)
  assume i: "sched_inv K"
  then have "p_ring3_page_table (give_input input p) \<noteq> None \<and> wf_fds (length (k_files K)) (give_input input p)"
    if "p \<in> set (k_processes K)" for p
    using that by (simp add: sched_inv_def wf_fds_def)
  then show "same_tasks K (process_input K input)"
    using i unfolding same_tasks_def process_input_map by (auto simp: sched_inv_def index_ok_def)
qed

lemma wait_inv: "sched_inv K \<Longrightarrow> sched_inv (current_wait_for_process K n)"
proof (cases "current_process K")
  case (Some p)
  assume i: "sched_inv K"
  have "wf_fds (length (k_files K)) p" using i current_in [OF Some] by (simp add: sched_inv_def)
  then show ?thesis
    using Some by (simp add: current_wait_for_process_def) (intro set_current_inv [OF i Some], simp_all add: wf_fds_def)
qed (simp add: current_wait_for_process_def)

lemma open_for_current_inv:
  assumes i: "sched_inv K" and o: "open_for_current K file rd wr = (r, K')"
  shows "sched_inv K'"
proof -
  let ?K = "K\<lparr>k_files := k_files K @ [file]\<rparr>"
  have b: "sched_inv ?K" using i by (intro sched_inv_same [OF i] same_tasks_refl [OF i]) simp_all
  show ?thesis
  proof (cases "current_process ?K")
    case None
    with o b show ?thesis by (simp add: open_for_current_def Let_def)
  next
    case (Some p)
    obtain fd p' where p': "open_file p (length (k_files K)) rd wr = (fd, p')" by fastforce
    have "wf_fds (length (k_files K)) p" using i current_in [OF Some] by (simp add: sched_inv_def)
    then have "wf_fds (Suc (length (k_files K))) p'" by (rule open_file_wf [OF _ p']) simp_all
    moreover have "p_pid p' = p_pid p" "p_ring3_page_table p' = p_ring3_page_table p"
      using p' by (auto simp: open_file_def Let_def split: option.splits)
    ultimately have "sched_inv (set_current ?K p')" by (intro set_current_inv [OF b Some]) simp_all
    with o Some p' show ?thesis by (simp add: open_for_current_def Let_def)
  qed
qed

lemma find_file_keeps: "find_file_from_path E K path = Some (r, K') \<Longrightarrow> \<exists>fso. K' = K\<lparr>k_fs := fso\<rparr>"
  by (auto simp: find_file_from_path_def split: Option.bind_splits)

lemma resolve_keeps: "resolve_parent_directory_and_name E K path = Some (r, K') \<Longrightarrow> \<exists>fso. K' = K\<lparr>k_fs := fso\<rparr>"
proof -
  assume a: "resolve_parent_directory_and_name E K path = Some (r, K')"
  have "K' = K \<or> (\<exists>fso. K' = K\<lparr>k_fs := fso\<rparr>)"
    using a by (auto simp: resolve_parent_directory_and_name_def Let_def split: Option.bind_splits if_splits)
  moreover have "K = K\<lparr>k_fs := k_fs K\<rparr>" by simp
  ultimately show ?thesis by metis
qed

lemma create_keeps: "create_file_from_path E K path = Some (r, K') \<Longrightarrow> \<exists>fso. K' = K\<lparr>k_fs := fso\<rparr>"
proof -
  assume a: "create_file_from_path E K path = Some (r, K')"
  obtain t K1 where t: "resolve_parent_directory_and_name E K path = Some (t, K1)"
    using a by (auto simp: create_file_from_path_def split: Option.bind_splits)
  obtain fso where "K1 = K\<lparr>k_fs := fso\<rparr>" using resolve_keeps [OF t] by blast
  moreover have "K' = K1 \<or> (\<exists>fso. K' = K1\<lparr>k_fs := fso\<rparr>)"
    using a t by (auto simp: create_file_from_path_def split: Option.bind_splits option.splits)
  ultimately show ?thesis by auto
qed

lemma opened_inv:
  assumes "sched_inv K" "(case file of None \<Rightarrow> (None, K) | Some file \<Rightarrow> open_for_current K file rd wr) = (r, K')"
  shows "sched_inv K'"
  using assms open_for_current_inv by (auto split: option.splits)

lemma open_inv: "sched_inv K \<Longrightarrow> curr_process_open_file E K path rd wr = Some (r, K') \<Longrightarrow> sched_inv K'"
  unfolding curr_process_open_file_def
  by (auto dest!: find_file_keeps split: Option.bind_splits) (rule opened_inv [rotated], assumption, simp)

lemma create_inv: "sched_inv K \<Longrightarrow> curr_process_create_file E K path rd wr = Some (r, K') \<Longrightarrow> sched_inv K'"
  unfolding curr_process_create_file_def
  by (auto dest!: create_keeps split: Option.bind_splits) (rule opened_inv [rotated], assumption, simp)

text \<open>The three operations on an open descriptor give back the process with a changed descriptor.\<close>

definition fd_moved :: "nat \<Rightarrow> process \<Rightarrow> process \<Rightarrow> bool" where
  "fd_moved n p p' \<longleftrightarrow> p_pid p' = p_pid p \<and> p_ring3_page_table p' = p_ring3_page_table p \<and> (wf_fds n p \<longrightarrow> wf_fds n p')"

lemma fd_moved_refl [simp]: "fd_moved n p p"
  by (simp add: fd_moved_def)

lemma fd_moved_set_fd: "get_fd p fd = Some (FileFd e) \<Longrightarrow> of_file e' = of_file e \<Longrightarrow> fd_moved n p (set_fd p fd e')"
  using wf_fds_set_fd [of n p fd e e'] by (simp add: fd_moved_def) (simp add: set_fd_def)

lemma fd_moved_offset: "get_fd p fd = Some (FileFd e) \<Longrightarrow> fd_moved n p (set_fd p fd (e\<lparr>of_offset := x\<rparr>))"
  by (rule fd_moved_set_fd) simp_all

lemma read_fd_moved: "read_fd E fso files p fd len = Some (r, p', fso') \<Longrightarrow> fd_moved n p p'"
  by (auto simp: read_fd_def Let_def intro!: fd_moved_offset
      split: option.splits file_descriptor.splits if_splits Option.bind_splits)

lemma write_fd_moved:
  "write_fd E fso files p fd data = Some (r, p', files', fso') \<Longrightarrow> fd_moved n p p' \<and> length files' = length files"
  by (auto simp: write_fd_def Let_def intro!: fd_moved_offset
      split: option.splits file_descriptor.splits if_splits Option.bind_splits)

lemma truncate_fd_moved:
  "truncate_fd E fso files p fd len = Some (r, p', files', fso') \<Longrightarrow> fd_moved n p p' \<and> length files' = length files"
  by (auto simp: truncate_fd_def Let_def intro!: fd_moved_offset
      split: option.splits file_descriptor.splits if_splits Option.bind_splits)

lemma fd_moved_inv:
  assumes "sched_inv K" "current_process K = Some p" "fd_moved (length (k_files K)) p p'" "length files' = length (k_files K)"
  shows "sched_inv (set_current (K\<lparr>k_fs := fso, k_files := files'\<rparr>) p')"
proof -
  have "wf_fds (length (k_files K)) p" using assms(1) current_in [OF assms(2)] by (simp add: sched_inv_def)
  then show ?thesis
    using assms(3,4) by (intro set_current_inv [OF assms(1,2)]) (simp_all add: fd_moved_def)
qed

lemma close_inv:
  assumes i: "sched_inv K" and c: "close_current_file_descriptor K fd = (b, K')"
  shows "sched_inv K'"
proof (cases "current_process K")
  case None
  with i c show ?thesis by (simp add: close_current_file_descriptor_def)
next
  case (Some p)
  have "wf_fds (length (k_files K)) p" using i current_in [OF Some] by (simp add: sched_inv_def)
  then have "wf_fds (length (k_files K)) (snd (close_fd p fd))" by (rule close_fd_wf)
  moreover have "p_pid (snd (close_fd p fd)) = p_pid p" "p_ring3_page_table (snd (close_fd p fd)) = p_ring3_page_table p"
    by (simp_all add: close_fd_def)
  ultimately have "sched_inv (set_current K (snd (close_fd p fd)))"
    by (intro set_current_inv [OF i Some]) simp_all
  with c Some show ?thesis by (simp add: close_current_file_descriptor_def case_prod_beta Let_def)
qed

lemma read_inv:
  assumes i: "sched_inv K" and r: "read_current_file_descriptor E K fd len = Some (r, K')"
  shows "sched_inv K'"
proof (cases "current_process K")
  case None
  with i r show ?thesis by (simp add: read_current_file_descriptor_def)
next
  case (Some p)
  obtain p' fso where p': "read_fd (ke_fs E) (k_fs K) (k_files K) p fd len = Some (r, p', fso)"
      "K' = set_current (K\<lparr>k_fs := fso\<rparr>) p'"
    using r Some by (auto simp: read_current_file_descriptor_def split: Option.bind_splits)
  have "K\<lparr>k_fs := fso\<rparr> = K\<lparr>k_fs := fso, k_files := k_files K\<rparr>" by simp
  with fd_moved_inv [OF i Some read_fd_moved [OF p'(1)] refl, of fso] show ?thesis unfolding p'(2) by simp
qed

lemma write_inv:
  assumes i: "sched_inv K" and r: "write_current_file_descriptor E K fd data = Some (r, K')"
  shows "sched_inv K'"
proof (cases "current_process K")
  case None
  with i r show ?thesis by (simp add: write_current_file_descriptor_def)
next
  case (Some p)
  obtain p' files fso where p': "write_fd (ke_fs E) (k_fs K) (k_files K) p fd data = Some (r, p', files, fso)"
      "K' = set_current (K\<lparr>k_fs := fso, k_files := files\<rparr>) p'"
    using r Some by (auto simp: write_current_file_descriptor_def split: Option.bind_splits)
  then show ?thesis using fd_moved_inv [OF i Some] write_fd_moved [OF p'(1)] by blast
qed

lemma truncate_inv:
  assumes i: "sched_inv K" and r: "truncate_current_file_descriptor E K fd len = Some (r, K')"
  shows "sched_inv K'"
proof (cases "current_process K")
  case None
  with i r show ?thesis by (simp add: truncate_current_file_descriptor_def)
next
  case (Some p)
  obtain p' files fso where p': "truncate_fd (ke_fs E) (k_fs K) (k_files K) p fd len = Some (r, p', files, fso)"
      "K' = set_current (K\<lparr>k_fs := fso, k_files := files\<rparr>) p'"
    using r Some by (auto simp: truncate_current_file_descriptor_def split: Option.bind_splits)
  then show ?thesis using fd_moved_inv [OF i Some] truncate_fd_moved [OF p'(1)] by blast
qed

lemma timer_inv:
  assumes "sched_inv K" "timer_isr E K serial st = Some (r, K')"
  shows "sched_inv K'"
proof -
  let ?K = "K\<lparr>k_clock := tick (k_clock K)\<rparr>"
  have t: "sched_inv ?K" using assms(1) by simp
  have "sched_inv (case serial of None \<Rightarrow> ?K | Some input \<Rightarrow> process_input ?K input)"
    using t process_input_inv [OF t] by (simp split: option.split)
  moreover have "K' = ?K \<or> schedule E (case serial of None \<Rightarrow> ?K | Some input \<Rightarrow> process_input ?K input) (Some st) = Some (r, K')"
    using assms(2) by (auto simp: timer_isr_def Let_def split: if_splits)
  ultimately show ?thesis using t schedule_inv by blast
qed

lemma block_inv: "sched_inv K \<Longrightarrow> block_current K = Some K' \<Longrightarrow> sched_inv K'"
  unfolding block_current_def by (rule update_current_inv, assumption, assumption, simp)

lemma sleep_inv: "sched_inv K \<Longrightarrow> sleep_current_until K d = Some K' \<Longrightarrow> sched_inv K'"
  unfolding sleep_current_until_def by (rule update_current_inv, assumption, assumption, simp)

lemma cwd_inv: "sched_inv K \<Longrightarrow> change_cwd K d = Some K' \<Longrightarrow> sched_inv K'"
  unfolding change_cwd_def by (rule update_current_inv, assumption, assumption, simp)

section \<open>Fairness\<close>

text \<open>A number of decisions of the scheduler in a row; the result lists the processes it has chosen.\<close>

fun serve_many :: "nat \<Rightarrow> 'w kernel \<Rightarrow> (nat list \<times> 'w kernel) option" where
  "serve_many 0 K = Some ([], K)"
| "serve_many (Suc n) K = do {
     (r, K) \<leftarrow> next_process K None;
     (ids, K) \<leftarrow> serve_many n K;
     Some (case r of None \<Rightarrow> ids | Some p \<Rightarrow> p_pid p # ids, K)
   }"

lemma next_process_returns: "\<exists>r K'. next_process K None = Some (r, K')"
  by (auto simp: next_process_None_stack split: option.splits)

lemma serve_many_returns: "\<exists>ids K'. serve_many n K = Some (ids, K')"
proof (induction n arbitrary: K)
  case (Suc n)
  obtain r K1 where "next_process K None = Some (r, K1)" using next_process_returns by blast
  moreover obtain ids K2 where "serve_many n K1 = Some (ids, K2)" using Suc by blast
  ultimately show ?case by simp
qed simp

lemma serve_many_mono:
  "serve_many n K = Some (ids, K') \<Longrightarrow> n \<le> m \<Longrightarrow> serve_many m K = Some (ids', K'') \<Longrightarrow> set ids \<subseteq> set ids'"
proof (induction n arbitrary: K ids m ids')
  case (Suc n)
  obtain r K1 where r: "next_process K None = Some (r, K1)" using next_process_returns by blast
  obtain a where a: "serve_many n K1 = Some (a, K')" "ids = (case r of None \<Rightarrow> a | Some p \<Rightarrow> p_pid p # a)"
    using Suc.prems(1) r by (auto split: Option.bind_splits)
  obtain k where k: "m = Suc k" "n \<le> k" using Suc.prems(2) by (cases m) auto
  obtain b where b: "serve_many k K1 = Some (b, K'')" "ids' = (case r of None \<Rightarrow> b | Some p \<Rightarrow> p_pid p # b)"
    using Suc.prems(3) r k(1) by (auto split: Option.bind_splits)
  show ?case using Suc.IH [OF a(1) k(2) b(1)] a(2) b(2) by (auto split: option.splits)
qed simp

lemma list_ex_pid: "list_ex (\<lambda>q. p_pid q = x) qs \<longleftrightarrow> x \<in> set (map p_pid qs)"
  by (auto simp: list_ex_iff)

lemma process_ready_pids:
  "map p_pid ps' = map p_pid ps \<Longrightarrow> process_ready ps' t p = process_ready ps t p"
  unfolding process_ready_def list_ex_pid by (simp only:)

lemma wake_sel [simp]: "p_pid (wake p) = p_pid p" "p_ring3_page_table (wake p) = p_ring3_page_table p"
  "p_fd_table (wake p) = p_fd_table p" "p_blocking (wake p) = p_blocking p"
  by (simp_all add: wake_def)

text \<open>One decision, seen on the queue.\<close>

lemma next_process_queue:
  assumes "index_ok K" "next_process K None = Some (r, K')"
  shows "serve_queue (ready_in K) (run_queue K) = map_option (\<lambda>p. (p, run_queue K')) r"
    and "r = None \<Longrightarrow> K' = K" and "map p_pid (k_processes K') = map p_pid (k_processes K)"
    and "k_clock K' = k_clock K" "index_ok K'"
proof -
  have goal: "serve_queue (ready_in K) (run_queue K) = map_option (\<lambda>p. (p, run_queue K')) r \<and> (r = None \<longrightarrow> K' = K)
    \<and> map p_pid (k_processes K') = map p_pid (k_processes K) \<and> k_clock K' = k_clock K \<and> index_ok K'"
  proof (cases "k_processes K = []")
    case True
    with assms show ?thesis by (simp add: next_process_None_stack serve_queue_def run_queue_def)
  next
    case False
    note s = serve_refines [OF assms(1) False]
    show ?thesis
    proof (cases "pick_process (k_processes K) (current_ticks (k_clock K)) (k_current_index K) (length (k_processes K))")
      case None
      with assms False s show ?thesis by (simp add: next_process_None_stack)
    next
      case (Some i)
      then have i: "i < length (k_processes K)" using s by simp
      have "map p_pid ((k_processes K)[i := wake (k_processes K ! i)]) = map p_pid (k_processes K)"
        using i by (simp add: map_update list_update_same_conv)
      with assms False s Some i show ?thesis
        by (auto simp: next_process_None_stack run_queue_def index_ok_def simp del: rotate_Suc)
    qed
  qed
  then show "serve_queue (ready_in K) (run_queue K) = map_option (\<lambda>p. (p, run_queue K')) r"
    "r = None \<Longrightarrow> K' = K" "map p_pid (k_processes K') = map p_pid (k_processes K)"
    "k_clock K' = k_clock K" "index_ok K'" by auto
qed

lemma serve_queue_position:
  assumes "serve_queue P q = Some (p', q')" "i < length q" "P (q ! i)"
  shows "p' = wake (q ! i) \<or> (\<exists>k < i. k < length q' \<and> q' ! k = q ! i)"
proof -
  obtain x rest where d: "dropWhile (\<lambda>p. \<not> P p) q = x # rest" "p' = wake x"
      "q' = rest @ takeWhile (\<lambda>p. \<not> P p) q @ [wake x]"
    using assms(1) by (auto simp: serve_queue_def split: list.splits)
  let ?n = "length (takeWhile (\<lambda>p. \<not> P p) q)"
  have q: "q = takeWhile (\<lambda>p. \<not> P p) q @ x # rest" using d(1) by (metis takeWhile_dropWhile_id)
  have "\<not> i < ?n" using assms(3) by (metis (no_types, lifting) nth_mem set_takeWhileD takeWhile_nth)
  then consider "i = ?n" | "?n < i" by linarith
  then show ?thesis
  proof cases
    case 1
    then have "q ! i = x" by (subst q) (simp only: nth_append_length)
    with d(2) show ?thesis by simp
  next
    case 2
    have "length q = ?n + Suc (length rest)" by (subst q) simp
    moreover have "q ! i = rest ! (i - Suc ?n)" using 2 by (subst q) (simp add: nth_append nth_Cons')
    ultimately show ?thesis using 2 assms(2) unfolding d(3)
      by (intro disjI2 exI [of _ "i - Suc ?n"]) (auto simp: nth_append)
  qed
qed

lemma served_in_turn:
  "index_ok K \<Longrightarrow> i < length (run_queue K) \<Longrightarrow> ready_in K (run_queue K ! i) \<Longrightarrow>
     \<exists>ids K'. serve_many (Suc i) K = Some (ids, K') \<and> p_pid (run_queue K ! i) \<in> set ids"
proof (induction i arbitrary: K rule: less_induct)
  case (less i)
  let ?p = "run_queue K ! i"
  obtain r K1 where r: "next_process K None = Some (r, K1)" using next_process_returns by blast
  note nq = next_process_queue [OF less.prems(1) r]
  have "serve_queue (ready_in K) (run_queue K) \<noteq> None"
    using less.prems(2,3) by (auto simp: serve_queue_def split: list.splits)
  then obtain p where p: "r = Some p" using nq(1) by (cases r) auto
  have sq: "serve_queue (ready_in K) (run_queue K) = Some (p, run_queue K1)" using nq(1) p by simp
  obtain ids K2 where ids: "serve_many i K1 = Some (ids, K2)" using serve_many_returns by blast
  have s: "serve_many (Suc i) K = Some (p_pid p # ids, K2)" using r p ids by simp
  from serve_queue_position [OF sq less.prems(2,3)]
  show ?case
  proof
    assume "p = wake ?p"
    with s show ?thesis by simp
  next
    assume "\<exists>k < i. k < length (run_queue K1) \<and> run_queue K1 ! k = ?p"
    then obtain k where k: "k < i" "k < length (run_queue K1)" "run_queue K1 ! k = ?p" by blast
    have "ready_in K1 ?p" using less.prems(3) process_ready_pids [OF nq(3)] nq(4) by (simp add: ready_in_def)
    then obtain a K3 where a: "serve_many (Suc k) K1 = Some (a, K3)" "p_pid ?p \<in> set a"
      using less.IH [OF k(1) nq(5) k(2)] k(3) by auto
    have "set a \<subseteq> set ids" by (rule serve_many_mono [OF a(1) _ ids]) (use k(1) in simp)
    with a(2) s show ?thesis by auto
  qed
qed

section \<open>Waiting for oneself\<close>

definition waits_for_itself :: "'w kernel \<Rightarrow> nat \<Rightarrow> bool" where
  "waits_for_itself K x \<longleftrightarrow> (\<exists>p \<in> set (k_processes K). p_pid p = x \<and> p_awaiting_process p = Some x)"

lemma self_wait_not_ready: "p \<in> set ps \<Longrightarrow> p_awaiting_process p = Some (p_pid p) \<Longrightarrow> \<not> process_ready ps t p"
  by (auto simp: process_ready_def list_ex_iff Let_def split: option.splits)

lemma save_context_waits:
  assumes "save_context K st = Some K'" "waits_for_itself K x"
  shows "waits_for_itself K' x"
proof -
  obtain p where p: "p \<in> set (k_processes K)" "p_pid p = x" "p_awaiting_process p = Some x"
    using assms(2) by (auto simp: waits_for_itself_def)
  consider "K' = K" | q fr where "current_process K = Some q" "K' = set_current K (q\<lparr>p_context := fr\<rparr>)"
  proof (cases st; cases "current_process K")
    fix fr q
    assume "st = Some fr" "current_process K = Some q"
    then show thesis
      using assms(1) that(1) that(2) [of q fr] by (simp add: save_context_def split: Option.bind_splits if_splits)
  qed (use assms(1) that(1) in \<open>simp_all add: save_context_def\<close>)
  then show ?thesis
  proof cases
    case 1
    with assms(2) show ?thesis by simp
  next
    case (2 q fr)
    let ?c = "k_current_index K"
    have c: "?c < length (k_processes K)" "k_processes K ! ?c = q"
      using 2(1) by (auto simp: current_process_def split: if_splits)
    obtain i where i: "i < length (k_processes K)" "k_processes K ! i = p" using p(1) by (auto simp: in_set_conv_nth)
    let ?ps = "(k_processes K)[?c := q\<lparr>p_context := fr\<rparr>]"
    have "p_pid (?ps ! i) = x \<and> p_awaiting_process (?ps ! i) = Some x"
      using p i c by (cases "i = ?c") auto
    moreover have "?ps ! i \<in> set ?ps" using i(1) by (simp only: nth_mem length_list_update)
    ultimately show ?thesis unfolding waits_for_itself_def 2(2) set_current_def by auto
  qed
qed

lemma next_process_waits:
  assumes inv: "sched_inv K" and n: "next_process K st = Some (r, K')" and w: "waits_for_itself K x"
  shows "waits_for_itself K' x \<and> (\<forall>p. r = Some p \<longrightarrow> p_pid p \<noteq> x)"
proof -
  have ne: "k_processes K \<noteq> []" using w by (auto simp: waits_for_itself_def)
  obtain K1 where K1: "save_context K st = Some K1" "next_process K1 None = Some (r, K')" "k_processes K1 \<noteq> []"
    using next_process_split [OF n ne] by blast
  have i1: "sched_inv K1" by (rule save_context_inv(1) [OF inv K1(1)])
  obtain p where p: "p \<in> set (k_processes K1)" "p_pid p = x" "p_awaiting_process p = Some x"
    using save_context_waits [OF K1(1) w] by (auto simp: waits_for_itself_def)
  have s: "index_ok K1" using i1 by (simp add: sched_inv_def)
  show ?thesis
  proof (cases "pick_process (k_processes K1) (current_ticks (k_clock K1)) (k_current_index K1) (length (k_processes K1))")
    case None
    with K1(2,3) save_context_waits [OF K1(1) w] show ?thesis by (simp add: next_process_None_stack)
  next
    case (Some i)
    let ?ps = "k_processes K1"
    have i: "i < length ?ps" "ready_in K1 (?ps ! i)" using serve_refines [OF s K1(3)] Some by auto
    have "?ps ! i \<noteq> p" using i(2) self_wait_not_ready [OF p(1)] p by (auto simp: ready_in_def)
    then have "p_pid (?ps ! i) \<noteq> x"
      using i1 i(1) p(1,2) by (auto simp: sched_inv_def distinct_map inj_on_def)
    obtain j where j: "j < length ?ps" "?ps ! j = p" using p(1) by (auto simp: in_set_conv_nth)
    have K': "r = Some (wake (?ps ! i))" "k_processes K' = ?ps[i := wake (?ps ! i)]"
      using K1(2,3) Some by (auto simp: next_process_None_stack)
    have "i \<noteq> j" using \<open>?ps ! i \<noteq> p\<close> j(2) by auto
    then have "p \<in> set (k_processes K')"
      using j unfolding K'(2) by (metis length_list_update nth_list_update_neq nth_mem)
    with p \<open>p_pid (?ps ! i) \<noteq> x\<close> K'(1) show ?thesis by (auto simp: waits_for_itself_def)
  qed
qed

lemma schedule_waits:
  assumes "sched_inv K" "schedule E K st = Some (r, K')" "waits_for_itself K x"
  shows "waits_for_itself K' x \<and> (\<forall>regs. r \<noteq> Resumed x regs)"
proof -
  obtain p K1 where p: "next_process K st = Some (p, K1)"
    using assms(2) by (auto simp: schedule_def split: Option.bind_splits)
  have w: "waits_for_itself K1 x" "\<forall>q. p = Some q \<longrightarrow> p_pid q \<noteq> x" using next_process_waits [OF assms(1) p assms(3)] by auto
  obtain M where M: "K' = K1\<lparr>k_mem := M\<rparr>" using schedule_next [OF assms(2)] p by auto
  have "\<forall>regs. r \<noteq> Resumed x regs"
    using assms(2) p w(2) by (auto simp: schedule_def split: option.splits Option.bind_splits)
  with w(1) M show ?thesis by (simp add: waits_for_itself_def)
qed

section \<open>Examples\<close>

definition demo_kernel :: "process list \<Rightarrow> 'w kernel" where
  "demo_kernel ps =
     \<lparr> k_scheduling_enabled = True, k_current_index = 0, k_processes = ps, k_pid_counter = 9, k_mem = None,
       k_root_dir = None, k_fs = None, k_files = [], k_clock = \<lparr> clk_ticks = 5, clk_boot_unix_seconds = 0 \<rparr>, k_console = [] \<rparr>"

lemma demo_kernel_sel [simp]:
  "k_processes (demo_kernel ps) = ps" "k_current_index (demo_kernel ps) = 0" "k_pid_counter (demo_kernel ps) = 9"
  "k_files (demo_kernel ps) = []" "k_mem (demo_kernel ps) = None" "k_scheduling_enabled (demo_kernel ps)"
  "p_pid (demo_process n) = n" "p_awaiting_process (demo_process n) = None" "p_blocking (demo_process n) = False"
  "p_sleep_until_tick (demo_process n) = None" "p_ring3_page_table (demo_process n) = Some 0x1000"
  by (simp_all add: demo_kernel_def demo_process_def)

lemma demo_inv: "sched_inv (demo_kernel [demo_process 0, (demo_process 3)\<lparr>p_blocking := True\<rparr>, demo_process 7])"
  using demo_wf by (simp add: sched_inv_def index_ok_def usize_bound_def wf_fds_def)

section \<open>Properties\<close>

text \<open>
  C4.  The scheduler refines a queue served in rotation: on every state that satisfies the invariant
  \<open>next_process\<close> returns, and on the queue of processes that starts behind the current one it takes
  the first ready process and moves it, and the processes in front of it, to the end; if no process
  is ready the state does not change.
\<close>

theorem scheduler_refines_rotation:
  assumes "sched_inv K"
  shows "\<exists>K1 r K'. save_context K st = Some K1 \<and> next_process K st = Some (r, K')
    \<and> serve_queue (ready_in K1) (run_queue K1) = map_option (\<lambda>p. (p, run_queue K')) r
    \<and> (r = None \<longrightarrow> K' = K1)"
proof -
  have "\<exists>K1. save_context K st = Some K1"
  proof (cases "current_process K")
    case (Some p)
    then have "p_pid p + 1 < usize_bound" using assms current_in [OF Some] by (fastforce simp: sched_inv_def)
    then show ?thesis by (auto simp: save_context_def Some checked_add_def split: option.splits)
  qed (auto simp: save_context_def split: option.splits)
  then obtain K1 where K1: "save_context K st = Some K1" by blast
  obtain r K' where r: "next_process K1 None = Some (r, K')" using next_process_returns by blast
  have "index_ok K1" using save_context_inv(1) [OF assms K1] by (simp add: sched_inv_def)
  note q = next_process_queue [OF this r]
  have "next_process K st = Some (r, K')"
  proof (cases "k_processes K = []")
    case True
    then have "current_process K = None" by (simp add: current_process_def)
    then have "K1 = K" using K1 by (auto simp: save_context_def split: option.splits)
    then show ?thesis using r True by (simp add: next_process_def)
  next
    case False
    then have "k_processes K1 \<noteq> []" using save_context_inv(2) [OF assms K1] by (metis length_0_conv)
    then show ?thesis using r K1 False by (simp add: next_process_def save_context_def [of K1 None])
  qed
  with K1 q(1,2) show ?thesis by blast
qed

theorem scheduler_refines_rotation_witness:
  "\<exists>r K'. next_process (demo_kernel [demo_process 0, (demo_process 3)\<lparr>p_blocking := True\<rparr>, demo_process 7] :: unit kernel) None = Some (r, K')
    \<and> map_option p_pid r = Some 7"
proof -
  let ?K = "demo_kernel [demo_process 0, (demo_process 3)\<lparr>p_blocking := True\<rparr>, demo_process 7] :: unit kernel"
  obtain K1 r K' where r: "save_context ?K None = Some K1" "next_process ?K None = Some (r, K')"
      "serve_queue (ready_in K1) (run_queue K1) = map_option (\<lambda>p. (p, run_queue K')) r"
    using scheduler_refines_rotation [OF demo_inv, of None] by blast
  have "K1 = ?K" using r(1) by (simp add: save_context_def)
  moreover have "serve_queue (ready_in ?K) (run_queue ?K) = Some (wake (demo_process 7),
      [demo_process 0, (demo_process 3)\<lparr>p_blocking := True\<rparr>, wake (demo_process 7)])"
    by (simp add: serve_queue_def run_queue_def ready_in_def process_ready_def)
  ultimately have "map_option p_pid r = Some 7" using r(3) by (cases r) auto
  with r(2) show ?thesis by blast
qed

text \<open>
  C21.  The scheduler is fair: a process that is ready runs within as many decisions as there are
  processes, whatever else is ready.
\<close>

theorem ready_process_runs_within_round:
  assumes "sched_inv K" "p \<in> set (k_processes K)" "ready_in K p"
  shows "\<exists>ids K'. serve_many (length (k_processes K)) K = Some (ids, K') \<and> p_pid p \<in> set ids"
proof -
  have "p \<in> set (run_queue K)" using assms(2) by (simp add: run_queue_def)
  then obtain i where i: "i < length (run_queue K)" "run_queue K ! i = p" by (auto simp: in_set_conv_nth)
  have "index_ok K" using assms(1) by (simp add: sched_inv_def)
  then obtain a K1 where a: "serve_many (Suc i) K = Some (a, K1)" "p_pid p \<in> set a"
    using served_in_turn [of K i] i assms(3) by auto
  obtain ids K' where ids: "serve_many (length (k_processes K)) K = Some (ids, K')" using serve_many_returns by blast
  have "Suc i \<le> length (k_processes K)" using i(1) by (simp add: run_queue_def)
  from serve_many_mono [OF a(1) this ids] a(2) ids show ?thesis by blast
qed

theorem ready_process_runs_within_round_witness:
  "\<exists>ids K'. serve_many 3 (demo_kernel [demo_process 0, (demo_process 3)\<lparr>p_blocking := True\<rparr>, demo_process 7] :: unit kernel)
     = Some (ids, K') \<and> 0 \<in> set ids"
  using ready_process_runs_within_round [OF demo_inv, where p = "demo_process 0"]
  by (simp add: ready_in_def process_ready_def numeral_3_eq_3)

end
