(* ===== verification/Syscalls.thy ===== *)
theory Syscalls
  imports Scheduler
begin

text \<open>
  The system calls (\<open>src/syscall\<close>) and their dispatcher (\<open>syscall_isr\<close> of \<open>src/arch/x86_64/idt.rs\<close>).

  A system call takes the register frame of the caller.  It returns a value for \<open>rax\<close> (\<open>Returned\<close>,
  with Rust's \<open>None\<close> for no value), resumes a process, or goes to the idle loop.
\<close>

type_synonym 'w syscall_result = "(outcome \<times> 'w kernel) option"

section \<open>Arguments\<close>

text \<open>The process page table and a byte string from user memory; every failure returns \<open>Some(0)\<close>.\<close>

definition with_page_table :: "'w kernel \<Rightarrow> (nat \<Rightarrow> 'w syscall_result) \<Rightarrow> 'w syscall_result" where
  "with_page_table K f =
     (case get_current_process_page_table K of
        None \<Rightarrow> Some (Returned (Some 0), K)
      | Some page_table \<Rightarrow> f page_table)"

definition with_user_bytes ::
  "'w kernel_env \<Rightarrow> 'w kernel \<Rightarrow> nat \<Rightarrow> nat \<Rightarrow> nat \<Rightarrow> (bytes \<Rightarrow> 'w kernel \<Rightarrow> 'w syscall_result) \<Rightarrow> 'w syscall_result" where
  "with_user_bytes E K page_table addr len f = do {
     (buffer, M) \<leftarrow> copy_from_user (ke_mmu E) (k_mem K) page_table addr len;
     let K = K\<lparr>k_mem := M\<rparr>;
     case buffer of
       None \<Rightarrow> Some (Returned (Some 0), K)
     | Some buffer \<Rightarrow> f buffer K
   }"

definition with_user_path ::
  "'w kernel_env \<Rightarrow> 'w kernel \<Rightarrow> interrupt_frame \<Rightarrow> (ustr \<Rightarrow> 'w kernel \<Rightarrow> 'w syscall_result) \<Rightarrow> 'w syscall_result" where
  "with_user_path E K st f =
     with_page_table K (\<lambda>page_table.
       with_user_bytes E K page_table (ctx_rdi st) (ctx_rsi st) (\<lambda>buffer K.
         case from_utf8 buffer of
           None \<Rightarrow> Some (Returned (Some 0), K)
         | Some path \<Rightarrow> f (trim path) K))"

definition returned_bool :: "bool \<times> 'w kernel \<Rightarrow> outcome \<times> 'w kernel" where
  "returned_bool r = (Returned (Some (if fst r then 1 else 0)), snd r)"

definition returned_or_zero :: "nat option \<times> 'w kernel \<Rightarrow> outcome \<times> 'w kernel" where
  "returned_or_zero r = (Returned (Some (case fst r of None \<Rightarrow> 0 | Some n \<Rightarrow> n)), snd r)"

section \<open>Files and directories\<close>

definition sys_cd :: "'w kernel_env \<Rightarrow> 'w kernel \<Rightarrow> interrupt_frame \<Rightarrow> 'w syscall_result" where
  "sys_cd E K st = with_user_path E K st (\<lambda>path K.
     if path = [] then Some (Returned (Some 0), K)
     else do {
       (new_dir, K) \<leftarrow> find_directory_from_path E K path;
       case new_dir of
         None \<Rightarrow> Some (Returned (Some 0), K)
       | Some new_dir \<Rightarrow> do {
           K \<leftarrow> change_cwd K new_dir;
           Some (Returned (Some 1), K)
         }
     })"

definition sys_create :: "'w kernel_env \<Rightarrow> 'w kernel \<Rightarrow> interrupt_frame \<Rightarrow> 'w syscall_result" where
  "sys_create E K st = with_user_path E K st (\<lambda>path K.
     if path = [] then Some (Returned (Some 0), K)
     else map_option returned_or_zero (curr_process_create_file E K path True True))"

definition sys_open :: "'w kernel_env \<Rightarrow> 'w kernel \<Rightarrow> interrupt_frame \<Rightarrow> 'w syscall_result" where
  "sys_open E K st = with_user_path E K st (\<lambda>path K.
     map_option returned_or_zero (curr_process_open_file E K path True True))"

definition sys_mkdir :: "'w kernel_env \<Rightarrow> 'w kernel \<Rightarrow> interrupt_frame \<Rightarrow> 'w syscall_result" where
  "sys_mkdir E K st = with_user_path E K st (\<lambda>path K.
     map_option returned_bool (curr_process_create_directory E K path))"

definition sys_unlink :: "'w kernel_env \<Rightarrow> 'w kernel \<Rightarrow> interrupt_frame \<Rightarrow> 'w syscall_result" where
  "sys_unlink E K st = with_user_path E K st (\<lambda>path K.
     map_option returned_bool (curr_process_unlink_file E K path))"

definition sys_rmdir :: "'w kernel_env \<Rightarrow> 'w kernel \<Rightarrow> interrupt_frame \<Rightarrow> 'w syscall_result" where
  "sys_rmdir E K st = with_user_path E K st (\<lambda>path K.
     map_option returned_bool (curr_process_remove_directory E K path))"

definition sys_close :: "'w kernel \<Rightarrow> interrupt_frame \<Rightarrow> 'w syscall_result" where
  "sys_close K st = Some (returned_bool (close_current_file_descriptor K (ctx_rdi st)))"

definition sys_truncate :: "'w kernel_env \<Rightarrow> 'w kernel \<Rightarrow> interrupt_frame \<Rightarrow> 'w syscall_result" where
  "sys_truncate E K st = do {
     (r, K) \<leftarrow> truncate_current_file_descriptor E K (ctx_rdi st) (ctx_rsi st);
     Some (Returned (Some (if r = None then 0 else 1)), K)
   }"

definition sys_read :: "'w kernel_env \<Rightarrow> 'w kernel \<Rightarrow> interrupt_frame \<Rightarrow> 'w syscall_result" where
  "sys_read E K st =
     (let file_descriptor = ctx_rdi st
      in if file_descriptor \<ge> 3 then
           with_page_table K (\<lambda>page_table. do {
             (ok, M) \<leftarrow> can_process_pointer (ke_mmu E) (k_mem K) page_table (ctx_rsi st) (ctx_rdx st) True;
             let K = K\<lparr>k_mem := M\<rparr>;
             if \<not> ok then Some (Returned (Some 0), K)
             else do {
               (data, K) \<leftarrow> read_current_file_descriptor E K file_descriptor (ctx_rdx st);
               case data of
                 None \<Rightarrow> Some (Returned (Some 0), K)
               | Some data \<Rightarrow> do {
                   (r, M) \<leftarrow> copy_to_user (ke_mmu E) (k_mem K) page_table (ctx_rsi st) data;
                   let K = K\<lparr>k_mem := M\<rparr>;
                   Some (Returned (Some (if r = None then 0 else length data)), K)
                 }
             }
           })
         else do {
           K \<leftarrow> block_current K;
           schedule E K (Some st)
         })"

definition sys_write :: "'w kernel_env \<Rightarrow> 'w kernel \<Rightarrow> interrupt_frame \<Rightarrow> 'w syscall_result" where
  "sys_write E K st =
     with_page_table K (\<lambda>page_table.
       with_user_bytes E K page_table (ctx_rsi st) (ctx_rdx st) (\<lambda>buffer K.
         case get_current_file_descriptor K (ctx_rdi st) of
           Some (FileFd _) \<Rightarrow> map_option returned_or_zero (write_current_file_descriptor E K (ctx_rdi st) buffer)
         | Some Stdin \<Rightarrow> Some (Returned (Some 0), K)
         | None \<Rightarrow> Some (Returned (Some 0), K)
         | Some _ \<Rightarrow>
             (case from_utf8 buffer of
                None \<Rightarrow> Some (Returned (Some 0), K)
              | Some s \<Rightarrow> Some (Returned (Some (length buffer)), K\<lparr>k_console := k_console K @ [s]\<rparr>))))"

subsection \<open>Reading a directory\<close>

definition DIR_ENTRY_NAME_CAPACITY :: nat where "DIR_ENTRY_NAME_CAPACITY = 256"

text \<open>The bytes of a \<open>SyscallDirEntry\<close>: the name, the attribute, three bytes of padding and the size.\<close>

definition dir_entry_bytes :: "ustr \<Rightarrow> u8 \<Rightarrow> bytes \<Rightarrow> bytes" where
  "dir_entry_bytes name attr padding =
     (let name = to_utf8 name;
          name_len = min (length name) DIR_ENTRY_NAME_CAPACITY
      in overwrite (replicate DIR_ENTRY_NAME_CAPACITY 0) 0 (take name_len name) @ [attr] @ padding @ le32 0)"

definition dir_entry_list :: "(nat \<Rightarrow> bytes) \<Rightarrow> fat_directory list \<Rightarrow> fat_file list \<Rightarrow> nat \<Rightarrow> bytes list" where
  "dir_entry_list padding dirs files max_items =
     (let directory_names = take max_items (map (\<lambda>d. (dir_name d, 0x10)) dirs);
          file_names = take (max_items - length directory_names) (map (\<lambda>f. (file_name f, 0)) files);
          names = directory_names @ file_names
      in map (\<lambda>(i, name, attr). dir_entry_bytes name attr (padding i)) (zip [0..<length names] names))"

definition sys_read_dir :: "'w kernel_env \<Rightarrow> 'w kernel \<Rightarrow> interrupt_frame \<Rightarrow> 'w syscall_result" where
  "sys_read_dir E K st =
     with_page_table K (\<lambda>page_table.
       case checked_mul (ctx_rsi st) 264 of
         None \<Rightarrow> Some (Returned (Some 0), K)
       | Some buffer_size \<Rightarrow> do {
           (ok, M) \<leftarrow> can_process_pointer (ke_mmu E) (k_mem K) page_table (ctx_rdi st) buffer_size True;
           let K = K\<lparr>k_mem := M\<rparr>;
           if \<not> ok then Some (Returned (Some 0), K)
           else do {
             cwd \<leftarrow> get_current_cwd K;
             ((dirs, files), fs) \<leftarrow> fat_list_dir (ke_fs E) (k_fs K) cwd;
             let K = K\<lparr>k_fs := Some fs\<rparr>;
             let directory_entries = dir_entry_list (ke_padding E) dirs files (ctx_rsi st);
             (r, M) \<leftarrow> copy_slice_to_user (ke_mmu E) (k_mem K) page_table (ctx_rdi st) 264 directory_entries;
             let K = K\<lparr>k_mem := M\<rparr>;
             Some (Returned (Some (if r = None then 0 else length directory_entries)), K)
           }
         })"

section \<open>Processes\<close>

definition ARGS_MAX_BYTES :: nat where "ARGS_MAX_BYTES = 4096"
definition ARGS_MAX_COUNT :: nat where "ARGS_MAX_COUNT = 64"

definition is_ascii_whitespace :: "nat \<Rightarrow> bool" where
  "is_ascii_whitespace c \<longleftrightarrow> c \<in> {0x20, 0x09, 0x0A, 0x0C, 0x0D}"

fun split_ascii_whitespace :: "ustr \<Rightarrow> ustr list" where
  "split_ascii_whitespace [] = []"
| "split_ascii_whitespace (c # cs) =
     (if is_ascii_whitespace c then split_ascii_whitespace cs
      else (case cs of
              [] \<Rightarrow> [[c]]
            | d # _ \<Rightarrow>
                if is_ascii_whitespace d then [c] # split_ascii_whitespace cs
                else (case split_ascii_whitespace cs of [] \<Rightarrow> [[c]] | w # ws \<Rightarrow> (c # w) # ws)))"

definition sys_execute :: "'w kernel_env \<Rightarrow> 'w kernel \<Rightarrow> interrupt_frame \<Rightarrow> 'w syscall_result" where
  "sys_execute E K st =
     with_page_table K (\<lambda>page_table.
       with_user_bytes E K page_table (ctx_rdi st) (ctx_rsi st) (\<lambda>buffer K.
         case from_utf8 buffer of
           None \<Rightarrow> Some (Returned (Some 0), K)
         | Some path \<Rightarrow>
             if last (split_on 47 path) = lit ''shell.elf'' then Some (Returned (Some 0), K)
             else if ctx_r10 st > ARGS_MAX_BYTES then Some (Returned (Some 0), K)
             else
               (let continue = (\<lambda>args_buffer K.
                  case from_utf8 args_buffer of
                    None \<Rightarrow> Some (Returned (Some 0), K)
                  | Some args \<Rightarrow>
                      (let argv = path # split_ascii_whitespace args
                       in if length argv > ARGS_MAX_COUNT then Some (Returned (Some 0), K)
                          else do {
                            (file, K) \<leftarrow> find_file_from_path E K path;
                            case file of
                              None \<Rightarrow> Some (Returned (Some 0), K)
                            | Some file \<Rightarrow> do {
                                (data, fs) \<leftarrow> fat_file_read (ke_fs E) (k_fs K) file;
                                let K = K\<lparr>k_fs := Some fs\<rparr>;
                                case data of
                                  None \<Rightarrow> Some (Returned (Some 0), K)
                                | Some data \<Rightarrow> do {
                                    let (mem, addr) = ke_buffer E data;
                                    (elf_entry, M) \<leftarrow> elf_load (ke_mmu E) mem \<lparr> reg_addr = addr, reg_size = length data \<rparr> argv (k_mem K);
                                    let K = K\<lparr>k_mem := M\<rparr>;
                                    case elf_entry of
                                      None \<Rightarrow> Some (Returned (Some 0), K)
                                    | Some elf_entry \<Rightarrow> do {
                                        (pid, K) \<leftarrow> deploy E K elf_entry True;
                                        Some (Returned (Some pid), K)
                                      }
                                  }
                              }
                          }))
                in if ctx_r10 st = 0 then continue [] K
                   else with_user_bytes E K page_table (ctx_rdx st) (ctx_r10 st) continue)))"

definition sys_exit :: "'w kernel_env \<Rightarrow> 'w kernel \<Rightarrow> 'w syscall_result" where
  "sys_exit E K = do {
     K \<leftarrow> exit_current E K;
     schedule E K None
   }"

definition sys_yld :: "'w kernel_env \<Rightarrow> 'w kernel \<Rightarrow> interrupt_frame \<Rightarrow> 'w syscall_result" where
  "sys_yld E K st = schedule E K (Some st)"

definition sys_wait_for_process :: "'w kernel_env \<Rightarrow> 'w kernel \<Rightarrow> interrupt_frame \<Rightarrow> 'w syscall_result" where
  "sys_wait_for_process E K st = schedule E (current_wait_for_process K (ctx_rdi st)) (Some st)"

section \<open>Time\<close>

definition timespec_bytes :: "timespec \<Rightarrow> bytes" where
  "timespec_bytes t = le64 (tv_sec t) @ le64 (tv_nsec t)"

definition timespec_of_bytes :: "bytes \<Rightarrow> timespec" where
  "timespec_of_bytes b = \<lparr> tv_sec = of_nat (le_value (take 8 b)), tv_nsec = of_nat (le_value (drop 8 b)) \<rparr>"

definition sys_clock_gettime :: "'w kernel_env \<Rightarrow> 'w kernel \<Rightarrow> interrupt_frame \<Rightarrow> 'w syscall_result" where
  "sys_clock_gettime E K st =
     (if ctx_rdi st \<noteq> CLOCK_REALTIME \<and> ctx_rdi st \<noteq> CLOCK_MONOTONIC then Some (Returned (Some 0), K)
      else do {
        timespec \<leftarrow> (if ctx_rdi st = CLOCK_REALTIME then realtime_timespec (k_clock K) else monotonic_timespec (k_clock K));
        with_page_table K (\<lambda>page_table. do {
          (r, M) \<leftarrow> copy_slice_to_user (ke_mmu E) (k_mem K) page_table (ctx_rsi st) 16 [timespec_bytes timespec];
          Some (Returned (Some (if r = None then 0 else 1)), K\<lparr>k_mem := M\<rparr>)
        })
      })"

definition sys_nanosleep :: "'w kernel_env \<Rightarrow> 'w kernel \<Rightarrow> interrupt_frame \<Rightarrow> 'w syscall_result" where
  "sys_nanosleep E K st =
     with_page_table K (\<lambda>page_table.
       with_user_bytes E K page_table (ctx_rdi st) 16 (\<lambda>buffer K.
         let timespec = timespec_of_bytes buffer
         in if sint (tv_sec timespec) < 0 \<or> sint (tv_nsec timespec) < 0
                \<or> unat (tv_nsec timespec) \<ge> NANOSECONDS_PER_SECOND then Some (Returned (Some 0), K)
            else
              case duration_to_ticks (unat (tv_sec timespec)) (unat (tv_nsec timespec)) of
                None \<Rightarrow> Some (Returned (Some 0), K)
              | Some ticks \<Rightarrow>
                  if ticks = 0 then Some (Returned (Some 1), K)
                  else do {
                    deadline \<leftarrow> checked_add (current_ticks (k_clock K)) ticks;
                    K \<leftarrow> sleep_current_until K deadline;
                    schedule E K (Some (st\<lparr>ctx_rax := 1\<rparr>))
                  }))"

section \<open>The dispatcher\<close>

definition dispatch :: "'w kernel_env \<Rightarrow> 'w kernel \<Rightarrow> interrupt_frame \<Rightarrow> 'w syscall_result" where
  "dispatch E K st =
     (let n = ctx_rax st
      in if n = 1 then sys_exit E K
         else if n = 2 then sys_write E K st
         else if n = 3 then sys_read E K st
         else if n = 4 then sys_execute E K st
         else if n = 5 then sys_yld E K st
         else if n = 6 then sys_wait_for_process E K st
         else if n = 7 then sys_read_dir E K st
         else if n = 8 then sys_cd E K st
         else if n = 9 then sys_open E K st
         else if n = 10 then sys_close K st
         else if n = 11 then sys_truncate E K st
         else if n = 12 then sys_create E K st
         else if n = 13 then sys_mkdir E K st
         else if n = 14 then sys_unlink E K st
         else if n = 15 then sys_rmdir E K st
         else if n = 16 then sys_clock_gettime E K st
         else if n = 17 then sys_nanosleep E K st
         else Some (Returned None, K))"

text \<open>The frame the caller continues with, if control returns to it.\<close>

definition syscall_isr :: "'w kernel_env \<Rightarrow> 'w kernel \<Rightarrow> interrupt_frame \<Rightarrow> (outcome \<times> interrupt_frame \<times> 'w kernel) option" where
  "syscall_isr E K st = do {
     (r, K) \<leftarrow> dispatch E K st;
     Some (r, case r of Returned (Some rax) \<Rightarrow> st\<lparr>ctx_rax := rax\<rparr> | _ \<Rightarrow> st, K)
   }"

section \<open>Every system call keeps the invariant\<close>

lemma with_page_tableE:
  assumes "with_page_table K f = Some (r, K')"
  obtains (none) "r = Returned (Some 0)" "K' = K" | (table) t where "f t = Some (r, K')"
  using assms by (cases "get_current_process_page_table K") (auto simp: with_page_table_def)

lemma with_user_bytesE:
  assumes "with_user_bytes E K t a n f = Some (r, K')"
  obtains (fault) M where "r = Returned (Some 0)" "K' = K\<lparr>k_mem := M\<rparr>"
    | (copied) b M where "f b (K\<lparr>k_mem := M\<rparr>) = Some (r, K')"
proof -
  obtain x M where x: "copy_from_user (ke_mmu E) (k_mem K) t a n = Some (x, M)"
    using assms by (auto simp: with_user_bytes_def split: Option.bind_splits)
  show thesis
    using assms fault [of M] copied [of _ M] by (cases x) (auto simp: with_user_bytes_def x)
qed

lemma with_user_pathE:
  assumes "with_user_path E K st f = Some (r, K')"
  obtains (failed) M where "r = Returned (Some 0)" "K' = K\<lparr>k_mem := M\<rparr>"
    | (path) p M where "f p (K\<lparr>k_mem := M\<rparr>) = Some (r, K')"
  using assms unfolding with_user_path_def
proof (cases rule: with_page_tableE)
  case none
  then show thesis using failed [of "k_mem K"] by simp
next
  case (table t)
  then show thesis
  proof (cases rule: with_user_bytesE)
    case (fault M)
    then show thesis by (rule failed)
  next
    case (copied b M)
    then show thesis using failed [of M] path [of _ M] by (cases "from_utf8 b") auto
  qed
qed

lemma with_user_path_inv:
  assumes "sched_inv K" "with_user_path E K st f = Some (r, K')"
    and "\<And>p M. sched_inv (K\<lparr>k_mem := M\<rparr>) \<Longrightarrow> f p (K\<lparr>k_mem := M\<rparr>) = Some (r, K') \<Longrightarrow> sched_inv K'"
  shows "sched_inv K'"
  using assms(2) by (cases rule: with_user_pathE) (use assms(1) in \<open>auto intro: assms(3)\<close>)

lemma find_directory_keeps: "find_directory_from_path E K path = Some (r, K') \<Longrightarrow> \<exists>fso. K' = K\<lparr>k_fs := fso\<rparr>"
proof -
  assume a: "find_directory_from_path E K path = Some (r, K')"
  have "K' = K \<or> (\<exists>fso. K' = K\<lparr>k_fs := fso\<rparr>)"
    using a by (auto simp: find_directory_from_path_def Let_def split: Option.bind_splits if_splits)
  moreover have "K = K\<lparr>k_fs := k_fs K\<rparr>" by simp
  ultimately show ?thesis by metis
qed

lemma update_directory_inv: "sched_inv K \<Longrightarrow> update_directory f E K path = Some (b, K') \<Longrightarrow> sched_inv K'"
proof -
  assume i: "sched_inv K" and u: "update_directory f E K path = Some (b, K')"
  obtain t K1 where t: "resolve_parent_directory_and_name E K path = Some (t, K1)"
    using u by (auto simp: update_directory_def split: Option.bind_splits)
  have "sched_inv K1" using resolve_keeps [OF t] i by auto
  then show ?thesis using u t by (auto simp: update_directory_def split: Option.bind_splits option.splits)
qed

lemma sys_cd_inv:
  assumes i: "sched_inv K" and "sys_cd E K st = Some (r, K')"
  shows "sched_inv K'"
  using assms(2) unfolding sys_cd_def
proof (cases rule: with_user_pathE)
  case (path p M)
  show ?thesis
  proof (cases "p = []")
    case False
    obtain d K2 where d: "find_directory_from_path E (K\<lparr>k_mem := M\<rparr>) p = Some (d, K2)"
      using path False by (auto split: Option.bind_splits)
    have "sched_inv K2" using find_directory_keeps [OF d] i by auto
    then show ?thesis using path False d by (auto intro: cwd_inv split: option.splits Option.bind_splits)
  qed (use i path in auto)
qed (use i in simp)

lemma returned_or_zeroE:
  assumes "map_option returned_or_zero x = Some (r, K')"
  obtains n where "x = Some (n, K')" "r = Returned (Some (case n of None \<Rightarrow> 0 | Some k \<Rightarrow> k))"
proof -
  obtain y where y: "x = Some y" "returned_or_zero y = (r, K')" using assms by auto
  show thesis by (rule that [of "fst y"]) (use y in \<open>simp_all add: returned_or_zero_def prod_eq_iff\<close>)
qed

lemma returned_boolE:
  assumes "map_option returned_bool x = Some (r, K')"
  obtains b where "x = Some (b, K')" "r = Returned (Some (if b then 1 else 0))"
proof -
  obtain y where y: "x = Some y" "returned_bool y = (r, K')" using assms by auto
  show thesis by (rule that [of "fst y"]) (use y in \<open>simp_all add: returned_bool_def prod_eq_iff\<close>)
qed

lemma sys_create_inv:
  assumes "sched_inv K" "sys_create E K st = Some (r, K')"
  shows "sched_inv K'"
proof (rule with_user_path_inv [OF assms(1) assms(2) [unfolded sys_create_def]])
  fix p M
  assume i: "sched_inv (K\<lparr>k_mem := M\<rparr>)" and e: "(if p = [] then Some (Returned (Some 0), K\<lparr>k_mem := M\<rparr>)
     else map_option returned_or_zero (curr_process_create_file E (K\<lparr>k_mem := M\<rparr>) p True True)) = Some (r, K')"
  show "sched_inv K'"
  proof (cases "p = []")
    case True
    with i e show ?thesis by auto
  next
    case False
    then have "map_option returned_or_zero (curr_process_create_file E (K\<lparr>k_mem := M\<rparr>) p True True) = Some (r, K')" using e by simp
    then show ?thesis by (rule returned_or_zeroE) (rule create_inv [OF i])
  qed
qed

lemma sys_open_inv:
  assumes "sched_inv K" "sys_open E K st = Some (r, K')"
  shows "sched_inv K'"
  using assms(2) unfolding sys_open_def
  by (rule with_user_path_inv [OF assms(1)]) (elim returned_or_zeroE, rule open_inv, assumption+)

lemma sys_update_inv:
  assumes "sched_inv K" "with_user_path E K st (\<lambda>path K. map_option returned_bool (update_directory f E K path)) = Some (r, K')"
  shows "sched_inv K'"
  by (rule with_user_path_inv [OF assms]) (elim returned_boolE, rule update_directory_inv, assumption+)

lemmas sys_directory_defs = sys_mkdir_def sys_unlink_def sys_rmdir_def curr_process_create_directory_def
  curr_process_unlink_file_def curr_process_remove_directory_def

lemma sys_close_inv: "sched_inv K \<Longrightarrow> sys_close K st = Some (r, K') \<Longrightarrow> sched_inv K'"
  using close_inv [of K "ctx_rdi st"] by (cases "close_current_file_descriptor K (ctx_rdi st)") (auto simp: sys_close_def returned_bool_def)

lemma sys_truncate_inv: "sched_inv K \<Longrightarrow> sys_truncate E K st = Some (r, K') \<Longrightarrow> sched_inv K'"
  by (auto simp: sys_truncate_def intro: truncate_inv split: Option.bind_splits)

lemma sys_read_inv:
  assumes i: "sched_inv K" and r: "sys_read E K st = Some (r, K')"
  shows "sched_inv K'"
proof (cases "ctx_rdi st \<ge> 3")
  case False
  then obtain K1 where "block_current K = Some K1" "schedule E K1 (Some st) = Some (r, K')"
    using r by (auto simp: sys_read_def Let_def split: Option.bind_splits)
  then show ?thesis using block_inv [OF i] schedule_inv by blast
next
  case True
  note c = r [unfolded sys_read_def Let_def, simplified True if_True]
  show ?thesis
    using c
  proof (cases rule: with_page_tableE)
    case (table t)
    then obtain ok M where ok: "can_process_pointer (ke_mmu E) (k_mem K) t (ctx_rsi st) (ctx_rdx st) True = Some (ok, M)"
      by (auto split: Option.bind_splits)
    have M: "sched_inv (K\<lparr>k_mem := M\<rparr>)" using i by simp
    show ?thesis
    proof (cases ok)
      case False
      with table ok M show ?thesis by auto
    next
      case True
      obtain x K2 where x: "read_current_file_descriptor E (K\<lparr>k_mem := M\<rparr>) (ctx_rdi st) (ctx_rdx st) = Some (x, K2)"
        using table ok True by (auto split: Option.bind_splits)
      have K2: "sched_inv K2" by (rule read_inv [OF M x])
      show ?thesis
      proof (cases x)
        case None
        with table ok True x K2 show ?thesis by auto
      next
        case (Some data)
        with table ok True x have "\<exists>M. K' = K2\<lparr>k_mem := M\<rparr>" by (auto split: Option.bind_splits)
        with K2 show ?thesis by auto
      qed
    qed
  qed (use i in simp)
qed

lemma sys_write_inv:
  assumes i: "sched_inv K" and r: "sys_write E K st = Some (r, K')"
  shows "sched_inv K'"
proof -
  have c: "sched_inv (K1\<lparr>k_console := c\<rparr>) = sched_inv K1" for K1 :: "'a kernel" and c
    by (simp add: sched_inv_def index_ok_def)
  have w: "sched_inv (snd x)" if "write_current_file_descriptor E K1 fd b = Some x" "sched_inv K1" for K1 fd b x
    using write_inv [OF that(2), of E fd b "fst x" "snd x"] that(1) by simp
  show ?thesis
    using r unfolding sys_write_def
  proof (cases rule: with_page_tableE)
    case (table t)
    then show ?thesis
    proof (cases rule: with_user_bytesE)
      case (copied b M)
      then show ?thesis
        using i w [of "K\<lparr>k_mem := M\<rparr>"] c
        by (auto simp: returned_or_zero_def split: option.splits file_descriptor.splits)
    qed (use i in simp)
  qed (use i in simp)
qed

lemma sys_read_dir_inv: "sched_inv K \<Longrightarrow> sys_read_dir E K st = Some (r, K') \<Longrightarrow> sched_inv K'"
  by (auto simp: sys_read_dir_def with_page_table_def Let_def split: option.splits Option.bind_splits if_splits)

lemma sys_clock_gettime_inv: "sched_inv K \<Longrightarrow> sys_clock_gettime E K st = Some (r, K') \<Longrightarrow> sched_inv K'"
  by (auto simp: sys_clock_gettime_def with_page_table_def split: option.splits Option.bind_splits if_splits)

lemma sys_nanosleep_inv:
  assumes i: "sched_inv K" and "sys_nanosleep E K st = Some (r, K')"
  shows "sched_inv K'"
  using assms(2) unfolding sys_nanosleep_def
proof (cases rule: with_page_tableE)
  case (table t)
  then show ?thesis
  proof (cases rule: with_user_bytesE)
    case (copied b M)
    have "sched_inv K2" if "sleep_current_until (K\<lparr>k_mem := M\<rparr>) d = Some K2" for d K2
      using sleep_inv [OF _ that] i by simp
    with copied i show ?thesis
      by (auto simp: Let_def dest: schedule_inv split: if_splits option.splits Option.bind_splits)
  qed (use i in simp)
qed (use i in simp)

lemma sys_exit_inv: "sched_inv K \<Longrightarrow> sys_exit E K = Some (r, K') \<Longrightarrow> sched_inv K'"
  by (auto simp: sys_exit_def intro: exit_current_inv schedule_inv split: Option.bind_splits)

lemma sys_wait_inv: "sched_inv K \<Longrightarrow> sys_wait_for_process E K st = Some (r, K') \<Longrightarrow> sched_inv K'"
  unfolding sys_wait_for_process_def by (erule schedule_inv [OF wait_inv])

text \<open>
  What \<open>execute\<close> does, whichever of its checks fail: it returns 0 and only the memory and the file
  system have changed, or it deploys the loaded program.
\<close>

definition execute_effect :: "'w kernel_env \<Rightarrow> 'w kernel \<Rightarrow> outcome \<Rightarrow> 'w kernel \<Rightarrow> bool" where
  "execute_effect E K r K' \<longleftrightarrow>
     (\<exists>M fso. (r = Returned (Some 0) \<and> K' = K\<lparr>k_mem := M, k_fs := fso\<rparr>)
        \<or> (\<exists>entry pid. deploy E (K\<lparr>k_mem := M, k_fs := fso\<rparr>) entry True = Some (pid, K') \<and> r = Returned (Some pid)))"

lemma mem_fs_swap: "K\<lparr>k_fs := fso, k_mem := M\<rparr> = K\<lparr>k_mem := M, k_fs := fso\<rparr>"
  by (cases K) simp

lemma execute_effect_failed: "execute_effect E K (Returned (Some 0)) (K\<lparr>k_mem := M, k_fs := fso\<rparr>)"
  by (auto simp: execute_effect_def)

lemma execute_effect_failed_mem: "execute_effect E K (Returned (Some 0)) (K\<lparr>k_mem := M\<rparr>)"
proof -
  have "K\<lparr>k_mem := M\<rparr> = K\<lparr>k_mem := M, k_fs := k_fs K\<rparr>" by (cases K) simp
  then show ?thesis using execute_effect_failed by metis
qed

lemma execute_effect_trans:
  "execute_effect E (K\<lparr>k_mem := M\<rparr>) r K' \<Longrightarrow> execute_effect E K r K'"
  unfolding execute_effect_def by simp

lemma execute_tail:
  assumes f: "find_file_from_path E K path = Some (found, K1)"
    and e: "(case found of
        None \<Rightarrow> Some (Returned (Some 0), K1)
      | Some file \<Rightarrow> do {
          (data, fs) \<leftarrow> fat_file_read (ke_fs E) (k_fs K1) file;
          let K = K1\<lparr>k_fs := Some fs\<rparr>;
          case data of
            None \<Rightarrow> Some (Returned (Some 0), K)
          | Some data \<Rightarrow> do {
              let (mem, addr) = ke_buffer E data;
              (elf_entry, M) \<leftarrow> elf_load (ke_mmu E) mem \<lparr> reg_addr = addr, reg_size = length data \<rparr> argv (k_mem K);
              let K = K\<lparr>k_mem := M\<rparr>;
              case elf_entry of
                None \<Rightarrow> Some (Returned (Some 0), K)
              | Some elf_entry \<Rightarrow> do {
                  (pid, K) \<leftarrow> deploy E K elf_entry True;
                  Some (Returned (Some pid), K)
                }
            }
        }) = Some (r, K')"
  shows "execute_effect E K r K'"
proof -
  obtain fso where K1: "K1 = K\<lparr>k_fs := fso\<rparr>" using find_file_keeps [OF f] by blast
  show ?thesis
  proof (cases found)
    case None
    then have "r = Returned (Some 0)" "K' = K\<lparr>k_mem := k_mem K, k_fs := fso\<rparr>" using e K1 None by (auto simp: mem_fs_swap)
    then show ?thesis by (simp only: execute_effect_failed)
  next
    case (Some x)
    then obtain d fs where d: "fat_file_read (ke_fs E) (k_fs K1) x = Some (d, fs)"
      using e by (auto split: Option.bind_splits)
    show ?thesis
    proof (cases d)
      case None
      then have "r = Returned (Some 0)" "K' = K\<lparr>k_mem := k_mem K, k_fs := Some fs\<rparr>" using e K1 Some d by auto
      then show ?thesis by (simp only: execute_effect_failed)
    next
      case (Some data)
      obtain mem addr where b: "ke_buffer E data = (mem, addr)" by fastforce
      let ?L = "elf_load (ke_mmu E) mem \<lparr> reg_addr = addr, reg_size = length data \<rparr> argv (k_mem K)"
      obtain entry M where l: "?L = Some (entry, M)"
        using e \<open>found = Some x\<close> d Some b K1 by (auto split: Option.bind_splits)
      show ?thesis
      proof (cases entry)
        case None
        then have "r = Returned (Some 0)" "K' = K\<lparr>k_mem := M, k_fs := Some fs\<rparr>"
          using e \<open>found = Some x\<close> d Some b K1 l by auto
        then show ?thesis by (simp only: execute_effect_failed)
      next
        case (Some en)
        have "\<exists>pid. deploy E (K\<lparr>k_mem := M, k_fs := Some fs\<rparr>) en True = Some (pid, K') \<and> r = Returned (Some pid)"
          using e \<open>found = Some x\<close> d \<open>d = Some data\<close> b K1 l Some by (auto simp: mem_fs_swap split: Option.bind_splits)
        then show ?thesis unfolding execute_effect_def by blast
      qed
    qed
  qed
qed

lemma sys_execute_effect:
  assumes "sys_execute E K st = Some (r, K')"
  shows "execute_effect E K r K'"
  using assms unfolding sys_execute_def
proof (cases rule: with_page_tableE)
  case none
  then show ?thesis using execute_effect_failed_mem [of E K "k_mem K"] by simp
next
  case (table t)
  then show ?thesis
  proof (cases rule: with_user_bytesE)
    case (fault M)
    then show ?thesis by (simp only: execute_effect_failed_mem)
  next
    case (copied b M)
    let ?K = "K\<lparr>k_mem := M\<rparr>"
    let ?tail = "\<lambda>path args_buffer K. case from_utf8 args_buffer of
                    None \<Rightarrow> Some (Returned (Some 0), K)
                  | Some args \<Rightarrow>
                      (let argv = path # split_ascii_whitespace args
                       in if length argv > ARGS_MAX_COUNT then Some (Returned (Some 0), K)
                          else do {
                            (file, K) \<leftarrow> find_file_from_path E K path;
                            case file of
                              None \<Rightarrow> Some (Returned (Some 0), K)
                            | Some file \<Rightarrow> do {
                                (data, fs) \<leftarrow> fat_file_read (ke_fs E) (k_fs K) file;
                                let K = K\<lparr>k_fs := Some fs\<rparr>;
                                case data of
                                  None \<Rightarrow> Some (Returned (Some 0), K)
                                | Some data \<Rightarrow> do {
                                    let (mem, addr) = ke_buffer E data;
                                    (elf_entry, M) \<leftarrow> elf_load (ke_mmu E) mem \<lparr> reg_addr = addr, reg_size = length data \<rparr> argv (k_mem K);
                                    let K = K\<lparr>k_mem := M\<rparr>;
                                    case elf_entry of
                                      None \<Rightarrow> Some (Returned (Some 0), K)
                                    | Some elf_entry \<Rightarrow> do {
                                        (pid, K) \<leftarrow> deploy E K elf_entry True;
                                        Some (Returned (Some pid), K)
                                      }
                                  }
                              }
                          })"
    have tail: "execute_effect E K r K'" if h: "?tail path c (K\<lparr>k_mem := M'\<rparr>) = Some (r, K')" for path c M'
    proof (cases "from_utf8 c")
      case None
      with h show ?thesis using execute_effect_failed_mem by auto
    next
      case (Some args)
      show ?thesis
      proof (cases "length (path # split_ascii_whitespace args) > ARGS_MAX_COUNT")
        case True
        with h Some show ?thesis using execute_effect_failed_mem by (auto simp: Let_def)
      next
        case False
        then obtain x K1 where f: "find_file_from_path E (K\<lparr>k_mem := M'\<rparr>) path = Some (x, K1)"
          using h Some by (auto simp: Let_def split: Option.bind_splits)
        have "execute_effect E (K\<lparr>k_mem := M'\<rparr>) r K'"
          by (rule execute_tail [OF f, where argv = "path # split_ascii_whitespace args"])
             (use h Some False f in \<open>simp only: Let_def option.case prod.case if_False Option.bind.simps refl\<close>)
        then show ?thesis by (rule execute_effect_trans)
      qed
    qed
    show ?thesis
    proof (cases "from_utf8 b")
      case None
      with copied show ?thesis using execute_effect_failed_mem by auto
    next
      case (Some path)
      consider (blocked) "last (split_on 47 path) = lit ''shell.elf'' \<or> ctx_r10 st > ARGS_MAX_BYTES"
        | (noargs) "\<not> (last (split_on 47 path) = lit ''shell.elf'' \<or> ctx_r10 st > ARGS_MAX_BYTES)" "ctx_r10 st = 0"
        | (args) "\<not> (last (split_on 47 path) = lit ''shell.elf'' \<or> ctx_r10 st > ARGS_MAX_BYTES)" "ctx_r10 st \<noteq> 0"
        by blast
      then show ?thesis
      proof cases
        case blocked
        with copied Some show ?thesis using execute_effect_failed_mem [of E K M] by (auto split: if_splits)
      next
        case noargs
        have "?tail path [] ?K = Some (r, K')"
          using copied noargs Some by (simp only: option.case Let_def de_Morgan_disj if_False if_True simp_thms) 
        then show ?thesis by (rule tail)
      next
        case args
        have "with_user_bytes E ?K t (ctx_rdx st) (ctx_r10 st) (?tail path) = Some (r, K')"
          using copied args Some by (simp only: option.case Let_def de_Morgan_disj if_False if_True simp_thms)
        then show ?thesis
        proof (cases rule: with_user_bytesE)
          case (fault M')
          then show ?thesis using execute_effect_failed_mem [of E K M'] by simp
        next
          case (copied c M')
          have "K\<lparr>k_mem := M, k_mem := M'\<rparr> = K\<lparr>k_mem := M'\<rparr>" by simp
          with copied have "?tail path c (K\<lparr>k_mem := M'\<rparr>) = Some (r, K')" by (simp only:)
          then show ?thesis by (rule tail)
        qed
      qed
    qed
  qed
qed

lemma sys_execute_inv:
  assumes i: "sched_inv K" and "sys_execute E K st = Some (r, K')"
  shows "sched_inv K'"
proof -
  obtain M fso where "(r = Returned (Some 0) \<and> K' = K\<lparr>k_mem := M, k_fs := fso\<rparr>)
      \<or> (\<exists>entry pid. deploy E (K\<lparr>k_mem := M, k_fs := fso\<rparr>) entry True = Some (pid, K') \<and> r = Returned (Some pid))"
    using sys_execute_effect [OF assms(2)] unfolding execute_effect_def by blast
  moreover have k: "sched_inv (K\<lparr>k_mem := M, k_fs := fso\<rparr>)" using i by simp
  ultimately show ?thesis using deploy_inv [OF k] by (elim disjE exE conjE) (simp_all only:)
qed

lemma dispatch_cases:
  assumes "dispatch E K st = Some (r, K')"
  shows "sys_exit E K = Some (r, K') \<or> sys_write E K st = Some (r, K') \<or> sys_read E K st = Some (r, K')
    \<or> sys_execute E K st = Some (r, K') \<or> sys_yld E K st = Some (r, K') \<or> sys_wait_for_process E K st = Some (r, K')
    \<or> sys_read_dir E K st = Some (r, K') \<or> sys_cd E K st = Some (r, K') \<or> sys_open E K st = Some (r, K')
    \<or> sys_close K st = Some (r, K') \<or> sys_truncate E K st = Some (r, K') \<or> sys_create E K st = Some (r, K')
    \<or> sys_mkdir E K st = Some (r, K') \<or> sys_unlink E K st = Some (r, K') \<or> sys_rmdir E K st = Some (r, K')
    \<or> sys_clock_gettime E K st = Some (r, K') \<or> sys_nanosleep E K st = Some (r, K') \<or> K' = K"
  using assms unfolding dispatch_def Let_def by (simp only: split: if_splits) simp_all

lemma dispatch_inv:
  assumes i: "sched_inv K" and d: "dispatch E K st = Some (r, K')"
  shows "sched_inv K'"
  using dispatch_cases [OF d]
proof (elim disjE)
  assume "sys_yld E K st = Some (r, K')"
  then show ?thesis unfolding sys_yld_def by (rule schedule_inv [OF i])
next
  assume "sys_mkdir E K st = Some (r, K')"
  then show ?thesis unfolding sys_directory_defs by (rule sys_update_inv [OF i])
next
  assume "sys_unlink E K st = Some (r, K')"
  then show ?thesis unfolding sys_directory_defs by (rule sys_update_inv [OF i])
next
  assume "sys_rmdir E K st = Some (r, K')"
  then show ?thesis unfolding sys_directory_defs by (rule sys_update_inv [OF i])
next
  assume "K' = K"
  with i show ?thesis by simp
qed (erule sys_exit_inv [OF i] sys_write_inv [OF i] sys_read_inv [OF i] sys_execute_inv [OF i] sys_wait_inv [OF i]
    sys_read_dir_inv [OF i] sys_cd_inv [OF i] sys_open_inv [OF i] sys_close_inv [OF i] sys_truncate_inv [OF i]
    sys_create_inv [OF i] sys_clock_gettime_inv [OF i] sys_nanosleep_inv [OF i])+

section \<open>Runs of the kernel\<close>

text \<open>The kernel is entered by timer interrupts and system calls; a run records where control went.\<close>

datatype kernel_event = Timer "nat option" interrupt_frame | Syscall interrupt_frame

inductive kernel_trans :: "'w kernel_env \<Rightarrow> 'w kernel \<Rightarrow> kernel_event \<Rightarrow> outcome \<Rightarrow> 'w kernel \<Rightarrow> bool" for E where
  trans_timer: "timer_isr E K serial st = Some (r, K') \<Longrightarrow> kernel_trans E K (Timer serial st) r K'"
| trans_syscall: "syscall_isr E K st = Some (r, st', K') \<Longrightarrow> kernel_trans E K (Syscall st) r K'"

inductive_cases kernel_trans_syscallE: "kernel_trans E K (Syscall st) r K'"

inductive kernel_run :: "'w kernel_env \<Rightarrow> 'w kernel \<Rightarrow> (kernel_event \<times> outcome) list \<Rightarrow> 'w kernel \<Rightarrow> bool" for E where
  run_nil: "kernel_run E K [] K"
| run_cons: "kernel_trans E K ev r K' \<Longrightarrow> kernel_run E K' evs K'' \<Longrightarrow> kernel_run E K ((ev, r) # evs) K''"

lemma syscall_isr_dispatch: "syscall_isr E K st = Some (r, st', K') \<Longrightarrow> dispatch E K st = Some (r, K')"
  by (auto simp: syscall_isr_def split: Option.bind_splits)

lemma kernel_trans_inv: "kernel_trans E K ev r K' \<Longrightarrow> sched_inv K \<Longrightarrow> sched_inv K'"
proof (induction rule: kernel_trans.induct)
  case (trans_timer K serial st r K')
  then show ?case by - (rule timer_inv)
next
  case (trans_syscall K st r st' K')
  from trans_syscall.prems syscall_isr_dispatch [OF trans_syscall.hyps] show ?case by (rule dispatch_inv)
qed

lemma kernel_run_inv: "kernel_run E K evs K' \<Longrightarrow> sched_inv K \<Longrightarrow> sched_inv K'"
proof (induction rule: kernel_run.induct)
  case (run_cons K ev r K' evs K'')
  from kernel_trans_inv [OF run_cons.hyps(1) run_cons.prems] show ?case by (rule run_cons.IH)
qed



section \<open>Forking\<close>

lemma deploy_forked:
  assumes c: "current_process K = Some c" and d: "deploy E K entry True = Some (pid, K')"
  shows "(pid = 0 \<and> k_processes K' = k_processes K)
    \<or> (pid = k_pid_counter K \<and> k_pid_counter K' = pid + 1 \<and> (\<exists>p. k_processes K' = k_processes K @ [p] \<and> p_pid p = pid
         \<and> p_fd_table p = p_fd_table c \<and> p_curr_working_dir p = p_curr_working_dir c \<and> \<not> p_blocking p))"
proof -
  have ne: "length (k_processes K) \<noteq> 0" using current_in [OF c] by auto
  have cur: "current_process (K\<lparr>k_pid_counter := n\<rparr>) = Some c" for n
    using c by (auto simp: current_process_def split: if_splits)
  show ?thesis
  proof (cases "process_from entry (k_pid_counter K) (p_curr_working_dir c)")
    case None
    then have "pid = 0" "k_processes K' = k_processes K"
      using d ne cur by (auto simp: deploy_def Let_def split: Option.bind_splits)
    then show ?thesis by simp
  next
    case (Some p)
    have p: "p_pid p = k_pid_counter K" "p_curr_working_dir p = p_curr_working_dir c" "\<not> p_blocking p"
      using Some by (auto simp: process_from_def Let_def split: option.splits if_splits)
    show ?thesis
      using d ne cur Some p by (auto simp: deploy_def Let_def split: Option.bind_splits)
  qed
qed

section \<open>Results\<close>

definition gives_value :: "outcome \<Rightarrow> bool" where
  "gives_value r \<longleftrightarrow> (\<exists>v. r = Returned (Some v))"

lemma gives_value_simp [simp]: "gives_value (Returned (Some v))" "\<not> gives_value (Returned None)"
  by (simp_all add: gives_value_def)

lemma with_user_path_value:
  assumes "with_user_path E K st f = Some (r, K')"
    and "\<And>p M. f p (K\<lparr>k_mem := M\<rparr>) = Some (r, K') \<Longrightarrow> gives_value r"
  shows "gives_value r"
  using assms(1) by (cases rule: with_user_pathE) (use assms(2) in auto)

lemma returned_value:
  "map_option returned_or_zero x = Some (r, K') \<Longrightarrow> gives_value r" "map_option returned_bool y = Some (r, K') \<Longrightarrow> gives_value r"
  by (auto simp: returned_or_zero_def returned_bool_def)

lemma path_calls_value:
  "sys_open E K st = Some (r, K') \<Longrightarrow> gives_value r" "sys_mkdir E K st = Some (r, K') \<Longrightarrow> gives_value r"
  "sys_unlink E K st = Some (r, K') \<Longrightarrow> gives_value r" "sys_rmdir E K st = Some (r, K') \<Longrightarrow> gives_value r"
  unfolding sys_open_def sys_mkdir_def sys_unlink_def sys_rmdir_def
  by (erule with_user_path_value, erule returned_value)+

lemma sys_create_value: "sys_create E K st = Some (r, K') \<Longrightarrow> gives_value r"
  unfolding sys_create_def by (erule with_user_path_value) (auto simp: returned_or_zero_def split: if_splits)

lemma sys_cd_value: "sys_cd E K st = Some (r, K') \<Longrightarrow> gives_value r"
  unfolding sys_cd_def by (erule with_user_path_value) (auto split: if_splits Option.bind_splits option.splits)

lemma sys_write_value: "sys_write E K st = Some (r, K') \<Longrightarrow> gives_value r"
  unfolding sys_write_def
  by (elim with_page_tableE with_user_bytesE)
     (auto simp: returned_or_zero_def split: option.splits file_descriptor.splits)

lemma sys_execute_value: "sys_execute E K st = Some (r, K') \<Longrightarrow> gives_value r"
  by (drule sys_execute_effect) (auto simp: execute_effect_def)

lemma plain_calls_value:
  "sys_read_dir E K st = Some (r, K') \<Longrightarrow> gives_value r" "sys_close K st = Some (r, K') \<Longrightarrow> gives_value r"
  "sys_truncate E K st = Some (r, K') \<Longrightarrow> gives_value r" "sys_clock_gettime E K st = Some (r, K') \<Longrightarrow> gives_value r"
  by (auto simp: sys_read_dir_def sys_close_def sys_truncate_def sys_clock_gettime_def returned_bool_def with_page_table_def Let_def
      split: option.splits Option.bind_splits if_splits)

section \<open>Properties\<close>

definition demo_env :: "(nat \<Rightarrow> bytes) kernel_env" where
  "demo_env = \<lparr> ke_fs = ram_env, ke_mmu = hw_walk, ke_user_code = 0x23, ke_user_data = 0x1B,
     ke_buffer = (\<lambda>b. (mem_write (\<lambda>_. 0) 0x400000 b, 0x400000)), ke_padding = (\<lambda>_. [0, 0, 0]) \<rparr>"

lemma demo_single_inv: "sched_inv (demo_kernel [demo_process 3])"
  using demo_wf by (simp add: sched_inv_def index_ok_def usize_bound_def)

text \<open>
  C6.  Whatever sequence of timer interrupts and system calls the kernel goes through, process
  identifiers stay distinct and below the counter, the current index stays in range, every process
  keeps its page table, the first three descriptors of every process stay the standard ones and every
  file descriptor refers to an existing file object.
\<close>

theorem kernel_invariant:
  assumes "kernel_run E K evs K'" "sched_inv K"
  shows "sched_inv K'"
  using assms by (rule kernel_run_inv)

theorem kernel_invariant_witness:
  "\<exists>r K'. kernel_run demo_env (demo_kernel [demo_process 3]) [(Syscall (frame_empty\<lparr>ctx_rax := 10, ctx_rdi := 1\<rparr>), r)] K' \<and> sched_inv K'"
proof -
  let ?K = "demo_kernel [demo_process 3] :: (nat \<Rightarrow> bytes) kernel" and ?st = "frame_empty\<lparr>ctx_rax := 10, ctx_rdi := 1\<rparr>"
  have "syscall_isr demo_env ?K ?st = Some (Returned (Some 0), ?st\<lparr>ctx_rax := 0\<rparr>, set_current ?K (demo_process 3))"
    by (simp add: syscall_isr_def dispatch_def sys_close_def close_current_file_descriptor_def close_fd_def
        current_process_def returned_bool_def frame_empty_def)
  from run_cons [OF trans_syscall [OF this] run_nil] kernel_invariant [OF run_cons [OF trans_syscall [OF this] run_nil] demo_single_inv]
  show ?thesis by blast
qed

text \<open>
  C17.  The system calls for writing, executing, directories, files and clocks always give a value: if
  such a call returns, it returns to its caller, and the caller continues with the value in \<open>rax\<close> and
  every other register as it was.  The system call number is never left behind as a result.
\<close>

theorem syscall_result_in_rax:
  assumes "ctx_rax st \<in> {2, 4, 7, 8, 9, 10, 11, 12, 13, 14, 15, 16}" "syscall_isr E K st = Some (r, st', K')"
  shows "\<exists>v. r = Returned (Some v) \<and> st' = st\<lparr>ctx_rax := v\<rparr>"
proof -
  have d: "dispatch E K st = Some (r, K')" by (rule syscall_isr_dispatch [OF assms(2)])
  have "gives_value r"
    using assms(1) d unfolding insert_iff empty_iff
    by (elim disjE FalseE)
       (simp_all add: dispatch_def path_calls_value sys_create_value sys_cd_value sys_write_value sys_execute_value plain_calls_value)
  then obtain v where "r = Returned (Some v)" by (auto simp: gives_value_def)
  with assms(2) d show ?thesis by (auto simp: syscall_isr_def)
qed

theorem syscall_result_in_rax_witness:
  "\<exists>v. syscall_isr demo_env (demo_kernel [demo_process 3]) (frame_empty\<lparr>ctx_rax := 10, ctx_rdi := 1\<rparr>)
     = Some (Returned (Some v), frame_empty\<lparr>ctx_rax := v, ctx_rdi := 1\<rparr>, set_current (demo_kernel [demo_process 3]) (demo_process 3))"
proof -
  let ?K = "demo_kernel [demo_process 3] :: (nat \<Rightarrow> bytes) kernel" and ?st = "frame_empty\<lparr>ctx_rax := 10, ctx_rdi := 1\<rparr>"
  have "syscall_isr demo_env ?K ?st = Some (Returned (Some 0), ?st\<lparr>ctx_rax := 0\<rparr>, set_current ?K (demo_process 3))"
    by (simp add: syscall_isr_def dispatch_def sys_close_def close_current_file_descriptor_def close_fd_def
        current_process_def returned_bool_def frame_empty_def)
  from syscall_result_in_rax [OF _ this] this show ?thesis by (intro exI [of _ 0]) (simp add: frame_empty_def)
qed

text \<open>
  C16.  The result of \<open>execute\<close> tells what happened: with a current process and a first process that
  has already been numbered, the call returns 0 and the process list is unchanged, or it returns the
  next identifier, which is not 0, and exactly one process with that identifier has been added, with
  the working directory and the descriptors of the caller.
\<close>

theorem execute_result_exact:
  assumes "current_process K = Some c" "0 < k_pid_counter K" "sys_execute E K st = Some (r, K')"
  shows "\<exists>v. r = Returned (Some v)
    \<and> (if v = 0 then k_processes K' = k_processes K
       else v = k_pid_counter K \<and> k_pid_counter K' = v + 1
         \<and> (\<exists>p. k_processes K' = k_processes K @ [p] \<and> p_pid p = v \<and> \<not> p_blocking p
              \<and> p_fd_table p = p_fd_table c \<and> p_curr_working_dir p = p_curr_working_dir c))"
proof -
  obtain M fso where "(r = Returned (Some 0) \<and> K' = K\<lparr>k_mem := M, k_fs := fso\<rparr>)
      \<or> (\<exists>entry pid. deploy E (K\<lparr>k_mem := M, k_fs := fso\<rparr>) entry True = Some (pid, K') \<and> r = Returned (Some pid))"
    using sys_execute_effect [OF assms(3)] unfolding execute_effect_def by blast
  then show ?thesis
  proof (elim disjE exE conjE)
    fix entry pid
    assume d: "deploy E (K\<lparr>k_mem := M, k_fs := fso\<rparr>) entry True = Some (pid, K')" and r: "r = Returned (Some pid)"
    have c: "current_process (K\<lparr>k_mem := M, k_fs := fso\<rparr>) = Some c" using assms(1) by (auto simp: current_process_def split: if_splits)
    show ?thesis using deploy_forked [OF c d] r assms(2) by auto
  qed simp
qed

theorem execute_result_exact_witness:
  "\<exists>v K'. sys_execute demo_env (demo_kernel [demo_process 3]) frame_empty = Some (Returned (Some v), K')
     \<and> (if v = 0 then k_processes K' = [demo_process 3] else v = 9)"
proof -
  let ?K = "demo_kernel [demo_process 3] :: (nat \<Rightarrow> bytes) kernel"
  have c: "current_process ?K = Some (demo_process 3)" by (simp add: current_process_def)
  have e: "sys_execute demo_env ?K frame_empty = Some (Returned (Some 0), ?K\<lparr>k_mem := None\<rparr>)"
    by (simp add: sys_execute_def with_page_table_def get_current_process_page_table_def c with_user_bytes_def
        copy_from_user_def validate_user_pointer_def Let_def)
  from execute_result_exact [OF c _ e] e show ?thesis by simp
qed



end
