(* ===== verification/Ahci.thy ===== *)
theory Ahci
  imports Paging_Walk
begin

text \<open>
  The AHCI disk driver: the structures shared with the controller, the description of a transfer in
  physical memory and the commands of a port.

  The registers of the host bus adapter are a parameter: reading or writing one is an event of the
  device, which may change its state and, by direct memory access, physical memory.  Every access the
  source makes through the structure \<open>HBAPort\<close> is one such event; loops that wait for the device return
  only if it answers.
\<close>

section \<open>Frame information structures\<close>

datatype fis_type = RegH2D | RegD2H | DMAAct | DMASetup | DataFis | BIST | PIOSetup | DevBits

fun fis_type_value :: "fis_type \<Rightarrow> u8" where
  "fis_type_value RegH2D = 0x27"
| "fis_type_value RegD2H = 0x34"
| "fis_type_value DMAAct = 0x39"
| "fis_type_value DMASetup = 0x41"
| "fis_type_value DataFis = 0x46"
| "fis_type_value BIST = 0x58"
| "fis_type_value PIOSetup = 0x5F"
| "fis_type_value DevBits = 0xA1"

record fis_reg_h2d =
  h2d_fis_type :: u8
  h2d_pmport_rsv0_c :: u8
  h2d_command :: u8
  h2d_feature_low :: u8
  h2d_lba0 :: u8
  h2d_lba1 :: u8
  h2d_lba2 :: u8
  h2d_device :: u8
  h2d_lba3 :: u8
  h2d_lba4 :: u8
  h2d_lba5 :: u8
  h2d_feature_high :: u8
  h2d_count_low :: u8
  h2d_count_high :: u8
  h2d_icc :: u8
  h2d_control :: u8

text \<open>The bytes of the structure in memory, with its four reserved bytes.\<close>

definition h2d_bytes :: "fis_reg_h2d \<Rightarrow> bytes" where
  "h2d_bytes f =
     [h2d_fis_type f, h2d_pmport_rsv0_c f, h2d_command f, h2d_feature_low f,
      h2d_lba0 f, h2d_lba1 f, h2d_lba2 f, h2d_device f,
      h2d_lba3 f, h2d_lba4 f, h2d_lba5 f, h2d_feature_high f,
      h2d_count_low f, h2d_count_high f, h2d_icc f, h2d_control f, 0, 0, 0, 0]"

definition h2d_get_pmport :: "fis_reg_h2d \<Rightarrow> u8" where
  "h2d_get_pmport f = h2d_pmport_rsv0_c f AND 0x0F"

definition h2d_get_control_bit :: "fis_reg_h2d \<Rightarrow> u8" where
  "h2d_get_control_bit f = h2d_pmport_rsv0_c f AND 0x80"

definition h2d_set_pmport :: "u8 \<Rightarrow> fis_reg_h2d \<Rightarrow> fis_reg_h2d" where
  "h2d_set_pmport val f = f\<lparr>h2d_pmport_rsv0_c := (h2d_pmport_rsv0_c f AND NOT 0xF0) OR (val AND 0x0F)\<rparr>"

definition h2d_set_control_bit :: "bool \<Rightarrow> fis_reg_h2d \<Rightarrow> fis_reg_h2d" where
  "h2d_set_control_bit val f =
     f\<lparr>h2d_pmport_rsv0_c := (if val then h2d_pmport_rsv0_c f OR 0x80 else h2d_pmport_rsv0_c f AND NOT 0x80)\<rparr>"

section \<open>Structures of the host bus adapter\<close>

definition HBA_PRDT_ENTRY_COUNT :: nat where "HBA_PRDT_ENTRY_COUNT = 128"
definition HBA_PRDT_MAX_BYTE_COUNT :: nat where "HBA_PRDT_MAX_BYTE_COUNT = 0x00400000"

record hba_prdt_entry =
  pe_data_base_address :: u32
  pe_data_base_address_upper :: u32
  pe_rsv0 :: u32
  pe_dbc_rsv1_i :: u32

definition prdt_entry_bytes :: "hba_prdt_entry \<Rightarrow> bytes" where
  "prdt_entry_bytes e =
     le32 (pe_data_base_address e) @ le32 (pe_data_base_address_upper e) @ le32 (pe_rsv0 e) @ le32 (pe_dbc_rsv1_i e)"

definition prdt_entry_of :: "bytes \<Rightarrow> hba_prdt_entry" where
  "prdt_entry_of b =
     \<lparr> pe_data_base_address = of_le32 (b ! 0) (b ! 1) (b ! 2) (b ! 3),
       pe_data_base_address_upper = of_le32 (b ! 4) (b ! 5) (b ! 6) (b ! 7),
       pe_rsv0 = of_le32 (b ! 8) (b ! 9) (b ! 10) (b ! 11),
       pe_dbc_rsv1_i = of_le32 (b ! 12) (b ! 13) (b ! 14) (b ! 15) \<rparr>"

definition get_data_byte_count :: "hba_prdt_entry \<Rightarrow> u32" where
  "get_data_byte_count e = pe_dbc_rsv1_i e AND 0x003FFFFF"

definition get_interrupt_on_completion :: "hba_prdt_entry \<Rightarrow> bool" where
  "get_interrupt_on_completion e \<longleftrightarrow> pe_dbc_rsv1_i e AND 0x80000000 \<noteq> 0"

definition set_data_byte_count :: "u32 \<Rightarrow> hba_prdt_entry \<Rightarrow> hba_prdt_entry" where
  "set_data_byte_count val e = e\<lparr>pe_dbc_rsv1_i := (pe_dbc_rsv1_i e AND NOT 0x003FFFFF) OR (val AND 0x003FFFFF)\<rparr>"

definition set_interrupt_on_completion :: "bool \<Rightarrow> hba_prdt_entry \<Rightarrow> hba_prdt_entry" where
  "set_interrupt_on_completion val e =
     e\<lparr>pe_dbc_rsv1_i := (if val then pe_dbc_rsv1_i e OR 0x80000000 else pe_dbc_rsv1_i e AND NOT 0x80000000)\<rparr>"

text \<open>The flag byte of a command header, and the sizes of header and table.\<close>

definition hdr_set_cfl :: "u8 \<Rightarrow> u8 \<Rightarrow> u8" where
  "hdr_set_cfl val cfl_a_w_p = (cfl_a_w_p AND NOT 0x1F) OR (val AND 0x1F)"

definition hdr_set_write_bit :: "bool \<Rightarrow> u8 \<Rightarrow> u8" where
  "hdr_set_write_bit val cfl_a_w_p = (if val then cfl_a_w_p OR 0x40 else cfl_a_w_p AND NOT 0x40)"

definition command_table_size :: nat where
  "command_table_size = 64 + 16 + 48 + 16 * HBA_PRDT_ENTRY_COUNT"

section \<open>Describing a buffer in physical memory\<close>

text \<open>
  The loops take the translation of an address and the write of an entry as arguments, because both
  act on the memory controller.
\<close>

partial_function (option) prdt_extend ::
  "(nat \<Rightarrow> 'c \<Rightarrow> (nat option \<times> 'c) option) \<Rightarrow> nat \<Rightarrow> nat \<Rightarrow> nat \<Rightarrow> nat \<Rightarrow> 'c \<Rightarrow> ((nat \<times> nat \<times> nat) option \<times> 'c) option" where
  "prdt_extend translate buffer_phys entry_size virt_addr bytes_remaining c = do {
     (frame, c) \<leftarrow> translate virt_addr c;
     case frame of
       None \<Rightarrow> Some (None, c)
     | Some frame \<Rightarrow>
         let page_offset = virt_addr mod PAGE_SIZE;
             physical_addr = frame_start_address frame + page_offset
         in if entry_size > 0 \<and> physical_addr \<noteq> buffer_phys + entry_size then
              Some (Some (entry_size, virt_addr, bytes_remaining), c)
            else do {
              remaining_entry_space \<leftarrow> checked_sub HBA_PRDT_MAX_BYTE_COUNT entry_size;
              let chunk_size = min bytes_remaining (min (PAGE_SIZE - page_offset) remaining_entry_space);
              let entry_size = entry_size + chunk_size;
              virt_addr \<leftarrow> checked_add virt_addr chunk_size;
              let bytes_remaining = bytes_remaining - chunk_size;
              if bytes_remaining = 0 \<or> entry_size = HBA_PRDT_MAX_BYTE_COUNT then
                Some (Some (entry_size, virt_addr, bytes_remaining), c)
              else prdt_extend translate buffer_phys entry_size virt_addr bytes_remaining c
            }
   }"

partial_function (option) prdt_loop ::
  "(nat \<Rightarrow> 'c \<Rightarrow> (nat option \<times> 'c) option) \<Rightarrow> (nat \<Rightarrow> nat \<Rightarrow> nat \<Rightarrow> bool \<Rightarrow> 'c \<Rightarrow> 'c option)
     \<Rightarrow> nat \<Rightarrow> nat \<Rightarrow> nat \<Rightarrow> 'c \<Rightarrow> (nat option \<times> 'c) option" where
  "prdt_loop translate put prdt_index virt_addr bytes_remaining c =
     (if bytes_remaining = 0 then Some (Some prdt_index, c)
      else if prdt_index \<ge> HBA_PRDT_ENTRY_COUNT then Some (None, c)
      else do {
        (first_frame, c) \<leftarrow> translate virt_addr c;
        case first_frame of
          None \<Rightarrow> Some (None, c)
        | Some first_frame \<Rightarrow> do {
            let buffer_phys = frame_start_address first_frame + virt_addr mod PAGE_SIZE;
            (r, c) \<leftarrow> prdt_extend translate buffer_phys 0 virt_addr bytes_remaining c;
            case r of
              None \<Rightarrow> Some (None, c)
            | Some (entry_size, virt_addr, bytes_remaining) \<Rightarrow> do {
                c \<leftarrow> put prdt_index buffer_phys entry_size (bytes_remaining = 0) c;
                prdt_loop translate put (prdt_index + 1) virt_addr bytes_remaining c
              }
          }
      })"

text \<open>Writing entry \<open>i\<close> of the table at \<open>table\<close>: its fields are replaced, its reserved word is kept.\<close>

definition put_prdt_entry :: "mmu \<Rightarrow> nat \<Rightarrow> nat \<Rightarrow> nat \<Rightarrow> nat \<Rightarrow> bool \<Rightarrow> 'a controller \<Rightarrow> 'a controller option" where
  "put_prdt_entry mmu table i buffer_phys entry_size final C = do {
     let a = table + 128 + 16 * i;
     b \<leftarrow> vread mmu C a 16;
     let e = (prdt_entry_of b)\<lparr>pe_data_base_address := of_nat buffer_phys, pe_data_base_address_upper := of_nat (buffer_phys div 2 ^ 32)\<rparr>;
     let e = set_interrupt_on_completion final (set_data_byte_count (of_nat (entry_size - 1)) e);
     vwrite mmu C a (prdt_entry_bytes e)
   }"

definition fill_prdt_entries :: "mmu \<Rightarrow> nat \<Rightarrow> nat \<Rightarrow> nat \<Rightarrow> 'a controller \<Rightarrow> (nat option \<times> 'a controller) option" where
  "fill_prdt_entries mmu table buffer_addr data_byte_count C =
     (if data_byte_count = 0 then Some (None, C)
      else prdt_loop (\<lambda>a C. mc_translate_to_physical mmu C a) (put_prdt_entry mmu table) 0 buffer_addr data_byte_count C)"

section \<open>The command of a transfer\<close>

record ahci_command =
  ac_buffer_addr :: nat
  ac_data_byte_count :: u32
  ac_cmd :: u8
  ac_control :: u8
  ac_lba :: nat
  ac_count :: nat
  ac_write :: bool
  ac_is_lba_mode :: bool

definition ATA_CMD_READ_DMA_EX :: u8 where "ATA_CMD_READ_DMA_EX = 0x25"
definition ATA_CMD_WRITE_DMA_EX :: u8 where "ATA_CMD_WRITE_DMA_EX = 0x35"
definition ATA_CMD_IDENTIFY :: u8 where "ATA_CMD_IDENTIFY = 0xEC"

definition zero_h2d :: fis_reg_h2d where
  "zero_h2d =
     \<lparr> h2d_fis_type = 0, h2d_pmport_rsv0_c = 0, h2d_command = 0, h2d_feature_low = 0, h2d_lba0 = 0, h2d_lba1 = 0,
       h2d_lba2 = 0, h2d_device = 0, h2d_lba3 = 0, h2d_lba4 = 0, h2d_lba5 = 0, h2d_feature_high = 0,
       h2d_count_low = 0, h2d_count_high = 0, h2d_icc = 0, h2d_control = 0 \<rparr>"

text \<open>The structure as \<open>send_command\<close> fills it in; the table has been cleared before.\<close>

definition command_fis :: "ahci_command \<Rightarrow> fis_reg_h2d" where
  "command_fis cmd =
     (let lba_low = (of_nat (ac_lba cmd) :: u32); lba_high = (of_nat (ac_lba cmd div 2 ^ 32) :: u32)
      in h2d_set_control_bit True
           (zero_h2d\<lparr>h2d_fis_type := fis_type_value RegH2D, h2d_control := ac_control cmd, h2d_command := ac_cmd cmd,
                      h2d_lba0 := ucast lba_low, h2d_lba1 := ucast (drop_bit 8 lba_low), h2d_lba2 := ucast (drop_bit 16 lba_low),
                      h2d_lba3 := ucast lba_high, h2d_lba4 := ucast (drop_bit 8 lba_high), h2d_lba5 := ucast (drop_bit 16 lba_high),
                      h2d_device := (if ac_is_lba_mode cmd then 0x40 else 0),
                      h2d_count_low := of_nat (ac_count cmd mod 256), h2d_count_high := of_nat (ac_count cmd div 256 mod 256)\<rparr>))"

definition read_command_of :: "nat \<Rightarrow> nat \<Rightarrow> nat \<Rightarrow> ahci_command" where
  "read_command_of sector sector_count buffer =
     \<lparr> ac_buffer_addr = buffer, ac_data_byte_count = of_nat (sector_count * 2 ^ 9), ac_cmd = ATA_CMD_READ_DMA_EX, ac_control = 1,
       ac_lba = sector, ac_count = sector_count, ac_write = False, ac_is_lba_mode = True \<rparr>"

definition write_command_of :: "nat \<Rightarrow> nat \<Rightarrow> nat \<Rightarrow> ahci_command" where
  "write_command_of sector sector_count buffer =
     \<lparr> ac_buffer_addr = buffer, ac_data_byte_count = of_nat (sector_count * 2 ^ 9), ac_cmd = ATA_CMD_WRITE_DMA_EX, ac_control = 1,
       ac_lba = sector, ac_count = sector_count, ac_write = True, ac_is_lba_mode = True \<rparr>"

section \<open>Ports\<close>

record 'w hba_env =
  he_mmu :: mmu
  he_get :: "nat \<Rightarrow> 'w \<times> memory \<Rightarrow> u32 \<times> 'w \<times> memory"
  he_put :: "nat \<Rightarrow> u32 \<Rightarrow> 'w \<times> memory \<Rightarrow> 'w \<times> memory"
  he_alloc :: "'w \<Rightarrow> nat \<times> 'w"

text \<open>The state of the device and the memory controller, with whether the global one has been set.\<close>

record 'w ahci =
  ah_dev :: 'w
  ah_ctl :: memory_controller
  ah_global :: bool

record ahci_port =
  ap_port_address :: nat
  ap_max_slots :: nat
  ap_block_count :: u32

definition PX_CLB :: nat where "PX_CLB = 0x00"
definition PX_CLBU :: nat where "PX_CLBU = 0x04"
definition PX_FB :: nat where "PX_FB = 0x08"
definition PX_FBU :: nat where "PX_FBU = 0x0C"
definition PX_IS :: nat where "PX_IS = 0x10"
definition PX_CMD :: nat where "PX_CMD = 0x18"
definition PX_TFD :: nat where "PX_TFD = 0x20"
definition PX_SIG :: nat where "PX_SIG = 0x24"
definition PX_SSTS :: nat where "PX_SSTS = 0x28"
definition PX_SACT :: nat where "PX_SACT = 0x34"
definition PX_CI :: nat where "PX_CI = 0x38"

definition HBA_PXCMD_ST :: u32 where "HBA_PXCMD_ST = 0x0001"
definition HBA_PXCMD_FRE :: u32 where "HBA_PXCMD_FRE = 0x0010"
definition HBA_PXCMD_FR :: u32 where "HBA_PXCMD_FR = 0x4000"
definition HBA_PXCMD_CR :: u32 where "HBA_PXCMD_CR = 0x8000"
definition HBA_PXIS_TFES :: u32 where "HBA_PXIS_TFES = 0x40000000"

definition reg_get :: "'w hba_env \<Rightarrow> ahci_port \<Rightarrow> nat \<Rightarrow> 'w ahci \<Rightarrow> u32 \<times> 'w ahci" where
  "reg_get E p r S =
     (let (v, d, m) = he_get E (ap_port_address p + r) (ah_dev S, pg_phys (ah_ctl S))
      in (v, S\<lparr>ah_dev := d, ah_ctl := (ah_ctl S)\<lparr>pg_phys := m\<rparr>\<rparr>))"

definition reg_put :: "'w hba_env \<Rightarrow> ahci_port \<Rightarrow> nat \<Rightarrow> u32 \<Rightarrow> 'w ahci \<Rightarrow> 'w ahci" where
  "reg_put E p r v S =
     (let (d, m) = he_put E (ap_port_address p + r) v (ah_dev S, pg_phys (ah_ctl S))
      in S\<lparr>ah_dev := d, ah_ctl := (ah_ctl S)\<lparr>pg_phys := m\<rparr>\<rparr>)"

definition reg_update :: "'w hba_env \<Rightarrow> ahci_port \<Rightarrow> nat \<Rightarrow> (u32 \<Rightarrow> u32) \<Rightarrow> 'w ahci \<Rightarrow> 'w ahci" where
  "reg_update E p r f S = (let (v, S) = reg_get E p r S in reg_put E p r (f v) S)"

text \<open>Waiting while all bits of a mask are still not clear.\<close>

partial_function (option) wait_clear :: "'w hba_env \<Rightarrow> ahci_port \<Rightarrow> u32 \<Rightarrow> 'w ahci \<Rightarrow> 'w ahci option" where
  "wait_clear E p bits S =
     (let (v, S) = reg_get E p PX_CMD S in if v AND bits \<noteq> 0 then wait_clear E p bits S else Some S)"

text \<open>The loop of \<open>stop_cmd\<close>: the second read happens only if the first one found the bit clear.\<close>

partial_function (option) stop_wait :: "'w hba_env \<Rightarrow> ahci_port \<Rightarrow> 'w ahci \<Rightarrow> 'w ahci option" where
  "stop_wait E p S =
     (let (v, S) = reg_get E p PX_CMD S
      in if v AND HBA_PXCMD_FR \<noteq> 0 then stop_wait E p S
         else let (v, S) = reg_get E p PX_CMD S in if v AND HBA_PXCMD_CR \<noteq> 0 then stop_wait E p S else Some S)"

definition stop_cmd :: "'w hba_env \<Rightarrow> ahci_port \<Rightarrow> 'w ahci \<Rightarrow> 'w ahci option" where
  "stop_cmd E p S =
     (let S = reg_update E p PX_CMD (\<lambda>v. v AND NOT HBA_PXCMD_ST) S;
          S = reg_update E p PX_CMD (\<lambda>v. v AND NOT HBA_PXCMD_FRE) S
      in stop_wait E p S)"

definition start_cmd :: "'w hba_env \<Rightarrow> ahci_port \<Rightarrow> 'w ahci \<Rightarrow> 'w ahci option" where
  "start_cmd E p S = do {
     S \<leftarrow> wait_clear E p HBA_PXCMD_CR S;
     let S = reg_update E p PX_CMD (\<lambda>v. v OR HBA_PXCMD_FRE) S;
     Some (reg_update E p PX_CMD (\<lambda>v. v OR HBA_PXCMD_ST) S)
   }"

text \<open>The spin on the task file; the remaining number of spins is 0 if the device stayed busy.\<close>

fun busy_spin :: "'w hba_env \<Rightarrow> ahci_port \<Rightarrow> nat \<Rightarrow> 'w ahci \<Rightarrow> nat \<times> 'w ahci" where
  "busy_spin E p n S =
     (let (v, S) = reg_get E p PX_TFD S
      in if v AND 0x88 \<noteq> 0 \<and> n > 0 then busy_spin E p (n - 1) S else (n, S))"

declare busy_spin.simps [simp del]

fun free_slot_loop :: "'w hba_env \<Rightarrow> ahci_port \<Rightarrow> nat list \<Rightarrow> 'w ahci \<Rightarrow> nat option \<times> 'w ahci" where
  "free_slot_loop E p [] S = (None, S)"
| "free_slot_loop E p (i # slots) S =
     (let (sact, S) = reg_get E p PX_SACT S
      in if sact AND push_bit i 1 = 0 then
           let (ci, S) = reg_get E p PX_CI S
           in if ci AND push_bit i 1 = 0 then (Some i, S) else free_slot_loop E p slots S
         else free_slot_loop E p slots S)"

definition get_free_slot :: "'w hba_env \<Rightarrow> ahci_port \<Rightarrow> 'w ahci \<Rightarrow> nat option \<times> 'w ahci" where
  "get_free_slot E p S = free_slot_loop E p [0..<ap_max_slots p] S"

text \<open>Resetting the command engine when no slot is free.\<close>

definition reset_port :: "'w hba_env \<Rightarrow> ahci_port \<Rightarrow> 'w ahci \<Rightarrow> 'w ahci option" where
  "reset_port E p S = do {
     let S = reg_update E p PX_CMD (\<lambda>v. v AND NOT HBA_PXCMD_ST) S;
     let S = reg_update E p PX_CMD (\<lambda>v. v AND NOT HBA_PXCMD_FRE) S;
     S \<leftarrow> wait_clear E p (HBA_PXCMD_CR OR HBA_PXCMD_FR) S;
     let S = reg_put E p PX_CI 0 S;
     let S = reg_put E p PX_SACT 0 S;
     let S = reg_update E p PX_CMD (\<lambda>v. v OR HBA_PXCMD_FRE) S;
     Some (reg_update E p PX_CMD (\<lambda>v. v OR HBA_PXCMD_ST) S)
   }"

definition acquire_slot :: "'w hba_env \<Rightarrow> ahci_port \<Rightarrow> 'w ahci \<Rightarrow> (nat option \<times> 'w ahci) option" where
  "acquire_slot E p S =
     (let (slot, S) = get_free_slot E p S
      in case slot of
           Some s \<Rightarrow> Some (Some s, S)
         | None \<Rightarrow> do { S \<leftarrow> reset_port E p S; Some (get_free_slot E p S) })"

text \<open>Waiting for the command: done when no command is issued any more, failed on a task file error.\<close>

partial_function (option) await_command :: "'w hba_env \<Rightarrow> ahci_port \<Rightarrow> 'w ahci \<Rightarrow> (bool \<times> 'w ahci) option" where
  "await_command E p S =
     (let (ci, S) = reg_get E p PX_CI S
      in if ci = 0 then let (is, S) = reg_get E p PX_IS S in Some (is AND HBA_PXIS_TFES = 0, S)
         else
           let (is, S) = reg_get E p PX_IS S
           in if is AND HBA_PXIS_TFES \<noteq> 0 then Some (False, S) else await_command E p S)"

definition ctl_read :: "'w hba_env \<Rightarrow> nat \<Rightarrow> nat \<Rightarrow> 'w ahci \<Rightarrow> bytes option" where
  "ctl_read E a n S = vread (he_mmu E) (ah_ctl S) a n"

definition ctl_write :: "'w hba_env \<Rightarrow> nat \<Rightarrow> bytes \<Rightarrow> 'w ahci \<Rightarrow> 'w ahci option" where
  "ctl_write E a bytes S = map_option (\<lambda>C. S\<lparr>ah_ctl := C\<rparr>) (vwrite (he_mmu E) (ah_ctl S) a bytes)"

text \<open>Physical addresses the structures hold in two halves.\<close>

definition two_halves :: "u32 \<Rightarrow> u32 \<Rightarrow> nat option" where
  "two_halves low high = checked_add (unat low) (unat high * 2 ^ 32)"

definition read32 :: "'w hba_env \<Rightarrow> nat \<Rightarrow> 'w ahci \<Rightarrow> u32 option" where
  "read32 E a S = map_option (\<lambda>b. of_nat (le_value b)) (ctl_read E a 4 S)"

definition send_command :: "'w hba_env \<Rightarrow> ahci_port \<Rightarrow> ahci_command \<Rightarrow> 'w ahci \<Rightarrow> (bool \<times> 'w ahci) option" where
  "send_command E p cmd S = do {
     let S = reg_put E p PX_IS 0xFFFFFFFF S;
     let (spins, S) = busy_spin E p 1000000 S;
     if spins = 0 then Some (False, S)
     else do {
       (slot, S) \<leftarrow> acquire_slot E p S;
       case slot of
         None \<Rightarrow> Some (False, S)
       | Some slot \<Rightarrow> do {
           let (clb, S) = reg_get E p PX_CLB S;
           let (clbu, S) = reg_get E p PX_CLBU S;
           base \<leftarrow> two_halves clb clbu;
           let header = base + 32 * slot;
           flags \<leftarrow> ctl_read E header 1 S;
           S \<leftarrow> ctl_write E header [hdr_set_cfl 5 (hd flags)] S;
           flags \<leftarrow> ctl_read E header 1 S;
           S \<leftarrow> ctl_write E header [hdr_set_write_bit (ac_write cmd) (hd flags)] S;
           ctba \<leftarrow> read32 E (header + 8) S;
           ctbau \<leftarrow> read32 E (header + 12) S;
           table \<leftarrow> two_halves ctba ctbau;
           S \<leftarrow> ctl_write E table (replicate command_table_size 0) S;
           if \<not> ah_global S then Some (False, S)
           else do {
             (prdt_count, C) \<leftarrow> fill_prdt_entries (he_mmu E) table (ac_buffer_addr cmd) (unat (ac_data_byte_count cmd)) (ah_ctl S);
             let S = S\<lparr>ah_ctl := C\<rparr>;
             case prdt_count of
               None \<Rightarrow> Some (False, S)
             | Some prdt_count \<Rightarrow> do {
                 S \<leftarrow> ctl_write E (header + 2) (le16 (of_nat prdt_count)) S;
                 S \<leftarrow> ctl_write E table (take 16 (h2d_bytes (command_fis cmd))) S;
                 S \<leftarrow> ctl_write E (header + 4) (le16 0) S;
                 let S = reg_put E p PX_CI (push_bit slot 1) S;
                 await_command E p S
               }
           }
         }
     }
   }"

definition port_read :: "'w hba_env \<Rightarrow> ahci_port \<Rightarrow> nat \<Rightarrow> nat \<Rightarrow> nat \<Rightarrow> 'w ahci \<Rightarrow> (bool \<times> 'w ahci) option" where
  "port_read E p sector sector_count buffer S = send_command E p (read_command_of sector sector_count buffer) S"

definition port_write_sectors :: "'w hba_env \<Rightarrow> ahci_port \<Rightarrow> nat \<Rightarrow> nat \<Rightarrow> nat \<Rightarrow> 'w ahci \<Rightarrow> (bool \<times> 'w ahci) option" where
  "port_write_sectors E p sector sector_count buffer S =
     (if sector_count = 0 then Some (False, S) else send_command E p (write_command_of sector sector_count buffer) S)"

definition port_write_sector :: "'w hba_env \<Rightarrow> ahci_port \<Rightarrow> nat \<Rightarrow> nat \<Rightarrow> 'w ahci \<Rightarrow> (bool \<times> 'w ahci) option" where
  "port_write_sector E p sector buffer S = port_write_sectors E p sector 1 buffer S"

section \<open>Setting up a port\<close>

definition port_new :: "'w hba_env \<Rightarrow> nat \<Rightarrow> nat \<Rightarrow> 'w ahci \<Rightarrow> (ahci_port \<times> 'w ahci) option" where
  "port_new E port_address max_slots S =
     (if \<not> ah_global S then None
      else do {
        let frame = frame_from_address port_address;
        C \<leftarrow> mc_identity_map (he_mmu E) (ah_ctl S) frame frame WRITABLE;
        Some (\<lparr> ap_port_address = port_address, ap_max_slots = max_slots, ap_block_count = 0 \<rparr>, S\<lparr>ah_ctl := C\<rparr>)
      })"

text \<open>A fresh frame, mapped at its own address and cleared.\<close>

definition cleared_frame :: "'w hba_env \<Rightarrow> 'w ahci \<Rightarrow> (nat \<times> 'w ahci) option" where
  "cleared_frame E S = do {
     (frame, C) \<leftarrow> pf_falloc (ah_ctl S);
     frame \<leftarrow> frame;
     C \<leftarrow> mc_identity_map (he_mmu E) C frame frame WRITABLE;
     C \<leftarrow> vwrite (he_mmu E) C (frame_start_address frame) (replicate PAGE_SIZE 0);
     Some (frame_start_address frame, S\<lparr>ah_ctl := C\<rparr>)
   }"

fun init_headers :: "'w hba_env \<Rightarrow> nat \<Rightarrow> nat list \<Rightarrow> 'w ahci \<Rightarrow> 'w ahci option" where
  "init_headers E base [] S = Some S"
| "init_headers E base (i # slots) S = do {
     (addr, S) \<leftarrow> cleared_frame E S;
     let header = base + 32 * i;
     S \<leftarrow> ctl_write E (header + 2) (le16 (of_nat HBA_PRDT_ENTRY_COUNT)) S;
     S \<leftarrow> ctl_write E (header + 8) (le32 (of_nat addr)) S;
     S \<leftarrow> ctl_write E (header + 12) (le32 (of_nat (addr div 2 ^ 32))) S;
     init_headers E base slots S
   }"

definition port_init :: "'w hba_env \<Rightarrow> ahci_port \<Rightarrow> 'w ahci \<Rightarrow> 'w ahci option" where
  "port_init E p S = do {
     S \<leftarrow> stop_cmd E p S;
     let (_, S) = reg_get E p PX_SIG S;
     if \<not> ah_global S then None
     else do {
       (cl_base_addr, S) \<leftarrow> cleared_frame E S;
       let S = reg_put E p PX_CLB (of_nat cl_base_addr) S;
       let S = reg_put E p PX_CLBU (of_nat (cl_base_addr div 2 ^ 32)) S;
       (fis_base_addr, S) \<leftarrow> cleared_frame E S;
       let S = reg_put E p PX_FB (of_nat fis_base_addr) S;
       let S = reg_put E p PX_FBU (of_nat (fis_base_addr div 2 ^ 32)) S;
       let (clb, S) = reg_get E p PX_CLB S;
       let (clbu, S) = reg_get E p PX_CLBU S;
       base \<leftarrow> two_halves clb clbu;
       S \<leftarrow> init_headers E base [0..<32] S;
       start_cmd E p S
     }
   }"

text \<open>The number of blocks is in the words 60 and 61 of the answer, the low half first.\<close>

definition identify_block_count :: "bytes \<Rightarrow> u32" where
  "identify_block_count b =
     word_rotl 16 (of_nat (((unat (b ! 121) * 256 + unat (b ! 120)) * 256 + unat (b ! 123)) * 256 + unat (b ! 122)))"

definition ahci_identify :: "'w hba_env \<Rightarrow> ahci_port \<Rightarrow> 'w ahci \<Rightarrow> (bool \<times> ahci_port \<times> 'w ahci) option" where
  "ahci_identify E p S = do {
     let (buffer, d) = he_alloc E (ah_dev S);
     S \<leftarrow> ctl_write E buffer (replicate 512 0) (S\<lparr>ah_dev := d\<rparr>);
     (ok, S) \<leftarrow> send_command E p
       \<lparr> ac_buffer_addr = buffer, ac_data_byte_count = 512, ac_cmd = ATA_CMD_IDENTIFY, ac_control = 0, ac_lba = 0,
         ac_count = 0, ac_write = False, ac_is_lba_mode = False \<rparr> S;
     if \<not> ok then Some (False, p, S)
     else do {
       b \<leftarrow> ctl_read E buffer 512 S;
       Some (True, p\<lparr>ap_block_count := identify_block_count b\<rparr>, S)
     }
   }"

section \<open>Finding the ports\<close>

datatype ahci_device_type = NullDevice | SATA | SEMB | PM | SATAPI

definition device_type_of :: "u32 \<Rightarrow> u32 \<Rightarrow> ahci_device_type" where
  "device_type_of status sig =
     (let ipm = drop_bit 8 status AND 0x0F; det = status AND 0x0F
      in if det \<noteq> 3 \<or> ipm \<noteq> 1 then NullDevice
         else if sig = 0xEB140101 then SATAPI
         else if sig = 0xC33C0101 then SEMB
         else if sig = 0x96690101 then PM
         else SATA)"

text \<open>The signature is read only if a device is present.\<close>

definition check_port_type :: "'w hba_env \<Rightarrow> ahci_port \<Rightarrow> 'w ahci \<Rightarrow> ahci_device_type \<times> 'w ahci" where
  "check_port_type E p S =
     (let (status, S) = reg_get E p PX_SSTS S
      in if device_type_of status 0 = NullDevice then (NullDevice, S)
         else let (sig, S) = reg_get E p PX_SIG S in (device_type_of status sig, S))"

text \<open>
  The loop over the 32 ports: the bit mask is shifted at the end of a pass, which a port with another
  kind of device skips.
\<close>

fun probe_loop :: "'w hba_env \<Rightarrow> nat \<Rightarrow> nat \<Rightarrow> u32 \<Rightarrow> nat list \<Rightarrow> ahci_port list \<Rightarrow> 'w ahci \<Rightarrow> (ahci_port list \<times> 'w ahci) option" where
  "probe_loop E ports_base max_slots pi [] found S = Some (found, S)"
| "probe_loop E ports_base max_slots pi (i # is) found S =
     (if pi AND 1 \<noteq> 0 then
        let address = ports_base + 0x80 * i;
            (port_type, S) = check_port_type E \<lparr> ap_port_address = address, ap_max_slots = max_slots, ap_block_count = 0 \<rparr> S
        in if port_type \<noteq> SATA \<and> port_type \<noteq> SATAPI then probe_loop E ports_base max_slots pi is found S
           else do {
             (p, S) \<leftarrow> port_new E address max_slots S;
             S \<leftarrow> port_init E p S;
             (_, p, S) \<leftarrow> ahci_identify E p S;
             probe_loop E ports_base max_slots (drop_bit 1 pi) is (found @ [p]) S
           }
      else probe_loop E ports_base max_slots (drop_bit 1 pi) is found S)"

definition probe_ports :: "'w hba_env \<Rightarrow> nat \<Rightarrow> 'w ahci \<Rightarrow> (ahci_port list \<times> 'w ahci) option" where
  "probe_ports E abar S =
     (let hba = \<lparr> ap_port_address = abar, ap_max_slots = 0, ap_block_count = 0 \<rparr>;
          (pi, S) = reg_get E hba 0x0C S;
          (cap, S) = reg_get E hba 0x00 S
      in probe_loop E (abar + 0x100) (unat (cap AND 0x1F) + 1) pi [0..<32] [] S)"

section \<open>The sector a command names\<close>

text \<open>The 48-bit sector number a device takes from the structure.\<close>

definition fis_sector :: "fis_reg_h2d \<Rightarrow> nat" where
  "fis_sector f = unat (h2d_lba0 f) + 2 ^ 8 * unat (h2d_lba1 f) + 2 ^ 16 * unat (h2d_lba2 f)
     + 2 ^ 24 * unat (h2d_lba3 f) + 2 ^ 32 * unat (h2d_lba4 f) + 2 ^ 40 * unat (h2d_lba5 f)"

lemma unat_ucast_byte: "unat (ucast (drop_bit k (of_nat n :: u32)) :: u8) = n div 2 ^ k mod 2 ^ 8" if "k + 8 \<le> 32"
proof -
  have "unat (ucast (drop_bit k (of_nat n :: u32)) :: u8) = take_bit 8 (drop_bit k (take_bit 32 n))"
    by (simp add: unsigned_ucast_eq unsigned_drop_bit_eq unsigned_of_nat)
  also have "\<dots> = take_bit 8 (take_bit (32 - k) (drop_bit k n))" by (simp add: drop_bit_take_bit)
  also have "\<dots> = take_bit 8 (drop_bit k n)"
  proof -
    have "8 \<le> 32 - k" using that by linarith
    then show ?thesis by (simp add: min_def)
  qed
  also have "\<dots> = n div 2 ^ k mod 2 ^ 8" by (simp add: take_bit_eq_mod drop_bit_eq_div)
  finally show ?thesis .
qed

lemma command_fis_bytes:
  "unat (h2d_lba0 (command_fis cmd)) = ac_lba cmd mod 256"
  "unat (h2d_lba1 (command_fis cmd)) = ac_lba cmd div 2 ^ 8 mod 256"
  "unat (h2d_lba2 (command_fis cmd)) = ac_lba cmd div 2 ^ 16 mod 256"
  "unat (h2d_lba3 (command_fis cmd)) = ac_lba cmd div 2 ^ 32 mod 256"
  "unat (h2d_lba4 (command_fis cmd)) = ac_lba cmd div 2 ^ 32 div 2 ^ 8 mod 256"
  "unat (h2d_lba5 (command_fis cmd)) = ac_lba cmd div 2 ^ 32 div 2 ^ 16 mod 256"
  using unat_ucast_byte [of 0 "ac_lba cmd"] unat_ucast_byte [of 8 "ac_lba cmd"] unat_ucast_byte [of 16 "ac_lba cmd"]
    unat_ucast_byte [of 0 "ac_lba cmd div 2 ^ 32"] unat_ucast_byte [of 8 "ac_lba cmd div 2 ^ 32"] unat_ucast_byte [of 16 "ac_lba cmd div 2 ^ 32"]
  by (simp_all add: command_fis_def Let_def h2d_set_control_bit_def)

lemma low_bytes: "n mod 256 + 2 ^ 8 * (n div 2 ^ 8 mod 256) + 2 ^ 16 * (n div 2 ^ 16 mod 256) = n mod (2 ^ 24 :: nat)"
proof -
  have "n mod 2 ^ 24 = n mod 2 ^ 16 + 2 ^ 16 * (n div 2 ^ 16 mod 2 ^ 8)" using mod_mult2_eq [of n "2 ^ 16" "2 ^ 8"] by simp
  moreover have "n mod 2 ^ 16 = n mod 2 ^ 8 + 2 ^ 8 * (n div 2 ^ 8 mod 2 ^ 8)" using mod_mult2_eq [of n "2 ^ 8" "2 ^ 8"] by simp
  ultimately show ?thesis by simp
qed

text \<open>
  C37.  The sector a command names.  The 48-bit sector number in the structure sent to the device consists
  of the bits 0 to 23 and, right above them, the bits 32 to 55 of the sector the driver was asked for.  It
  is therefore the right sector exactly if the sector is below \<open>2^24\<close>; sector \<open>2^24\<close>, at 8 GiB, reads and
  writes sector 0.
\<close>

theorem command_sector:
  "fis_sector (command_fis cmd) = ac_lba cmd mod 2 ^ 24 + 2 ^ 24 * (ac_lba cmd div 2 ^ 32 mod 2 ^ 24)
   \<and> (ac_lba cmd < 2 ^ 48 \<longrightarrow> fis_sector (command_fis cmd) = ac_lba cmd \<longleftrightarrow> ac_lba cmd < 2 ^ 24)
   \<and> fis_sector (command_fis (write_command_of (2 ^ 24) n buffer)) = 0"
proof -
  have e: "fis_sector (command_fis c) = ac_lba c mod 2 ^ 24 + 2 ^ 24 * (ac_lba c div 2 ^ 32 mod 2 ^ 24)" for c
    using low_bytes [of "ac_lba c"] low_bytes [of "ac_lba c div 2 ^ 32"]
    by (simp add: fis_sector_def command_fis_bytes)
  let ?n = "ac_lba cmd"
  have "?n mod 2 ^ 24 + 2 ^ 24 * (?n div 2 ^ 32 mod 2 ^ 24) = ?n \<longleftrightarrow> ?n < 2 ^ 24" if n: "?n < 2 ^ 48"
  proof -
    have h: "?n div 2 ^ 32 mod 2 ^ 24 = ?n div 2 ^ 32" using n by (simp add: div_less_iff_less_mult)
    have s: "?n = ?n mod 2 ^ 24 + 2 ^ 24 * (?n div 2 ^ 24)" by simp
    have d: "?n div 2 ^ 32 = ?n div 2 ^ 24 div 2 ^ 8" by (simp add: div_mult2_eq [symmetric])
    have "?n mod 2 ^ 24 + 2 ^ 24 * (?n div 2 ^ 32) = ?n \<longleftrightarrow> ?n mod 2 ^ 24 + 2 ^ 24 * (?n div 2 ^ 32) = ?n mod 2 ^ 24 + 2 ^ 24 * (?n div 2 ^ 24)"
      using s by metis
    also have "\<dots> \<longleftrightarrow> ?n div 2 ^ 32 = ?n div 2 ^ 24" by (simp only: add_left_cancel mult_cancel1) simp
    also have "\<dots> \<longleftrightarrow> ?n div 2 ^ 24 = 0" unfolding d by (cases "?n div 2 ^ 24 = 0") (simp_all add: less_imp_neq)
    also have "\<dots> \<longleftrightarrow> ?n < 2 ^ 24" by (simp add: div_eq_0_iff)
    finally show ?thesis unfolding h .
  qed
  moreover have "fis_sector (command_fis (write_command_of (2 ^ 24) n buffer)) = 0" unfolding e by (simp add: write_command_of_def)
  ultimately show ?thesis using e by simp
qed

theorem command_sector_witness: "fis_sector (command_fis (read_command_of 0xABCDEF 1 0x1000)) = 0xABCDEF"
proof -
  have "ac_lba (read_command_of 0xABCDEF 1 0x1000) = 0xABCDEF" by (simp add: read_command_of_def)
  then show ?thesis using command_sector [of "read_command_of 0xABCDEF 1 0x1000"] by simp
qed

end
