(* ===== verification/Ahci_Dma.thy ===== *)
theory Ahci_Dma
  imports Ahci
begin

text \<open>
  The physical region descriptors of a transfer: what the disk controller reads and writes in physical
  memory is exactly the buffer of the caller.
\<close>

section \<open>The interface the descriptor loops rely on\<close>

text \<open>
  The loops need two operations of the memory controller: the translation of an address, which may
  move internal mappings but changes no translation of the buffer's pages and no descriptor, and the
  write of a descriptor, which changes that descriptor only.
\<close>

definition bytes_of :: "(nat \<Rightarrow> nat) \<Rightarrow> nat \<Rightarrow> nat" where
  "bytes_of frame_of a = frame_of (a div 4096) * 4096 + a mod 4096"

definition span_pages :: "nat \<Rightarrow> nat \<Rightarrow> nat" where
  "span_pages virt n = (virt + n - 1) div 4096 - virt div 4096 + 1"

text \<open>The addresses that the descriptors \<open>i\<close> to \<open>m - 1\<close> name, in order.\<close>

definition covered :: "(nat \<Rightarrow> nat \<times> nat) \<Rightarrow> nat \<Rightarrow> nat \<Rightarrow> nat list" where
  "covered e i m = concat (map (\<lambda>j. [fst (e j)..<fst (e j) + snd (e j)]) [i..<m])"

locale dma_space =
  fixes translate :: "nat \<Rightarrow> 'c \<Rightarrow> (nat option \<times> 'c) option"
    and put :: "nat \<Rightarrow> nat \<Rightarrow> nat \<Rightarrow> bool \<Rightarrow> 'c \<Rightarrow> 'c option"
    and ready :: "'c \<Rightarrow> bool"
    and frame_of :: "nat \<Rightarrow> nat"
    and pages :: "nat set"
    and entry :: "'c \<Rightarrow> nat \<Rightarrow> nat \<times> nat"
  assumes translate_ready: "ready c \<Longrightarrow> a div 4096 \<in> pages \<Longrightarrow>
      \<exists>c'. translate a c = Some (Some (frame_of (a div 4096)), c') \<and> ready c' \<and> (\<forall>j < 128. entry c' j = entry c j)"
    and put_ready: "ready c \<Longrightarrow> i < 128 \<Longrightarrow> base < 2 ^ 52 \<Longrightarrow> 0 < n \<Longrightarrow> n \<le> HBA_PRDT_MAX_BYTE_COUNT \<Longrightarrow>
      \<exists>c'. put i base n final c = Some c' \<and> ready c' \<and> entry c' i = (base, n) \<and> (\<forall>j < 128. j \<noteq> i \<longrightarrow> entry c' j = entry c j)"
    and frame_bound: "ready c \<Longrightarrow> p \<in> pages \<Longrightarrow> frame_of p < 2 ^ 40"
begin

text \<open>The inner loop extends an entry over the bytes that follow each other in physical memory.\<close>

lemma extend_correct:
  assumes "ready c" "0 < n" "k < HBA_PRDT_MAX_BYTE_COUNT" "virt + n < usize_bound"
    and "\<forall>a. virt \<le> a \<and> a < virt + n \<longrightarrow> a div 4096 \<in> pages"
    and "k = 0 \<longrightarrow> base = bytes_of frame_of virt"
    and "0 < k \<longrightarrow> virt mod 4096 = 0"
  shows "\<exists>d c'. prdt_extend translate base k virt n c = Some (Some (k + d, virt + d, n - d), c') \<and> ready c'
    \<and> (\<forall>j < 128. entry c' j = entry c j) \<and> d \<le> n \<and> k + d \<le> HBA_PRDT_MAX_BYTE_COUNT \<and> 0 < k + d
    \<and> (d = n \<or> 0 < k \<or> (virt + d) div 4096 > virt div 4096)
    \<and> (\<forall>i < d. bytes_of frame_of (virt + i) = base + k + i)"
  using assms
proof (induction n arbitrary: c k virt rule: less_induct)
  case (less n)
  let ?p = "virt div 4096" and ?o = "virt mod 4096"
  let ?phys = "bytes_of frame_of virt"
  have "?p \<in> pages" using less.prems(2,5) by auto
  from translate_ready [OF less.prems(1) this] obtain c1 where c1: "translate virt c = Some (Some (frame_of ?p), c1)" "ready c1"
      "\<forall>j < 128. entry c1 j = entry c j" by blast
  have phys: "frame_start_address (frame_of ?p) + virt mod PAGE_SIZE = ?phys"
    by (simp add: bytes_of_def frame_start_address_def PAGE_SIZE_def)
  show ?case
  proof (cases "0 < k \<and> ?phys \<noteq> base + k")
    case True
    have "prdt_extend translate base k virt n c = Some (Some (k, virt, n), c1)"
      using c1(1) True phys by (subst prdt_extend.simps) (simp add: Let_def)
    then show ?thesis using c1 True less.prems(3) by (intro exI [of _ 0] exI [of _ c1]) simp
  next
    case False
    then have base: "?phys = base + k" using less.prems(6) by auto
    define d where "d = min n (min (4096 - ?o) (HBA_PRDT_MAX_BYTE_COUNT - k))"
    have d: "0 < d" "d \<le> n" "d \<le> 4096 - ?o" "k + d \<le> HBA_PRDT_MAX_BYTE_COUNT" using less.prems(2,3) by (auto simp: d_def)
    have same: "bytes_of frame_of (virt + i) = base + k + i" if "i < d" for i
    proof -
      have "?o + i < 4096" using that d(3) by linarith
      moreover have "virt + i = ?p * 4096 + (?o + i)" by simp
      ultimately have "(virt + i) div 4096 = ?p" "(virt + i) mod 4096 = ?o + i"
        by (metis div_mult_self3 div_less add.right_neutral zero_neq_numeral, metis mod_mult_self3 mod_less)
      then show ?thesis using base by (simp add: bytes_of_def)
    qed
    let ?stop = "n - d = 0 \<or> k + d = HBA_PRDT_MAX_BYTE_COUNT"
    have step: "prdt_extend translate base k virt n c =
        (if ?stop then Some (Some (k + d, virt + d, n - d), c1) else prdt_extend translate base (k + d) (virt + d) (n - d) c1)"
    proof -
      have chunk: "min n (min (PAGE_SIZE - virt mod PAGE_SIZE) (HBA_PRDT_MAX_BYTE_COUNT - k)) = d" by (simp add: d_def PAGE_SIZE_def)
      have "checked_sub HBA_PRDT_MAX_BYTE_COUNT k = Some (HBA_PRDT_MAX_BYTE_COUNT - k)" using less.prems(3) by (simp add: checked_sub_def)
      moreover have "checked_add virt d = Some (virt + d)" using less.prems(4) d(2) by (simp add: checked_add_def)
      ultimately show ?thesis
        using c1(1) False phys
        by (subst prdt_extend.simps) (simp only: Let_def bind.bind_lunit prod.case option.case chunk if_False)
    qed
    show ?thesis
    proof (cases ?stop)
      case True
      have "d = n \<or> 0 < k \<or> (virt + d) div 4096 > ?p"
      proof (cases "n - d = 0 \<or> 0 < k")
        case False
        then have "d = HBA_PRDT_MAX_BYTE_COUNT" using True by simp
        then show ?thesis using d(3) by (simp add: HBA_PRDT_MAX_BYTE_COUNT_def)
      qed (use d(2) in auto)
      then show ?thesis using step True c1 d same by (intro exI [of _ d] exI [of _ c1]) auto
    next
      case go: False
      then have "d = 4096 - ?o" using d by (auto simp: d_def min_def split: if_splits)
      then have al: "(virt + d) mod 4096 = 0" "(virt + d) div 4096 > ?p"
      proof -
        assume "d = 4096 - ?o"
        moreover have "4096 * ?p + ?o = virt" "?o \<le> 4096" by (simp, rule less_imp_le, simp)
        ultimately have "virt + d = 4096 * ?p + (?o + (4096 - ?o))" by linarith
        moreover have "?o + (4096 - ?o) = 4096" using \<open>?o \<le> 4096\<close> by simp
        ultimately have "virt + d = 4096 * (?p + 1)" by simp
        then show "(virt + d) mod 4096 = 0" "(virt + d) div 4096 > ?p" by simp_all
      qed
      have "\<exists>e c'. prdt_extend translate base (k + d) (virt + d) (n - d) c1 = Some (Some (k + d + e, virt + d + e, n - d - e), c')
          \<and> ready c' \<and> (\<forall>j < 128. entry c' j = entry c1 j) \<and> e \<le> n - d \<and> k + d + e \<le> HBA_PRDT_MAX_BYTE_COUNT \<and> 0 < k + d + e
          \<and> (e = n - d \<or> 0 < k + d \<or> (virt + d + e) div 4096 > (virt + d) div 4096)
          \<and> (\<forall>i < e. bytes_of frame_of (virt + d + i) = base + (k + d) + i)"
        using go d less.prems al by (intro less.IH) (auto simp: c1(2))
      then obtain e c' where e: "prdt_extend translate base (k + d) (virt + d) (n - d) c1 = Some (Some (k + d + e, virt + d + e, n - d - e), c')"
          "ready c'" "\<forall>j < 128. entry c' j = entry c1 j" "e \<le> n - d" "k + d + e \<le> HBA_PRDT_MAX_BYTE_COUNT"
          "\<forall>i < e. bytes_of frame_of (virt + d + i) = base + (k + d) + i" by blast
      have all: "bytes_of frame_of (virt + i) = base + k + i" if "i < d + e" for i
      proof (cases "i < d")
        case False
        then have "i - d < e" "virt + d + (i - d) = virt + i" "base + (k + d) + (i - d) = base + k + i" using that by auto
        then show ?thesis using e(6) by metis
      qed (rule same)
      have "(virt + (d + e)) div 4096 > ?p"
        using al(2) div_le_mono [of "virt + d" "virt + (d + e)" 4096] by simp
      then show ?thesis
        using step go e c1(3) d(1,2) all by (intro exI [of _ "d + e"] exI [of _ c']) (simp add: add.assoc)
    qed
  qed
qed

lemma loop_correct:
  assumes "ready c" "virt + n < usize_bound" "\<forall>a. virt \<le> a \<and> a < virt + n \<longrightarrow> a div 4096 \<in> pages"
    and "i + (if n = 0 then 0 else span_pages virt n) \<le> 128"
  shows "\<exists>m c'. prdt_loop translate put i virt n c = Some (Some m, c') \<and> ready c' \<and> i \<le> m \<and> m \<le> 128
    \<and> (\<forall>j < i. entry c' j = entry c j) \<and> covered (entry c') i m = map (bytes_of frame_of) [virt..<virt + n]"
  using assms
proof (induction n arbitrary: c i virt rule: less_induct)
  case (less n)
  show ?case
  proof (cases "n = 0")
    case True
    then have "prdt_loop translate put i virt n c = Some (Some i, c)" by (subst prdt_loop.simps) simp
    then show ?thesis using True less.prems by (intro exI [of _ i] exI [of _ c]) (simp add: covered_def)
  next
    case False
    let ?base = "bytes_of frame_of virt"
    have span: "i + span_pages virt n \<le> 128" "i < 128" using less.prems(4) False by (auto simp: span_pages_def)
    have p: "virt div 4096 \<in> pages" using less.prems(3) False by simp
    from translate_ready [OF less.prems(1) p] obtain c1 where c1: "translate virt c = Some (Some (frame_of (virt div 4096)), c1)" "ready c1"
        "\<forall>j < 128. entry c1 j = entry c j" by blast
    have base: "frame_start_address (frame_of (virt div 4096)) + virt mod PAGE_SIZE = ?base"
      by (simp add: bytes_of_def frame_start_address_def PAGE_SIZE_def)
    obtain d c2 where x: "prdt_extend translate ?base 0 virt n c1 = Some (Some (d, virt + d, n - d), c2)" "ready c2"
        "\<forall>j < 128. entry c2 j = entry c1 j" "d \<le> n" "d \<le> HBA_PRDT_MAX_BYTE_COUNT" "0 < d"
        "d = n \<or> (virt + d) div 4096 > virt div 4096" "\<forall>t < d. bytes_of frame_of (virt + t) = ?base + t"
      using extend_correct [OF c1(2), of n 0 virt ?base] False less.prems(2,3) by (auto simp: HBA_PRDT_MAX_BYTE_COUNT_def)
    have "?base < 2 ^ 52"
    proof -
      have "virt mod 4096 < 4096" "frame_of (virt div 4096) + 1 \<le> 2 ^ 40" using frame_bound [OF less.prems(1) p] by simp_all
      then show ?thesis by (simp add: bytes_of_def)
    qed
    from put_ready [OF x(2) span(2) this x(6,5), of "n - d = 0"] obtain c3 where
      c3: "put i ?base d (n - d = 0) c2 = Some c3" "ready c3" "entry c3 i = (?base, d)" "\<forall>j < 128. j \<noteq> i \<longrightarrow> entry c3 j = entry c2 j"
      by blast
    have step: "prdt_loop translate put i virt n c = prdt_loop translate put (i + 1) (virt + d) (n - d) c3"
      using c1(1) x(1) c3(1) span(2) False base
      by (subst prdt_loop.simps) (simp add: Let_def HBA_PRDT_ENTRY_COUNT_def)
    have room: "i + 1 + (if n - d = 0 then 0 else span_pages (virt + d) (n - d)) \<le> 128"
    proof (cases "n - d = 0")
      case go: False
      then have v: "(virt + d) div 4096 > virt div 4096" using x(7) by auto
      have "(virt + d + (n - d) - 1) = virt + n - 1" using x(4) by simp
      moreover have "(virt + d) div 4096 \<le> (virt + n - 1) div 4096" using go by (intro div_le_mono) simp
      ultimately show ?thesis using span(1) go v unfolding span_pages_def by simp linarith
    qed (use span in simp)
    obtain m c' where m: "prdt_loop translate put (i + 1) (virt + d) (n - d) c3 = Some (Some m, c')" "ready c'" "i + 1 \<le> m" "m \<le> 128"
        "\<forall>j < i + 1. entry c' j = entry c3 j" "covered (entry c') (i + 1) m = map (bytes_of frame_of) [virt + d..<virt + d + (n - d)]"
      using less.IH [of "n - d" c3 "virt + d" "i + 1"] x(4,6) c3(2) less.prems(2,3) False room by auto
    have "[?base..<?base + d] = map (bytes_of frame_of) [virt..<virt + d]"
      using x(8) by (intro nth_equalityI) simp_all
    moreover have "covered (entry c') i m = [fst (entry c' i)..<fst (entry c' i) + snd (entry c' i)] @ covered (entry c') (i + 1) m"
      using m(3) by (simp add: covered_def upt_conv_Cons)
    moreover have "entry c' i = (?base, d)" using m(5) c3(3) by simp
    moreover have "[virt..<virt + n] = [virt..<virt + d] @ [virt + d..<virt + d + (n - d)]"
      using x(4) upt_add_eq_append [of virt "virt + d" "n - d"] by simp
    ultimately have "covered (entry c') i m = map (bytes_of frame_of) [virt..<virt + n]" using m(6) by simp
    moreover have "\<forall>j < i. entry c' j = entry c j" using m(5) c3(4) x(3) c1(3) span(2) by simp
    ultimately show ?thesis using step m(1-4) by (intro exI [of _ m] exI [of _ c']) simp
  qed
qed

end

section \<open>Writes that stay inside one frame\<close>

definition only_frame :: "nat \<Rightarrow> memory \<Rightarrow> memory \<Rightarrow> bool" where
  "only_frame f m m' \<longleftrightarrow> (\<forall>x. x div 4096 \<noteq> f \<longrightarrow> m' x = m x)"

lemma only_frame_write: "off + length bytes \<le> 4096 \<Longrightarrow> only_frame f m (mem_write m (f * 4096 + off) bytes)"
proof -
  assume b: "off + length bytes \<le> 4096"
  have "x div 4096 = f" if "f * 4096 + off \<le> x" "x < f * 4096 + off + length bytes" for x
    using that b by (intro div_nat_eqI) simp_all
  then show ?thesis by (auto simp: only_frame_def mem_write_def)
qed

lemma pte_at_only_frame:
  assumes "only_frame f m m'" "g \<noteq> f" "i < 512"
  shows "pte_at m' g i = pte_at m g i"
proof -
  have "(g * 4096 + 8 * i + k) div 4096 = g" if "k < 8" for k using assms(3) that by (intro div_nat_eqI) simp_all
  then have "mem_read m' (g * 4096 + 8 * i) 8 = mem_read m (g * 4096 + 8 * i) 8"
    using assms(1,2) by (intro nth_equalityI) (simp_all add: only_frame_def)
  then show ?thesis by (simp add: pte_at_def)
qed

lemma walk_only_frame:
  assumes "only_frame f m m'" "f \<notin> fst ` set (walk_words m r is)" "\<forall>j \<in> set is. j < 512"
  shows "walk_table m' r is = walk_table m r is \<and> walk_words m' r is = walk_words m r is"
  using assms(2,3)
proof (induction "is" arbitrary: r)
  case (Cons j js)
  have "pte_at m' r j = pte_at m r j" using Cons.prems by (intro pte_at_only_frame [OF assms(1)]) auto
  then show ?case using Cons by (auto split: option.splits Option.bind_splits)
qed simp

lemma only_frame_walks:
  assumes "only_frame f m m'" "f \<notin> fst ` set (walk_words m r (all_indices p))"
  shows "hw_walk m' r p = hw_walk m r p" "walk_words m' r (all_indices p) = walk_words m r (all_indices p)"
    "small_pages m' r p = small_pages m r p" "pml1_frame m' r p = pml1_frame m r p"
    "walk_words m' r (upper_indices p) = walk_words m r (upper_indices p)"
proof -
  have u: "f \<notin> fst ` set (walk_words m r (upper_indices p))" using assms(2) upper_words_subset by blast
  note a = walk_only_frame [OF assms] and b = walk_only_frame [OF assms(1) u]
  show "hw_walk m' r p = hw_walk m r p" "walk_words m' r (all_indices p) = walk_words m r (all_indices p)"
    using a indices_less(2) unfolding hw_walk_def by blast+
  show "pml1_frame m' r p = pml1_frame m r p" and w: "walk_words m' r (upper_indices p) = walk_words m r (upper_indices p)"
    using b indices_less(1) unfolding pml1_frame_def by blast+
  have "pte_at m' g j = pte_at m g j" if "(g, j) \<in> set (walk_words m r (upper_indices p))" for g j
    using that u words_index [OF that] indices_less(1) by (intro pte_at_only_frame [OF assms(1)]) force+
  then show "small_pages m' r p = small_pages m r p" unfolding small_pages_def w by fastforce
qed

section \<open>The state in which a transfer is described\<close>

text \<open>
  The frame \<open>f\<close> holds the command table, which the kernel reaches at \<open>table\<close>; it is none of the page
  tables.  The pages of the buffer are mapped by the active table, whose top is in frame \<open>r\<close>.
\<close>

definition off_tables :: "'a controller \<Rightarrow> nat \<Rightarrow> nat \<Rightarrow> nat \<Rightarrow> bool" where
  "off_tables C f root p \<longleftrightarrow> f \<notin> fst ` set (walk_words (pg_phys C) root (all_indices p))"

definition table_mapped :: "'a controller \<Rightarrow> nat \<Rightarrow> nat \<Rightarrow> nat \<Rightarrow> bool" where
  "table_mapped C w table f \<longleftrightarrow> table mod 4096 = 0 \<and> table div 4096 < 2 ^ 35
     \<and> hw_walk (pg_phys C) (pg_cr3 C) (table div 4096) = Some f \<and> small_pages (pg_phys C) (pg_cr3 C) (table div 4096)
     \<and> (w, p1_index (temp_page C)) \<notin> set (walk_words (pg_phys C) (pg_cr3 C) (all_indices (table div 4096)))
     \<and> off_tables C f (pg_cr3 C) (table div 4096)"

definition dma_ready :: "mmu \<Rightarrow> nat \<Rightarrow> nat \<Rightarrow> nat \<Rightarrow> nat \<Rightarrow> (nat \<Rightarrow> nat) \<Rightarrow> nat set \<Rightarrow> 'a controller \<Rightarrow> bool" where
  "dma_ready mmu w r table f frame_of pages C \<longleftrightarrow>
     walks_four_levels mmu \<and> window C w \<and> reaches C w (mc_active_table C) r \<and> table_mapped C w table f \<and> f \<noteq> w
     \<and> off_tables C f (pg_cr3 C) (temp_page C) \<and> off_tables C f (pg_cr3 C) (entry_page C)
     \<and> off_tables C f (pg_cr3 C) (mc_active_table C div 4096)
     \<and> (\<forall>p \<in> pages. hw_walk (pg_phys C) r p = Some (frame_of p) \<and> off_tables C f r p
          \<and> (w, p1_index (temp_page C)) \<notin> set (walk_words (pg_phys C) r (all_indices p)))"

definition prdt_entry_at :: "memory \<Rightarrow> nat \<Rightarrow> nat \<Rightarrow> nat \<times> nat" where
  "prdt_entry_at m f j =
     (let e = prdt_entry_of (mem_read m (f * 4096 + 128 + 16 * j) 16)
      in (unat (pe_data_base_address e) + 2 ^ 32 * unat (pe_data_base_address_upper e), unat (get_data_byte_count e) + 1))"

lemma phys_of_table:
  assumes "walks_four_levels mmu" "table_mapped C w table f" "off < 4096"
  shows "phys_of mmu C (table + off) = Some (f * 4096 + off)"
proof -
  obtain k where k: "table = 4096 * k" using assms(2) by (auto simp: table_mapped_def)
  have "(table + off) div 4096 = table div 4096" "(table + off) mod 4096 = off" using assms(3) by (simp_all add: k)
  moreover have "mmu (pg_phys C) (pg_cr3 C) (table div 4096) = Some f"
    using assms(1,2) by (simp add: walks_four_levels_def table_mapped_def)
  ultimately show ?thesis by (simp add: phys_of_def)
qed

lemma table_mapped_only_frame:
  assumes "table_mapped C w table f" "only_frame f (pg_phys C) m"
  shows "table_mapped (C\<lparr>pg_phys := m\<rparr>) w table f"
  using assms only_frame_walks [OF assms(2)] by (simp add: table_mapped_def off_tables_def temp_page_def)

lemma vread_table:
  assumes "walks_four_levels mmu" "table_mapped C w table f"
  shows "off + n \<le> 4096 \<Longrightarrow> vread mmu C (table + off) n = Some (mem_read (pg_phys C) (f * 4096 + off) n)"
proof (induction n arbitrary: off)
  case (Suc n)
  have "mem_read (pg_phys C) (f * 4096 + off) (Suc n) = pg_phys C (f * 4096 + off) # mem_read (pg_phys C) (f * 4096 + (off + 1)) n"
    by (rule nth_equalityI) (auto simp: nth_Cons' simp flip: add.assoc)
  then show ?case using Suc.IH [of "off + 1"] Suc.prems phys_of_table [OF assms, of off] by simp
qed (simp add: mem_read_def)

lemma mem_write_Cons: "mem_write (m(a := b)) (a + 1) bytes = mem_write m a (b # bytes)"
  by (rule ext) (auto simp: mem_write_def nth_Cons')

lemma vwrite_table:
  assumes "walks_four_levels mmu"
  shows "table_mapped C w table f \<Longrightarrow> off + length bytes \<le> 4096 \<Longrightarrow>
    vwrite mmu C (table + off) bytes = Some (C\<lparr>pg_phys := mem_write (pg_phys C) (f * 4096 + off) bytes\<rparr>)"
proof (induction bytes arbitrary: C off)
  case (Cons b bytes)
  let ?m = "(pg_phys C)(f * 4096 + off := b)"
  have "only_frame f (pg_phys C) ?m"
    using only_frame_write [of off "[b]" f "pg_phys C"] mem_write_Cons [of "pg_phys C" "f * 4096 + off" b "[]"] Cons.prems(2) by simp
  then have "table_mapped (C\<lparr>pg_phys := ?m\<rparr>) w table f" by (rule table_mapped_only_frame [OF Cons.prems(1)])
  from Cons.IH [OF this, of "off + 1"] Cons.prems(2) show ?case
    using phys_of_table [OF assms Cons.prems(1), of off] mem_write_Cons [of "pg_phys C" "f * 4096 + off" b bytes]
    by (simp add: add.assoc fun_upd_def)
qed simp

lemma dma_ready_only_frame:
  assumes d: "dma_ready mmu w r table f frame_of pages C" and m: "only_frame f (pg_phys C) m"
  shows "dma_ready mmu w r table f frame_of pages (C\<lparr>pg_phys := m\<rparr>)"
proof -
  let ?C = "C\<lparr>pg_phys := m\<rparr>"
  have pages: "temp_page ?C = temp_page C" "entry_page ?C = entry_page C" by (simp_all add: temp_page_def entry_page_def)
  note s = only_frame_walks [OF m]
  have "window ?C w"
    using d s unfolding dma_ready_def window_def Let_def off_tables_def pages by (simp add: pages)
  moreover have "reaches ?C w (mc_active_table C) r"
    using d s unfolding dma_ready_def reaches_def Let_def off_tables_def pages by (simp add: pages)
  moreover have "table_mapped ?C w table f" using d m by (intro table_mapped_only_frame) (simp_all add: dma_ready_def)
  ultimately show ?thesis using d s unfolding dma_ready_def off_tables_def pages by (simp add: pages)
qed

lemma dma_ready_moved:
  assumes d: "dma_ready mmu w r table f frame_of pages C" and t: "temp_moved C w C'"
  shows "dma_ready mmu w r table f frame_of pages C'" "j < 128 \<Longrightarrow> prdt_entry_at (pg_phys C') f j = prdt_entry_at (pg_phys C) f j"
proof -
  have w: "window C w" and fw: "f \<noteq> w" using d by (simp_all add: dma_ready_def)
  have tw: "(w, p1_index (temp_page C)) \<notin> set (walk_words (pg_phys C) (pg_cr3 C) (upper_indices (temp_page C)))"
    and te: "(w, p1_index (temp_page C)) \<notin> set (walk_words (pg_phys C) (pg_cr3 C) (all_indices (entry_page C)))"
    and ta: "(w, p1_index (temp_page C)) \<notin> set (walk_words (pg_phys C) (pg_cr3 C) (all_indices (mc_active_table C div 4096)))"
    and tt: "(w, p1_index (temp_page C)) \<notin> set (walk_words (pg_phys C) (pg_cr3 C) (all_indices (table div 4096)))"
    using d by (simp_all add: dma_ready_def window_def reaches_def table_mapped_def Let_def)
  have r: "dma_ready mmu w r table f frame_of pages (retarget C w g)
      \<and> (j < 128 \<longrightarrow> prdt_entry_at (pg_phys (retarget C w g)) f j = prdt_entry_at (pg_phys C) f j)" for g
  proof
    have all: "walk_words m c (all_indices p) = walk_words m c (upper_indices p)
        @ (case pml1_frame m c p of None \<Rightarrow> [] | Some h \<Rightarrow> [(h, p1_index p)])" for m c p
      by (simp add: all_indices_def upper_indices_def pml1_frame_def split: option.split)
    have temp: "walk_words (pg_phys (retarget C w g)) (pg_cr3 C) (all_indices (temp_page C)) = walk_words (pg_phys C) (pg_cr3 C) (all_indices (temp_page C))"
      unfolding all upper_retarget(1,2) [OF tw] ..
    have "mc_active_table (retarget C w g) = mc_active_table C" by (simp add: retarget_def)
    then show "dma_ready mmu w r table f frame_of pages (retarget C w g)"
      using d window_retarget [OF w] walk_retarget [OF te] walk_retarget [OF ta] walk_retarget [OF tt] temp
      by (auto simp: dma_ready_def off_tables_def table_mapped_def walk_retarget reaches_retarget)
    show "j < 128 \<longrightarrow> prdt_entry_at (pg_phys (retarget C w g)) f j = prdt_entry_at (pg_phys C) f j"
    proof
      assume j: "j < 128"
      have "w * 4096 + 8 * p1_index (temp_page C) + 8 \<le> f * 4096 + 128 + 16 * j
          \<or> f * 4096 + 128 + 16 * j + 16 \<le> w * 4096 + 8 * p1_index (temp_page C)"
      proof (cases f w rule: linorder_cases)
        case less
        then have "f + 1 \<le> w" by simp
        then show ?thesis using j by linarith
      next
        case greater
        then have "w + 1 \<le> f" by simp
        then show ?thesis using page_index_less(4) [of "temp_page C"] by linarith
      qed (use fw in simp)
      then have "mem_read (pg_phys (retarget C w g)) (f * 4096 + 128 + 16 * j) 16 = mem_read (pg_phys C) (f * 4096 + 128 + 16 * j) 16"
        unfolding pg_phys_retarget set_pte_def by (intro mem_read_write_other) auto
      then show "prdt_entry_at (pg_phys (retarget C w g)) f j = prdt_entry_at (pg_phys C) f j" by (simp add: prdt_entry_at_def)
    qed
  qed
  then show "dma_ready mmu w r table f frame_of pages C'" "j < 128 \<Longrightarrow> prdt_entry_at (pg_phys C') f j = prdt_entry_at (pg_phys C) f j"
    using t d by (auto simp: temp_moved_def)
qed

section \<open>Descriptors\<close>

lemma length_prdt_entry_bytes [simp]: "length (prdt_entry_bytes e) = 16"
  by (simp add: prdt_entry_bytes_def layout)

lemma prdt_entry_roundtrip: "prdt_entry_of (prdt_entry_bytes e) = e"
  by (simp add: prdt_entry_of_def prdt_entry_bytes_def le32_def)

lemma byte_count_written:
  "n < 2 ^ 22 \<Longrightarrow> unat (get_data_byte_count (set_interrupt_on_completion b (set_data_byte_count (of_nat n) e))) = n"
proof -
  assume n: "n < 2 ^ 22"
  have m: "(0x003FFFFF :: u32) = mask 22" by (simp add: mask_eq_exp_minus_1)
  let ?x = "(pe_dbc_rsv1_i e AND NOT 0x003FFFFF) OR (of_nat n AND 0x003FFFFF)"
  have sel: "pe_dbc_rsv1_i (e'\<lparr>pe_dbc_rsv1_i := v\<rparr>) = v" for e' :: hba_prdt_entry and v by simp
  have x: "?x AND 0x003FFFFF = of_nat n AND 0x003FFFFF"
    by (rule bit_word_eqI) (auto simp: m bit_simps)
  have "(if b then ?x OR 0x80000000 else ?x AND NOT 0x80000000) AND 0x003FFFFF = ?x AND 0x003FFFFF"
  proof -
    have "(y OR 0x80000000) AND 0x003FFFFF = y AND 0x003FFFFF" for y :: u32
      by (simp only: bit.conj_disj_distrib2) simp
    moreover have "(y AND NOT 0x80000000) AND 0x003FFFFF = y AND 0x003FFFFF" for y :: u32
      by (simp only: and.assoc) simp
    ultimately show ?thesis by (cases b) (simp_all only: if_True if_False)
  qed
  then have "get_data_byte_count (set_interrupt_on_completion b (set_data_byte_count (of_nat n) e)) = of_nat n AND 0x003FFFFF"
    unfolding x get_data_byte_count_def set_interrupt_on_completion_def set_data_byte_count_def
    by (simp only: sel)
  moreover have "(of_nat n :: u32) AND 0x003FFFFF = of_nat n"
    unfolding m using n by (simp add: take_bit_eq_mask [symmetric] take_bit_of_nat take_bit_nat_eq_self)
  ultimately show ?thesis using n by (simp add: unsigned_of_nat take_bit_nat_eq_self)
qed

lemma halves_value: "base < 2 ^ 64 \<Longrightarrow> unat (of_nat base :: u32) + 2 ^ 32 * unat (of_nat (base div 2 ^ 32) :: u32) = base"
proof -
  assume "base < 2 ^ 64"
  then have "base div 2 ^ 32 < 2 ^ 32" by (simp add: div_less_iff_less_mult)
  then show ?thesis by (simp add: unsigned_of_nat take_bit_eq_mod)
qed

lemma put_prdt_entry_correct:
  assumes d: "dma_ready mmu w r table f frame_of pages C" and i: "i < 128" and base: "base < 2 ^ 52"
    and n: "0 < n" "n \<le> HBA_PRDT_MAX_BYTE_COUNT"
  obtains C' where "put_prdt_entry mmu table i base n final C = Some C'" "dma_ready mmu w r table f frame_of pages C'"
    "prdt_entry_at (pg_phys C') f i = (base, n)" "\<And>j. j < 128 \<Longrightarrow> j \<noteq> i \<Longrightarrow> prdt_entry_at (pg_phys C') f j = prdt_entry_at (pg_phys C) f j"
proof -
  have m: "walks_four_levels mmu" "table_mapped C w table f" using d by (simp_all add: dma_ready_def)
  let ?off = "128 + 16 * i"
  have off: "?off + 16 \<le> 4096" using i by simp
  let ?e = "set_interrupt_on_completion final (set_data_byte_count (of_nat (n - 1))
    ((prdt_entry_of (mem_read (pg_phys C) (f * 4096 + ?off) 16))\<lparr>pe_data_base_address := of_nat base, pe_data_base_address_upper := of_nat (base div 2 ^ 32)\<rparr>))"
  let ?m = "mem_write (pg_phys C) (f * 4096 + ?off) (prdt_entry_bytes ?e)"
  let ?C = "C\<lparr>pg_phys := ?m\<rparr>"
  have a: "table + 128 + 16 * i = table + ?off" by simp
  have p: "put_prdt_entry mmu table i base n final C = Some ?C"
    unfolding put_prdt_entry_def Let_def a vread_table [OF m off] bind.bind_lunit
    using vwrite_table [OF m, of ?off "prdt_entry_bytes ?e"] off by simp
  have "only_frame f (pg_phys C) ?m" using off by (intro only_frame_write) simp
  then have ready: "dma_ready mmu w r table f frame_of pages ?C" by (rule dma_ready_only_frame [OF d])
  have "prdt_entry_of (mem_read ?m (f * 4096 + ?off) 16) = ?e" by (simp add: prdt_entry_roundtrip)
  moreover have "pe_data_base_address ?e = of_nat base" "pe_data_base_address_upper ?e = of_nat (base div 2 ^ 32)"
    by (simp_all add: set_interrupt_on_completion_def set_data_byte_count_def)
  moreover have "unat (get_data_byte_count ?e) = n - 1" using n by (intro byte_count_written) (simp add: HBA_PRDT_MAX_BYTE_COUNT_def)
  ultimately have e: "prdt_entry_at ?m f i = (base, n)"
    using halves_value [of base] base n(1) by (simp add: prdt_entry_at_def Let_def add.assoc)
  have o: "prdt_entry_at ?m f j = prdt_entry_at (pg_phys C) f j" if "j \<noteq> i" for j
  proof -
    have "f * 4096 + 128 + 16 * j + 16 \<le> f * 4096 + ?off \<or> f * 4096 + ?off + 16 \<le> f * 4096 + 128 + 16 * j"
      using that by (cases i j rule: linorder_cases) auto
    then have "mem_read ?m (f * 4096 + 128 + 16 * j) 16 = mem_read (pg_phys C) (f * 4096 + 128 + 16 * j) 16"
      by (intro mem_read_write_other) simp
    then show ?thesis by (simp add: prdt_entry_at_def)
  qed
  show ?thesis using p ready e o by (intro that [of ?C]) simp_all
qed

interpretation prdt: dma_space "\<lambda>a C. mc_translate_to_physical mmu C a" "put_prdt_entry mmu table"
  "dma_ready mmu w r table f frame_of pages" frame_of pages "\<lambda>C. prdt_entry_at (pg_phys C) f"
  for mmu :: mmu and w r table f :: nat and frame_of :: "nat \<Rightarrow> nat" and pages :: "nat set"
proof
  fix C :: "'a controller" and a :: nat
  assume d: "dma_ready mmu w r table f frame_of pages C" and p: "a div 4096 \<in> pages"
  then have "\<exists>C'. translate_to_phys mmu C (mc_active_table C) a = Some (Some (frame_of (a div 4096)), C') \<and> temp_moved C w C'"
    using translate_walk [of mmu C w "mc_active_table C" r a] by (simp add: dma_ready_def)
  then show "\<exists>C'. mc_translate_to_physical mmu C a = Some (Some (frame_of (a div 4096)), C')
      \<and> dma_ready mmu w r table f frame_of pages C' \<and> (\<forall>j < 128. prdt_entry_at (pg_phys C') f j = prdt_entry_at (pg_phys C) f j)"
    using dma_ready_moved [OF d] by (auto simp: mc_translate_to_physical_def)
next
  fix C :: "'a controller" and i base n :: nat and final :: bool
  assume "dma_ready mmu w r table f frame_of pages C" "i < 128" "base < 2 ^ 52" "0 < n" "n \<le> HBA_PRDT_MAX_BYTE_COUNT"
  then show "\<exists>C'. put_prdt_entry mmu table i base n final C = Some C' \<and> dma_ready mmu w r table f frame_of pages C'
      \<and> prdt_entry_at (pg_phys C') f i = (base, n) \<and> (\<forall>j < 128. j \<noteq> i \<longrightarrow> prdt_entry_at (pg_phys C') f j = prdt_entry_at (pg_phys C) f j)"
    by (rule put_prdt_entry_correct [where final = final]) blast
next
  fix C :: "'a controller" and p :: nat
  assume "dma_ready mmu w r table f frame_of pages C" "p \<in> pages"
  then have "hw_walk (pg_phys C) r p = Some (frame_of p)" by (simp add: dma_ready_def)
  then show "frame_of p < 2 ^ 40" by (auto simp: hw_walk_pml1 dest: entry_frame_bound split: Option.bind_splits)
qed

section \<open>Properties\<close>

text \<open>
  C10.  A transfer touches exactly the buffer.  For a buffer that lies in mapped pages and touches at most
  128 of them, \<open>fill_prdt_entries\<close> succeeds, and the descriptors it leaves in the command table name,
  one after the other, exactly the physical bytes behind the virtual addresses of the buffer in order,
  however the pages are scattered; this holds although translating an address moves the temporary
  mapping and every descriptor is written to memory in between.
\<close>

theorem prdt_covers_buffer:
  assumes "dma_ready mmu w r table f frame_of pages C" "0 < n" "buffer + n < usize_bound"
    and "\<forall>a. buffer \<le> a \<and> a < buffer + n \<longrightarrow> a div 4096 \<in> pages" "span_pages buffer n \<le> 128"
  shows "\<exists>m C'. fill_prdt_entries mmu table buffer n C = Some (Some m, C') \<and> 0 < m \<and> m \<le> 128
    \<and> dma_ready mmu w r table f frame_of pages C'
    \<and> covered (prdt_entry_at (pg_phys C') f) 0 m = map (\<lambda>a. frame_of (a div 4096) * 4096 + a mod 4096) [buffer..<buffer + n]"
proof -
  obtain m C' where l: "prdt_loop (\<lambda>a C. mc_translate_to_physical mmu C a) (put_prdt_entry mmu table) 0 buffer n C = Some (Some m, C')"
      "dma_ready mmu w r table f frame_of pages C'" "m \<le> 128"
      "covered (prdt_entry_at (pg_phys C') f) 0 m = map (bytes_of frame_of) [buffer..<buffer + n]"
    using prdt.loop_correct [OF assms(1,3,4), of 0] assms(2,5) by auto
  have "0 < m" using l(4) assms(2) by (intro gr0I) (auto simp: covered_def)
  moreover have "map (bytes_of frame_of) [buffer..<buffer + n] = map (\<lambda>a. frame_of (a div 4096) * 4096 + a mod 4096) [buffer..<buffer + n]"
    by (simp add: bytes_of_def)
  ultimately show ?thesis using l assms(2) by (simp add: fill_prdt_entries_def)
qed

text \<open>An example: the command table in frame 9, behind page 7, and a buffer in the pages 1 and 5.\<close>

lemma demo_dma_ready:
  "dma_ready hw_walk 4 (Suc 0) 0x7000 9 (\<lambda>p. if p = 1 then 1 else 4) {1, 5} demo_controller"
proof -
  have "table_mapped demo_controller 4 0x7000 9"
    by (simp add: table_mapped_def off_tables_def demo_small demo_index demo_pte demo_entries hw_walk_def)
  moreover have "mc_active_table demo_controller = 0x1000" by (simp add: demo_controller_def)
  ultimately show ?thesis
    using hw_walk_walks demo_window demo_reaches
    by (simp add: dma_ready_def off_tables_def demo_index demo_pte demo_entries hw_walk_def)
qed

theorem prdt_covers_buffer_witness:
  "\<exists>m C'. fill_prdt_entries hw_walk 0x7000 0x5010 0x20 demo_controller = Some (Some m, C')
     \<and> covered (prdt_entry_at (pg_phys C') 9) 0 m = [0x4010..<0x4030]"
proof -
  have d: "a div 4096 = 5" if "0x5010 \<le> a" "a < 0x5030" for a :: nat using that by (intro div_nat_eqI) simp_all
  have m: "map (\<lambda>a. (if a div 4096 = 1 then 1 else 4) * 4096 + a mod 4096) [0x5010..<0x5010 + 0x20] = [0x4010..<0x4030 :: nat]"
  proof (rule nth_equalityI)
    fix i :: nat
    assume "i < length (map (\<lambda>a. (if a div 4096 = 1 then 1 else 4) * 4096 + a mod 4096) [0x5010..<0x5010 + 0x20 :: nat])"
    then have i: "i < 0x20" by simp
    have "(0x5010 + i) div 4096 = 5" using i by (intro d) simp_all
    moreover from this have "(0x5010 + i) mod 4096 = 0x10 + i" using div_mult_mod_eq [of "0x5010 + i" 4096] by linarith
    ultimately show "map (\<lambda>a. (if a div 4096 = 1 then 1 else 4) * 4096 + a mod 4096) [0x5010..<0x5010 + 0x20] ! i = [0x4010..<0x4030] ! i"
      using i by (simp del: upt_rec_numeral)
  qed simp
  have "\<forall>a. 0x5010 \<le> a \<and> a < 0x5010 + 0x20 \<longrightarrow> a div 4096 \<in> {1, 5 :: nat}" using d by simp
  moreover have "span_pages 0x5010 0x20 \<le> 128" by (simp add: span_pages_def)
  ultimately show ?thesis
    using prdt_covers_buffer [OF demo_dma_ready, of "0x20" "0x5010"] m by (auto simp: usize_bound_def simp del: upt_rec_numeral)
qed

end
