(* ===== verification/Ulib.thy ===== *)
theory Ulib
  imports Clock Elf_Loader "HOL-Library.Signed_Division"
begin

text \<open>
  The user library: the wrappers around the system calls, time values, directory entries and the
  access to the program arguments.

  A user program reaches the kernel through \<open>int 0x80\<close> only, so the kernel is a parameter of the
  programs: a function of the call number and of the arguments.  An argument is a plain register, a
  slice (a pointer and a length) that the kernel reads or fills, or a pointer to a fixed structure
  it reads or fills.  The answer is the value of \<open>rax\<close> with the bytes copied to the buffer of the
  caller.  User programs are built with the release profile, in which arithmetic wraps around.
\<close>

section \<open>System calls\<close>

datatype arg = Reg nat | Slice bytes | SliceMut nat | Ptr bytes | PtrMut nat

type_synonym 'w os = "nat \<Rightarrow> arg list \<Rightarrow> 'w \<Rightarrow> (nat \<times> bytes) \<times> 'w"

definition STDIN :: nat where "STDIN = 0"
definition STDOUT :: nat where "STDOUT = 1"
definition STDERR :: nat where "STDERR = 2"

definition SYS_WRITE :: nat where "SYS_WRITE = 2"
definition SYS_READ :: nat where "SYS_READ = 3"
definition SYS_EXECUTE :: nat where "SYS_EXECUTE = 4"
definition SYS_YIELD :: nat where "SYS_YIELD = 5"
definition SYS_WAIT_FOR_PROCESS :: nat where "SYS_WAIT_FOR_PROCESS = 6"
definition SYS_READ_DIR :: nat where "SYS_READ_DIR = 7"
definition SYS_CD :: nat where "SYS_CD = 8"
definition SYS_OPEN :: nat where "SYS_OPEN = 9"
definition SYS_CLOSE :: nat where "SYS_CLOSE = 10"
definition SYS_TRUNCATE :: nat where "SYS_TRUNCATE = 11"
definition SYS_CREATE :: nat where "SYS_CREATE = 12"
definition SYS_MKDIR :: nat where "SYS_MKDIR = 13"
definition SYS_UNLINK :: nat where "SYS_UNLINK = 14"
definition SYS_RMDIR :: nat where "SYS_RMDIR = 15"
definition SYS_CLOCK_GETTIME :: nat where "SYS_CLOCK_GETTIME = 16"
definition SYS_NANOSLEEP :: nat where "SYS_NANOSLEEP = 17"

definition ulib_write :: "'w os \<Rightarrow> nat \<Rightarrow> bytes \<Rightarrow> 'w \<Rightarrow> nat \<times> 'w" where
  "ulib_write sys fd bytes w = (let ((rax, _), w) = sys SYS_WRITE [Reg fd, Slice bytes] w in (rax, w))"

definition ulib_write_file :: "'w os \<Rightarrow> nat \<Rightarrow> bytes \<Rightarrow> 'w \<Rightarrow> nat \<times> 'w" where
  "ulib_write_file sys fd bytes w = ulib_write sys fd bytes w"

definition ulib_stdout :: "'w os \<Rightarrow> bytes \<Rightarrow> 'w \<Rightarrow> nat \<times> 'w" where
  "ulib_stdout sys bytes w = ulib_write sys STDOUT bytes w"

definition ulib_stderr :: "'w os \<Rightarrow> bytes \<Rightarrow> 'w \<Rightarrow> nat \<times> 'w" where
  "ulib_stderr sys bytes w = ulib_write sys STDERR bytes w"

text \<open>The result of \<open>read\<close> and the buffer afterwards: what the kernel copied lies at its start.\<close>

definition ulib_read :: "'w os \<Rightarrow> nat \<Rightarrow> bytes \<Rightarrow> 'w \<Rightarrow> (nat \<times> bytes) \<times> 'w" where
  "ulib_read sys fd buffer w =
     (let ((rax, out), w) = sys SYS_READ [Reg fd, SliceMut (length buffer)] w
      in ((rax, overwrite buffer 0 (take (length buffer) out)), w))"

definition ulib_read_stdin_char :: "'w os \<Rightarrow> 'w \<Rightarrow> u8 \<times> 'w" where
  "ulib_read_stdin_char sys w = (let ((rax, _), w) = sys SYS_READ [Reg STDIN] w in (of_nat rax, w))"

definition ulib_execute :: "'w os \<Rightarrow> bytes \<Rightarrow> bytes \<Rightarrow> 'w \<Rightarrow> nat \<times> 'w" where
  "ulib_execute sys path args w = (let ((rax, _), w) = sys SYS_EXECUTE [Slice path, Slice args] w in (rax, w))"

definition ulib_yield_now :: "'w os \<Rightarrow> 'w \<Rightarrow> 'w" where
  "ulib_yield_now sys w = snd (sys SYS_YIELD [] w)"

definition ulib_wait_for_process :: "'w os \<Rightarrow> nat \<Rightarrow> 'w \<Rightarrow> 'w" where
  "ulib_wait_for_process sys pid w = snd (sys SYS_WAIT_FOR_PROCESS [Reg pid] w)"

definition ulib_cd :: "'w os \<Rightarrow> bytes \<Rightarrow> 'w \<Rightarrow> bool \<times> 'w" where
  "ulib_cd sys path w = (let ((rax, _), w) = sys SYS_CD [Slice path] w in (rax \<noteq> 0, w))"

definition ulib_open :: "'w os \<Rightarrow> bytes \<Rightarrow> 'w \<Rightarrow> nat \<times> 'w" where
  "ulib_open sys path w = (let ((rax, _), w) = sys SYS_OPEN [Slice path] w in (rax, w))"

definition ulib_create :: "'w os \<Rightarrow> bytes \<Rightarrow> 'w \<Rightarrow> nat \<times> 'w" where
  "ulib_create sys path w = (let ((rax, _), w) = sys SYS_CREATE [Slice path] w in (rax, w))"

definition ulib_mkdir :: "'w os \<Rightarrow> bytes \<Rightarrow> 'w \<Rightarrow> bool \<times> 'w" where
  "ulib_mkdir sys path w = (let ((rax, _), w) = sys SYS_MKDIR [Slice path] w in (rax \<noteq> 0, w))"

definition ulib_unlink :: "'w os \<Rightarrow> bytes \<Rightarrow> 'w \<Rightarrow> bool \<times> 'w" where
  "ulib_unlink sys path w = (let ((rax, _), w) = sys SYS_UNLINK [Slice path] w in (rax \<noteq> 0, w))"

definition ulib_rmdir :: "'w os \<Rightarrow> bytes \<Rightarrow> 'w \<Rightarrow> bool \<times> 'w" where
  "ulib_rmdir sys path w = (let ((rax, _), w) = sys SYS_RMDIR [Slice path] w in (rax \<noteq> 0, w))"

definition ulib_close :: "'w os \<Rightarrow> nat \<Rightarrow> 'w \<Rightarrow> bool \<times> 'w" where
  "ulib_close sys fd w = (let ((rax, _), w) = sys SYS_CLOSE [Reg fd] w in (rax \<noteq> 0, w))"

definition ulib_truncate :: "'w os \<Rightarrow> nat \<Rightarrow> nat \<Rightarrow> 'w \<Rightarrow> bool \<times> 'w" where
  "ulib_truncate sys fd sz w = (let ((rax, _), w) = sys SYS_TRUNCATE [Reg fd, Reg sz] w in (rax \<noteq> 0, w))"

definition ulib_write_existing_file :: "'w os \<Rightarrow> bytes \<Rightarrow> bytes \<Rightarrow> 'w \<Rightarrow> bool \<times> 'w" where
  "ulib_write_existing_file sys path bytes w =
     (let (fd, w) = ulib_open sys path w
      in if fd = 0 then (False, w)
         else
           let (bytes_written, w) = ulib_write_file sys fd bytes w;
               (truncated, w) = ulib_truncate sys fd bytes_written w;
               (_, w) = ulib_close sys fd w
           in (bytes_written = length bytes \<and> truncated, w))"

section \<open>Time\<close>

definition CLOCK_REALTIME :: nat where "CLOCK_REALTIME = 0"
definition CLOCK_MONOTONIC :: nat where "CLOCK_MONOTONIC = 1"

definition timespec_zero :: timespec where
  "timespec_zero = \<lparr> tv_sec = 0, tv_nsec = 0 \<rparr>"

definition i64_div :: "u64 \<Rightarrow> int \<Rightarrow> u64" where
  "i64_div a d = word_of_int (sint a sdiv d)"

definition i64_mod :: "u64 \<Rightarrow> int \<Rightarrow> u64" where
  "i64_mod a d = word_of_int (sint a smod d)"

definition from_milliseconds :: "u64 \<Rightarrow> timespec" where
  "from_milliseconds milliseconds =
     \<lparr> tv_sec = i64_div milliseconds 1000, tv_nsec = i64_mod milliseconds 1000 * 1000000 \<rparr>"

text \<open>The sixteen bytes of a \<open>Timespec\<close> in memory, and the value read back after the kernel wrote to it.\<close>

definition timespec_mem :: "timespec \<Rightarrow> bytes" where
  "timespec_mem t = le64 (tv_sec t) @ le64 (tv_nsec t)"

definition timespec_written :: "timespec \<Rightarrow> bytes \<Rightarrow> timespec" where
  "timespec_written t out =
     (let b = overwrite (timespec_mem t) 0 (take 16 out)
      in \<lparr> tv_sec = of_nat (le_value (take 8 b)), tv_nsec = of_nat (le_value (drop 8 b)) \<rparr>)"

definition ulib_clock_gettime :: "'w os \<Rightarrow> nat \<Rightarrow> timespec \<Rightarrow> 'w \<Rightarrow> (bool \<times> timespec) \<times> 'w" where
  "ulib_clock_gettime sys clock_id timespec w =
     (let ((rax, out), w) = sys SYS_CLOCK_GETTIME [Reg clock_id, PtrMut 16] w
      in ((rax \<noteq> 0, timespec_written timespec out), w))"

definition ulib_time :: "'w os \<Rightarrow> 'w \<Rightarrow> u64 \<times> 'w" where
  "ulib_time sys w =
     (let ((ok, timespec), w) = ulib_clock_gettime sys CLOCK_REALTIME timespec_zero w
      in if \<not> ok then (0, w) else (tv_sec timespec, w))"

definition ulib_monotonic_ns :: "'w os \<Rightarrow> 'w \<Rightarrow> u64 \<times> 'w" where
  "ulib_monotonic_ns sys w =
     (let ((ok, timespec), w) = ulib_clock_gettime sys CLOCK_MONOTONIC timespec_zero w
      in if \<not> ok then (0, w) else (tv_sec timespec * 1000000000 + tv_nsec timespec, w))"

definition ulib_nanosleep :: "'w os \<Rightarrow> timespec \<Rightarrow> 'w \<Rightarrow> bool \<times> 'w" where
  "ulib_nanosleep sys duration w =
     (let ((rax, _), w) = sys SYS_NANOSLEEP [Ptr (timespec_mem duration)] w in (rax \<noteq> 0, w))"

definition ulib_sleep_ms :: "'w os \<Rightarrow> u64 \<Rightarrow> 'w \<Rightarrow> bool \<times> 'w" where
  "ulib_sleep_ms sys milliseconds w = ulib_nanosleep sys (from_milliseconds milliseconds) w"

definition ulib_sleep :: "'w os \<Rightarrow> u64 \<Rightarrow> 'w \<Rightarrow> bool \<times> 'w" where
  "ulib_sleep sys seconds w = ulib_sleep_ms sys (seconds * 1000) w"

section \<open>Directory entries\<close>

definition DIR_ENTRY_NAME_CAPACITY :: nat where "DIR_ENTRY_NAME_CAPACITY = 256"

record dir_entry =
  dent_name :: bytes
  dent_attr :: u8
  dent_size :: u32

definition dir_entry_empty :: dir_entry where
  "dir_entry_empty = \<lparr> dent_name = replicate DIR_ENTRY_NAME_CAPACITY 0, dent_attr = 0, dent_size = 0 \<rparr>"

definition dent_is_directory :: "dir_entry \<Rightarrow> bool" where
  "dent_is_directory e \<longleftrightarrow> dent_attr e AND 0x10 \<noteq> 0"

definition name_bytes :: "dir_entry \<Rightarrow> bytes" where
  "name_bytes e = takeWhile (\<lambda>b. b \<noteq> 0) (dent_name e)"

text \<open>
  An entry is 264 bytes long: the name, the attribute, three bytes of padding and the size.  The
  entries of the caller's array behind the bytes the kernel copied stay as they were.
\<close>

definition dir_entry_of_bytes :: "bytes \<Rightarrow> dir_entry" where
  "dir_entry_of_bytes b =
     \<lparr> dent_name = take DIR_ENTRY_NAME_CAPACITY b, dent_attr = b ! 256, dent_size = of_nat (le_value (drop 260 (take 264 b))) \<rparr>"

definition ulib_read_dir :: "'w os \<Rightarrow> dir_entry list \<Rightarrow> 'w \<Rightarrow> (nat \<times> dir_entry list) \<times> 'w" where
  "ulib_read_dir sys entries w =
     (let ((rax, out), w) = sys SYS_READ_DIR [SliceMut (length entries)] w
      in ((rax, map (\<lambda>i. if 264 * (i + 1) \<le> length out then dir_entry_of_bytes (drop (264 * i) out) else entries ! i)
                   [0..<length entries]), w))"

section \<open>Text\<close>

text \<open>Byte string literals and the decimal digits of a number, least significant first.\<close>

definition bstr :: "string \<Rightarrow> bytes" where
  "bstr s = map of_char s"

definition ascii_control :: "u8 \<Rightarrow> bool" where
  "ascii_control b \<longleftrightarrow> b < 0x20 \<or> b = 0x7F"

definition ascii_space :: "u8 \<Rightarrow> bool" where
  "ascii_space b \<longleftrightarrow> b \<in> {0x20, 0x09, 0x0A, 0x0C, 0x0D}"

fun digits_loop :: "nat \<Rightarrow> bytes" where
  "digits_loop number =
     (0x30 + of_nat (number mod 10)) # (if number div 10 = 0 then [] else digits_loop (number div 10))"

declare digits_loop.simps [simp del]

text \<open>Writing the digits one at a time, most significant first; a number of more than 20 digits would
  leave the array of digits.\<close>

fun put_bytes :: "'w os \<Rightarrow> bytes \<Rightarrow> 'w \<Rightarrow> 'w" where
  "put_bytes sys [] w = w"
| "put_bytes sys (b # bytes) w = put_bytes sys bytes (snd (ulib_stdout sys [b] w))"

section \<open>Arguments\<close>

record args =
  ar_argc :: nat
  ar_argv :: nat
  ar_index :: nat

definition args_new :: "nat \<Rightarrow> nat \<Rightarrow> args" where
  "args_new argc argv = \<lparr> ar_argc = argc, ar_argv = argv, ar_index = 0 \<rparr>"

definition args_len :: "args \<Rightarrow> nat" where
  "args_len a = ar_argc a"

definition args_is_empty :: "args \<Rightarrow> bool" where
  "args_is_empty a \<longleftrightarrow> ar_argc a = 0"

text \<open>The loop over the bytes of an argument ends only at a zero byte.\<close>

partial_function (option) arg_len :: "memory \<Rightarrow> nat \<Rightarrow> nat \<Rightarrow> nat option" where
  "arg_len mem arg len = (if mem (arg + len) = 0 then Some len else arg_len mem arg (len + 1))"

definition args_get :: "memory \<Rightarrow> args \<Rightarrow> nat \<Rightarrow> bytes option option" where
  "args_get mem a index =
     (if index \<ge> ar_argc a then Some None
      else
        let arg = rd_le mem (ar_argv a + 8 * index) 8
        in if arg = 0 then Some None
           else map_option (\<lambda>len. Some (mem_read mem arg len)) (arg_len mem arg 0))"

definition args_next :: "memory \<Rightarrow> args \<Rightarrow> (bytes option \<times> args) option" where
  "args_next mem a = do {
     r \<leftarrow> args_get mem a (ar_index a);
     Some (case r of None \<Rightarrow> (None, a) | Some arg \<Rightarrow> (Some arg, a\<lparr>ar_index := ar_index a + 1\<rparr>))
   }"

text \<open>All arguments the iterator yields, in at most \<open>n\<close> calls.\<close>

fun args_collect :: "memory \<Rightarrow> args \<Rightarrow> nat \<Rightarrow> bytes list option" where
  "args_collect mem a 0 = Some []"
| "args_collect mem a (Suc n) = do {
     (r, a) \<leftarrow> args_next mem a;
     case r of None \<Rightarrow> Some [] | Some arg \<Rightarrow> map_option (\<lambda>xs. arg # xs) (args_collect mem a n)
   }"

lemma arg_len_string:
  "mem_read mem p (length s + 1) = s @ [0] \<Longrightarrow> 0 \<notin> set s \<Longrightarrow> k \<le> length s \<Longrightarrow> arg_len mem p k = Some (length s)"
proof (induction "length s - k" arbitrary: k)
  case 0
  then have k: "k = length s" by simp
  have "mem_read mem p (length s + 1) ! length s = mem (p + length s)" by (rule nth_mem_read) simp
  then have "mem (p + length s) = 0" unfolding 0(2) by simp
  then show ?case unfolding k by (subst arg_len.simps) simp
next
  case (Suc d)
  then have k: "k < length s" by linarith
  have "mem_read mem p (length s + 1) ! k = mem (p + k)" using k by (intro nth_mem_read) simp
  then have "mem (p + k) = (s @ [0]) ! k" unfolding Suc.prems(1) by simp
  then have "mem (p + k) \<noteq> 0" using Suc.prems(2) k by (metis nth_append nth_mem)
  then show ?case using Suc k by (subst arg_len.simps) simp
qed

lemma args_get_string:
  assumes "index < ar_argc a" "rd_le mem (ar_argv a + 8 * index) 8 = p" "0 < p"
    and s: "mem_read mem p (length s + 1) = s @ [0]" "0 \<notin> set s"
  shows "args_get mem a index = Some (Some s)"
proof -
  have "mem_read mem p (length s) = take (length s) (mem_read mem p (length s + 1))"
    by (simp add: mem_read_def)
  then have "mem_read mem p (length s) = s" using s(1) by simp
  then show ?thesis using assms(1-3) arg_len_string [OF s, of 0] by (simp add: args_get_def)
qed

lemma args_collect_list:
  assumes "\<And>i. i < length xs \<Longrightarrow> args_get mem a (ar_index a + i) = Some (Some (xs ! i))"
    and "args_get mem a (ar_index a + length xs) = Some None" "length xs < n"
  shows "args_collect mem a n = Some xs"
  using assms
proof (induction xs arbitrary: a n)
  case Nil
  then obtain m where "n = Suc m" using gr0_implies_Suc by auto
  with Nil show ?case by (simp add: args_next_def)
next
  case (Cons x xs)
  then obtain m where n: "n = Suc m" "length xs < m" using less_imp_Suc_add by (metis Suc_lessE length_Cons)
  let ?a = "a\<lparr>ar_index := Suc (ar_index a)\<rparr>"
  have g: "args_get mem ?a j = args_get mem a j" for j by (simp add: args_get_def)
  have "args_collect mem ?a m = Some xs"
  proof (rule Cons.IH [OF _ _ n(2)])
    show "args_get mem ?a (ar_index ?a + i) = Some (Some (xs ! i))" if "i < length xs" for i
      using Cons.prems(1) [of "Suc i"] that by (simp add: g)
    show "args_get mem ?a (ar_index ?a + length xs) = Some None" using Cons.prems(2) by (simp add: g)
  qed
  moreover have "args_get mem a (ar_index a) = Some (Some x)" using Cons.prems(1) [of 0] by simp
  ultimately show ?case by (simp add: n args_next_def)
qed

section \<open>Decimal numbers\<close>

lemma length_digits_loop: "number < 10 ^ k \<Longrightarrow> 0 < k \<Longrightarrow> length (digits_loop number) \<le> k"
proof (induction number arbitrary: k rule: digits_loop.induct)
  case (1 number)
  show ?case
  proof (cases "number div 10 = 0")
    case True
    then show ?thesis using 1(3) by (subst digits_loop.simps) simp
  next
    case False
    obtain j where j: "k = Suc j" using 1(3) gr0_implies_Suc by blast
    have "j \<noteq> 0" using False 1(2) j by (intro notI) simp
    with j have j: "k = Suc j" "0 < j" by simp_all
    have "number div 10 < 10 ^ j" using 1(2) j by (simp add: div_less_iff_less_mult mult.commute)
    then show ?thesis using 1(1) [OF False _ j(2)] False j(1) by (subst digits_loop.simps) simp
  qed
qed

lemma usize_digits: "number < usize_bound \<Longrightarrow> length (digits_loop number) \<le> 20"
  by (rule length_digits_loop) (simp_all add: usize_bound_def)

section \<open>Properties\<close>

text \<open>
  C14.  Arguments arrive.  After \<open>write_args_frame\<close> has put the arguments of a process on its stack, the
  stack pointer is 16-byte aligned and lies inside the stack, and a program that builds \<open>Args\<close> from
  the count at the stack pointer and the array behind it gets exactly those arguments from the
  iterator, as UTF-8 bytes and in order, whatever arguments without a NUL byte were passed.
\<close>

theorem arguments_reach_program:
  assumes "write_args_frame mem stk argv = Some (Some rsp, mem')" "stk_top stk < usize_bound"
    and "\<forall>a \<in> set argv. 0 \<notin> set (to_utf8 a)"
  shows "rsp mod 16 = 0 \<and> stk_bottom stk \<le> rsp \<and> rsp \<le> stk_top stk
    \<and> args_len (args_new (rd_le mem' rsp 8) (rsp + 8)) = length argv
    \<and> args_collect mem' (args_new (rd_le mem' rsp 8) (rsp + 8)) (length argv + 1) = Some (map to_utf8 argv)"
proof -
  note l = args_frame_layout [OF assms(1,2)]
  let ?a = "args_new (rd_le mem' rsp 8) (rsp + 8)"
  have a: "ar_argc ?a = length argv" "ar_argv ?a = rsp + 8" "ar_index ?a = 0" using l by (simp_all add: args_new_def)
  have g: "args_get mem' ?a i = Some (Some (to_utf8 (argv ! i)))" if i: "i < length argv" for i
  proof -
    obtain p where p: "rd_le mem' (rsp + 8 * (1 + i)) 8 = p" "rsp + 8 * (length argv + 3) \<le> p"
        "mem_read mem' p (length (to_utf8 (argv ! i)) + 1) = to_utf8 (argv ! i) @ [0]"
      using l i by blast
    show ?thesis
      using p assms(3) i by (intro args_get_string [where p = p]) (simp_all add: a algebra_simps)
  qed
  have "args_collect mem' ?a (length argv + 1) = Some (map to_utf8 argv)"
    by (rule args_collect_list) (simp_all add: a g, simp add: args_get_def a)
  moreover have "rsp \<le> stk_top stk" using l by linarith
  ultimately show ?thesis using l a by (simp add: args_len_def)
qed

theorem arguments_reach_program_witness:
  "\<exists>rsp mem'. write_args_frame (\<lambda>_. 0) \<lparr> stk_top = 0x2000, stk_bottom = 0x1000 \<rparr> [lit ''ls'', lit ''bin''] = Some (Some rsp, mem')
     \<and> args_collect mem' (args_new (rd_le mem' rsp 8) (rsp + 8)) 3 = Some [[108, 115], [98, 105, 110]]"
proof -
  have u: "to_utf8 (lit ''ls'') = [108, 115]" "to_utf8 (lit ''bin'') = [98, 105, 110]" by code_simp+
  have "and_not (8185 - 40) 15 = 8144" using and_not_mask [of 8145 4] by (simp add: usize_bound_def)
  then have "\<exists>mem'. write_args_frame (\<lambda>_. 0) \<lparr> stk_top = 0x2000, stk_bottom = 0x1000 \<rparr> [lit ''ls'', lit ''bin''] = Some (Some 8144, mem')"
    by (simp add: write_args_frame_def u checked_sub_def checked_add_def checked_mul_def usize_bound_def Let_def)
  then obtain mem' where w: "write_args_frame (\<lambda>_. 0) \<lparr> stk_top = 0x2000, stk_bottom = 0x1000 \<rparr> [lit ''ls'', lit ''bin''] = Some (Some 8144, mem')"
    by blast
  have "args_collect mem' (args_new (rd_le mem' 8144 8) (8144 + 8)) 3 = Some [[108, 115], [98, 105, 110]]"
    using arguments_reach_program [OF w] by (simp add: usize_bound_def u numeral_3_eq_3 del: args_collect.simps)
  with w show ?thesis by blast
qed

end
