(* ===== verification/Editor.thy ===== *)
theory Editor
  imports Ulib
begin

text \<open>
  The text editor: a fixed buffer of 4 KiB with a cursor, driven by single input bytes, and its
  refinement of a text with a position in it.  A panic of the program ends it; in the model the
  operation is then \<open>None\<close>.
\<close>

section \<open>The program\<close>

definition FILE_CAPACITY :: nat where "FILE_CAPACITY = 4 * 1024"
definition PATH_CAPACITY :: nat where "PATH_CAPACITY = 256"
definition VIEW_ROWS :: nat where "VIEW_ROWS = 16"

record editor =
  ed_fd :: nat
  ed_len :: nat
  ed_cursor :: nat
  ed_first_visible_line :: nat
  ed_preferred_column :: "nat option"
  ed_escape_state :: nat
  ed_dirty :: bool
  ed_message :: bytes

text \<open>\<open>copy_within\<close> of the standard library: it panics if the source or the destination leaves the slice.\<close>

definition copy_within :: "bytes \<Rightarrow> nat \<Rightarrow> nat \<Rightarrow> nat \<Rightarrow> bytes option" where
  "copy_within buffer from until dest =
     (if from \<le> until \<and> until \<le> length buffer \<and> dest + (until - from) \<le> length buffer
      then Some (overwrite buffer dest (take (until - from) (drop from buffer))) else None)"

definition slice_get :: "bytes \<Rightarrow> nat \<Rightarrow> u8 option" where
  "slice_get buffer i = (if i < length buffer then Some (buffer ! i) else None)"

definition slice_range :: "bytes \<Rightarrow> nat \<Rightarrow> nat \<Rightarrow> bytes option" where
  "slice_range buffer from until =
     (if from \<le> until \<and> until \<le> length buffer then Some (take (until - from) (drop from buffer)) else None)"

fun line_start_loop :: "bytes \<Rightarrow> nat \<Rightarrow> nat option" where
  "line_start_loop buffer 0 = Some 0"
| "line_start_loop buffer (Suc index) = do {
     byte \<leftarrow> slice_get buffer index;
     if byte \<noteq> 10 then line_start_loop buffer index else Some (Suc index)
   }"

definition line_start :: "editor \<Rightarrow> bytes \<Rightarrow> nat \<Rightarrow> nat option" where
  "line_start ed buffer index = line_start_loop buffer (min index (ed_len ed))"

function line_end_loop :: "nat \<Rightarrow> bytes \<Rightarrow> nat \<Rightarrow> nat option" where
  "line_end_loop len buffer index =
     (if index < len then do {
        byte \<leftarrow> slice_get buffer index;
        if byte \<noteq> 10 then line_end_loop len buffer (index + 1) else Some index
      }
      else Some index)"
  by pat_completeness auto
termination by (relation "measure (\<lambda>(len, _, index). len - index)") auto

declare line_end_loop.simps [simp del]

definition line_end :: "editor \<Rightarrow> bytes \<Rightarrow> nat \<Rightarrow> nat option" where
  "line_end ed buffer index = line_end_loop (ed_len ed) buffer (min index (ed_len ed))"

definition insert_byte :: "editor \<Rightarrow> bytes \<Rightarrow> u8 \<Rightarrow> (editor \<times> bytes) option" where
  "insert_byte ed buffer byte =
     (if ed_len ed = length buffer then Some (ed\<lparr>ed_message := bstr ''Buffer full''\<rparr>, buffer)
      else do {
        buffer \<leftarrow> copy_within buffer (ed_cursor ed) (ed_len ed) (ed_cursor ed + 1);
        _ \<leftarrow> slice_get buffer (ed_cursor ed);
        Some (ed\<lparr>ed_cursor := ed_cursor ed + 1, ed_len := ed_len ed + 1, ed_preferred_column := None, ed_dirty := True\<rparr>,
              buffer[ed_cursor ed := byte])
      })"

definition backspace :: "editor \<Rightarrow> bytes \<Rightarrow> (editor \<times> bytes) option" where
  "backspace ed buffer =
     (if ed_cursor ed = 0 then Some (ed, buffer)
      else do {
        let cursor = ed_cursor ed - 1;
        buffer \<leftarrow> copy_within buffer (cursor + 1) (ed_len ed) cursor;
        Some (ed\<lparr>ed_cursor := cursor, ed_len := ed_len ed - 1, ed_preferred_column := None, ed_dirty := True\<rparr>, buffer)
      })"

definition column_of :: "editor \<Rightarrow> nat \<Rightarrow> nat" where
  "column_of ed start = (case ed_preferred_column ed of None \<Rightarrow> ed_cursor ed - start | Some c \<Rightarrow> c)"

definition move_up :: "editor \<Rightarrow> bytes \<Rightarrow> editor option" where
  "move_up ed buffer = do {
     start \<leftarrow> line_start ed buffer (ed_cursor ed);
     if start = 0 then Some ed
     else do {
       let column = column_of ed start;
       let previous_end = start - 1;
       previous_start \<leftarrow> line_start ed buffer previous_end;
       Some (ed\<lparr>ed_cursor := min (previous_start + column) previous_end, ed_preferred_column := Some column\<rparr>)
     }
   }"

definition move_down :: "editor \<Rightarrow> bytes \<Rightarrow> editor option" where
  "move_down ed buffer = do {
     start \<leftarrow> line_start ed buffer (ed_cursor ed);
     let column = column_of ed start;
     stop \<leftarrow> line_end ed buffer (ed_cursor ed);
     if stop = ed_len ed then Some ed
     else do {
       let next_start = stop + 1;
       next_end \<leftarrow> line_end ed buffer next_start;
       Some (ed\<lparr>ed_cursor := min (next_start + column) next_end, ed_preferred_column := Some column\<rparr>)
     }
   }"

definition handle_arrow_key :: "editor \<Rightarrow> bytes \<Rightarrow> u8 \<Rightarrow> editor option" where
  "handle_arrow_key ed buffer input =
     (if input = 0x41 then move_up ed buffer
      else if input = 0x42 then move_down ed buffer
      else if input = 0x43 then
        Some (ed\<lparr>ed_cursor := (if ed_cursor ed < ed_len ed then ed_cursor ed + 1 else ed_cursor ed), ed_preferred_column := None\<rparr>)
      else if input = 0x44 then Some (ed\<lparr>ed_cursor := ed_cursor ed - 1, ed_preferred_column := None\<rparr>)
      else Some ed)"

definition save :: "'w os \<Rightarrow> editor \<Rightarrow> bytes \<Rightarrow> 'w \<Rightarrow> (editor \<times> 'w) option" where
  "save sys ed buffer w =
     (let (ok, w) = ulib_truncate sys (ed_fd ed) 0 w
      in if \<not> ok then Some (ed\<lparr>ed_message := bstr ''Could not truncate file''\<rparr>, w)
         else do {
           text \<leftarrow> slice_range buffer 0 (ed_len ed);
           let (n, w) = ulib_write_file sys (ed_fd ed) text w;
           Some (if n \<noteq> ed_len ed then (ed\<lparr>ed_message := bstr ''Could not write file''\<rparr>, w)
                 else (ed\<lparr>ed_dirty := False, ed_message := bstr ''Written''\<rparr>, w))
         })"

definition handle_input :: "'w os \<Rightarrow> u8 \<Rightarrow> editor \<Rightarrow> bytes \<Rightarrow> 'w \<Rightarrow> (bool \<times> editor \<times> bytes \<times> 'w) option" where
  "handle_input sys input ed buffer w =
     (if ed_escape_state ed = 1 then
        if input = 0x5B then Some (False, ed\<lparr>ed_escape_state := 2\<rparr>, buffer, w)
        else
          let ed = ed\<lparr>ed_escape_state := 0\<rparr>
          in if input = 0x77 then map_option (\<lambda>(ed, w). (False, ed, buffer, w)) (save sys ed buffer w)
             else Some (input = 0x71, ed, buffer, w)
      else if ed_escape_state ed = 2 then
        map_option (\<lambda>ed. (False, ed, buffer, w)) (handle_arrow_key (ed\<lparr>ed_escape_state := 0\<rparr>) buffer input)
      else if input = 0x1B then Some (False, ed\<lparr>ed_escape_state := 1\<rparr>, buffer, w)
      else
        map_option (\<lambda>(ed, buffer). (False, ed, buffer, w))
          (if input = 8 \<or> input = 0x7F then backspace ed buffer
           else if input = 13 \<or> input = 10 then insert_byte ed buffer 10
           else if \<not> ascii_control input \<or> input = 9 then insert_byte ed buffer input
           else Some (ed, buffer)))"

definition cursor_line :: "editor \<Rightarrow> bytes \<Rightarrow> nat option" where
  "cursor_line ed buffer = map_option (\<lambda>bs. length (filter (\<lambda>b. b = 10) bs)) (slice_range buffer 0 (ed_cursor ed))"

definition keep_cursor_visible :: "editor \<Rightarrow> bytes \<Rightarrow> editor option" where
  "keep_cursor_visible ed buffer = do {
     line \<leftarrow> cursor_line ed buffer;
     Some (if line < ed_first_visible_line ed then ed\<lparr>ed_first_visible_line := line\<rparr>
           else if line \<ge> ed_first_visible_line ed + VIEW_ROWS then ed\<lparr>ed_first_visible_line := line - VIEW_ROWS + 1\<rparr>
           else ed)
   }"

definition write_number :: "'w os \<Rightarrow> nat \<Rightarrow> 'w \<Rightarrow> 'w option" where
  "write_number sys number w =
     (let digits = digits_loop number in if length digits \<le> 20 then Some (put_bytes sys (rev digits) w) else None)"

definition move_terminal_cursor :: "'w os \<Rightarrow> nat \<Rightarrow> nat \<Rightarrow> 'w \<Rightarrow> 'w option" where
  "move_terminal_cursor sys row column w = do {
     let w = snd (ulib_stdout sys [0x1B, 0x5B] w);
     w \<leftarrow> write_number sys row w;
     let w = snd (ulib_stdout sys (bstr '';'') w);
     w \<leftarrow> write_number sys column w;
     Some (snd (ulib_stdout sys (bstr ''H'') w))
   }"

text \<open>Skipping to the first visible line; every pass counts a line, so the number of lines to skip bounds it.\<close>

fun skip_lines :: "editor \<Rightarrow> bytes \<Rightarrow> nat \<Rightarrow> nat \<Rightarrow> nat option" where
  "skip_lines ed buffer 0 index = Some index"
| "skip_lines ed buffer (Suc lines) index =
     (if index < ed_len ed then do {
        index \<leftarrow> line_end ed buffer index;
        skip_lines ed buffer lines (if index < ed_len ed then index + 1 else index)
      }
      else Some index)"

fun draw_rows :: "'w os \<Rightarrow> editor \<Rightarrow> bytes \<Rightarrow> nat \<Rightarrow> nat \<Rightarrow> 'w \<Rightarrow> 'w option" where
  "draw_rows sys ed buffer 0 index w = Some w"
| "draw_rows sys ed buffer (Suc rows) index w =
     (if index < ed_len ed then do {
        stop \<leftarrow> line_end ed buffer index;
        let w = snd (ulib_stdout sys (bstr ''  '') w);
        text \<leftarrow> slice_range buffer index stop;
        let w = snd (ulib_stdout sys text w);
        let w = snd (ulib_stdout sys [0x1B, 0x5B, 0x4B, 10] w);
        draw_rows sys ed buffer rows (if stop < ed_len ed then stop + 1 else ed_len ed) w
      }
      else draw_rows sys ed buffer rows index (snd (ulib_stdout sys [0x7E, 0x1B, 0x5B, 0x4B, 10] w)))"

definition render :: "'w os \<Rightarrow> bytes \<Rightarrow> editor \<Rightarrow> bytes \<Rightarrow> 'w \<Rightarrow> (editor \<times> 'w) option" where
  "render sys path ed buffer w = do {
     ed \<leftarrow> keep_cursor_visible ed buffer;
     let w = snd (ulib_stdout sys ([0x1B, 0x5B] @ bstr ''2J'' @ [0x1B, 0x5B] @ bstr ''H'' @ [0x1B, 0x5B] @ bstr ''7m edit '') w);
     let w = snd (ulib_stdout sys path w);
     let w = snd (ulib_stdout sys (bstr '' '' @ [0x1B, 0x5B] @ bstr ''0m'' @ [0x1B, 0x5B] @ bstr ''K'' @ [10]) w);
     index \<leftarrow> skip_lines ed buffer (ed_first_visible_line ed) 0;
     w \<leftarrow> draw_rows sys ed buffer VIEW_ROWS index w;
     let w = snd (ulib_stdout sys ([0x1B, 0x5B] @ bstr ''7m '') w);
     let w = (if ed_dirty ed then snd (ulib_stdout sys (bstr ''modified '') w) else w);
     let w = snd (ulib_stdout sys (ed_message ed) w);
     let w = snd (ulib_stdout sys (bstr '' '' @ [0x1B, 0x5B] @ bstr ''0m'' @ [0x1B, 0x5B] @ bstr ''K'') w);
     line \<leftarrow> cursor_line ed buffer;
     start \<leftarrow> line_start ed buffer (ed_cursor ed);
     let column = ed_cursor ed - start;
     w \<leftarrow> move_terminal_cursor sys (2 + (line - ed_first_visible_line ed)) (min (column + 3) 80) w;
     Some (ed, w)
   }"

text \<open>The main loop: it goes on until an input quits the editor.\<close>

partial_function (option) editor_loop :: "'w os \<Rightarrow> bytes \<Rightarrow> editor \<Rightarrow> bytes \<Rightarrow> 'w \<Rightarrow> (editor \<times> bytes \<times> 'w) option" where
  "editor_loop sys path ed buffer w = do {
     (ed, w) \<leftarrow> render sys path ed buffer w;
     (let (input, w) = ulib_read_stdin_char sys w
      in do {
        (quit, ed, buffer, w) \<leftarrow> handle_input sys input ed buffer w;
        if quit then Some (ed, buffer, w) else editor_loop sys path ed buffer w
      })
   }"

definition open_or_create :: "'w os \<Rightarrow> bytes \<Rightarrow> 'w \<Rightarrow> nat option \<times> 'w" where
  "open_or_create sys path w =
     (let (fd, w) = ulib_open sys path w
      in if fd \<noteq> 0 then (Some fd, w)
         else let (fd, w) = ulib_create sys path w in (if fd \<noteq> 0 then Some fd else None, w))"

partial_function (option) edit_read_line :: "'w os \<Rightarrow> bytes \<Rightarrow> nat \<Rightarrow> 'w \<Rightarrow> (nat \<times> bytes \<times> 'w) option" where
  "edit_read_line sys buffer len w =
     (let (input, w) = ulib_read_stdin_char sys w
      in if input = 13 \<or> input = 10 then Some (len, buffer, w)
         else if input = 8 \<or> input = 0x7F then
           if len > 0 then edit_read_line sys buffer (len - 1) (snd (ulib_stdout sys [8, 0x20, 8] w))
           else edit_read_line sys buffer len w
         else if ascii_control input \<or> len = length buffer then edit_read_line sys buffer len w
         else edit_read_line sys (buffer[len := input]) (len + 1) (snd (ulib_stdout sys [input] w)))"

definition editor_new :: "nat \<Rightarrow> nat \<Rightarrow> editor" where
  "editor_new fd len =
     \<lparr> ed_fd = fd, ed_len = len, ed_cursor = 0, ed_first_visible_line = 0, ed_preferred_column = None,
       ed_escape_state = 0, ed_dirty = False, ed_message = bstr ''Arrows move  Esc-w save  Esc-q quit'' \<rparr>"

text \<open>The program from its arguments to its exit; the result is the state of the system at the exit.\<close>

definition edit_main :: "'w os \<Rightarrow> memory \<Rightarrow> nat \<Rightarrow> nat \<Rightarrow> 'w \<Rightarrow> 'w option" where
  "edit_main sys mem argc argv w = do {
     arg \<leftarrow> args_get mem (args_new argc argv) 1;
     (path, w) \<leftarrow>
       (case arg of
          Some arg \<Rightarrow> Some (Some arg, w)
        | None \<Rightarrow> do {
            let w = snd (ulib_stdout sys (bstr ''edit - simple text editor'' @ [10] @ bstr ''File: '') w);
            (path_len, path_buffer, w) \<leftarrow> edit_read_line sys (replicate PATH_CAPACITY 0) 0 w;
            Some (if path_len = 0 then (None, snd (ulib_stdout sys ([10] @ bstr ''No file selected.'' @ [10]) w))
                  else (Some (take path_len path_buffer), w))
          });
     case path of
       None \<Rightarrow> Some w
     | Some path \<Rightarrow>
         let (fd, w) = open_or_create sys path w
         in case fd of
              None \<Rightarrow> Some (snd (ulib_stdout sys ([10] @ bstr ''Could not open or create file.'' @ [10]) w))
            | Some fd \<Rightarrow>
                let ((len, buffer), w) = ulib_read sys fd (replicate FILE_CAPACITY 0) w;
                    ((extra, _), w) = (if len = FILE_CAPACITY then ulib_read sys fd [0] w else ((0, []), w))
                in if extra \<noteq> 0 then
                     let (_, w) = ulib_close sys fd w
                     in Some (snd (ulib_stdout sys ([10] @ bstr ''File is larger than edit'' @ [39] @ bstr ''s 4 KiB buffer.'' @ [10]) w))
                   else do {
                     (_, _, w) \<leftarrow> editor_loop sys path (editor_new fd len) buffer w;
                     let (_, w) = ulib_close sys fd w;
                     Some (snd (ulib_stdout sys ([0x1B, 0x5B] @ bstr ''2J'' @ [0x1B, 0x5B] @ bstr ''H'') w))
                   }
   }"

section \<open>A text and a position in it\<close>

fun text_lines :: "bytes \<Rightarrow> bytes list" where
  "text_lines [] = [[]]"
| "text_lines (b # bs) = (if b = 10 then [] # text_lines bs else (b # hd (text_lines bs)) # tl (text_lines bs))"

definition row_start :: "bytes list \<Rightarrow> nat \<Rightarrow> nat" where
  "row_start ls r = sum_list (map (\<lambda>l. length l + 1) (take r ls))"

definition row_of :: "bytes \<Rightarrow> nat \<Rightarrow> nat" where
  "row_of text pos = length (filter (\<lambda>b. b = 10) (take pos text))"

definition place :: "bytes \<Rightarrow> nat \<Rightarrow> nat \<Rightarrow> nat" where
  "place text row column = row_start (text_lines text) row + min column (length (text_lines text ! row))"

record text_state =
  tx_text :: bytes
  tx_pos :: nat
  tx_column :: "nat option"
  tx_escape :: nat

definition tx_current_column :: "text_state \<Rightarrow> nat" where
  "tx_current_column t =
     (case tx_column t of Some c \<Rightarrow> c | None \<Rightarrow> tx_pos t - row_start (text_lines (tx_text t)) (row_of (tx_text t) (tx_pos t)))"

definition tx_insert :: "u8 \<Rightarrow> text_state \<Rightarrow> text_state" where
  "tx_insert b t =
     (if length (tx_text t) = FILE_CAPACITY then t
      else t\<lparr>tx_text := take (tx_pos t) (tx_text t) @ [b] @ drop (tx_pos t) (tx_text t), tx_pos := tx_pos t + 1, tx_column := None\<rparr>)"

definition tx_delete :: "text_state \<Rightarrow> text_state" where
  "tx_delete t =
     (if tx_pos t = 0 then t
      else t\<lparr>tx_text := take (tx_pos t - 1) (tx_text t) @ drop (tx_pos t) (tx_text t), tx_pos := tx_pos t - 1, tx_column := None\<rparr>)"

definition tx_move :: "u8 \<Rightarrow> text_state \<Rightarrow> text_state" where
  "tx_move key t =
     (let row = row_of (tx_text t) (tx_pos t); c = tx_current_column t
      in if key = 0x41 then (if row = 0 then t else t\<lparr>tx_pos := place (tx_text t) (row - 1) c, tx_column := Some c\<rparr>)
         else if key = 0x42 then
           (if row + 1 = length (text_lines (tx_text t)) then t
            else t\<lparr>tx_pos := place (tx_text t) (row + 1) c, tx_column := Some c\<rparr>)
         else if key = 0x43 then t\<lparr>tx_pos := min (tx_pos t + 1) (length (tx_text t)), tx_column := None\<rparr>
         else if key = 0x44 then t\<lparr>tx_pos := tx_pos t - 1, tx_column := None\<rparr>
         else t)"

text \<open>What an input byte does to the text: escape sequences for commands and movement, editing otherwise.\<close>

definition tx_input :: "u8 \<Rightarrow> text_state \<Rightarrow> text_state" where
  "tx_input b t =
     (if tx_escape t = 1 then t\<lparr>tx_escape := (if b = 0x5B then 2 else 0)\<rparr>
      else if tx_escape t = 2 then (tx_move b t)\<lparr>tx_escape := 0\<rparr>
      else if b = 0x1B then t\<lparr>tx_escape := 1\<rparr>
      else if b = 8 \<or> b = 0x7F then tx_delete t
      else if b = 13 \<or> b = 10 then tx_insert 10 t
      else if ascii_control b \<and> b \<noteq> 9 then t
      else tx_insert b t)"

definition text_of :: "editor \<Rightarrow> bytes \<Rightarrow> text_state" where
  "text_of ed buffer =
     \<lparr> tx_text = take (ed_len ed) buffer, tx_pos = ed_cursor ed, tx_column = ed_preferred_column ed, tx_escape = ed_escape_state ed \<rparr>"

definition wf_editor :: "editor \<Rightarrow> bytes \<Rightarrow> bool" where
  "wf_editor ed buffer \<longleftrightarrow> length buffer = FILE_CAPACITY \<and> ed_len ed \<le> FILE_CAPACITY \<and> ed_cursor ed \<le> ed_len ed"

section \<open>Lines\<close>

lemma text_lines_not_Nil [simp]: "text_lines t \<noteq> []"
  by (cases t) auto

lemma row_start_0 [simp]: "row_start ls 0 = 0"
  by (simp add: row_start_def)

lemma row_start_Suc: "row_start (l # ls) (Suc r) = length l + 1 + row_start ls r"
  by (simp add: row_start_def)

lemma row_start_next: "r < length ls \<Longrightarrow> row_start ls (Suc r) = row_start ls r + length (ls ! r) + 1"
  by (simp add: row_start_def take_Suc_conv_app_nth)

text \<open>The lines cut the text at its newlines.\<close>

lemma line_bytes:
  "r < length (text_lines t) \<Longrightarrow> row_start (text_lines t) r + length (text_lines t ! r) \<le> length t
   \<and> (\<forall>i < length (text_lines t ! r). t ! (row_start (text_lines t) r + i) \<noteq> 10)
   \<and> (0 < r \<longrightarrow> 0 < row_start (text_lines t) r \<and> t ! (row_start (text_lines t) r - 1) = 10)
   \<and> (if Suc r < length (text_lines t)
      then row_start (text_lines t) r + length (text_lines t ! r) < length t
           \<and> t ! (row_start (text_lines t) r + length (text_lines t ! r)) = 10
      else row_start (text_lines t) r + length (text_lines t ! r) = length t)"
proof (induction t arbitrary: r)
  case Nil
  then show ?case by simp
next
  case (Cons b bs)
  show ?case
  proof (cases "b = 10")
    case True
    show ?thesis
    proof (cases r)
      case 0
      then show ?thesis using True by simp
    next
      case (Suc q)
      then have q: "q < length (text_lines bs)" using Cons.prems True by simp
      show ?thesis
        using Cons.IH [OF q] Suc True by (cases q) (auto simp: row_start_Suc nth_Cons')
    qed
  next
    case False
    obtain l ls where ls: "text_lines bs = l # ls" by (cases "text_lines bs") simp_all
    have e: "text_lines (b # bs) = (b # l) # ls" using False ls by simp
    have r: "r < length (l # ls)" using Cons.prems e by simp
    note IH = Cons.IH [unfolded ls, OF r]
    show ?thesis
    proof (cases r)
      case 0
      then show ?thesis using IH False unfolding e by (auto simp: nth_Cons' less_Suc_eq_0_disj split: if_splits)
    next
      case (Suc q)
      then show ?thesis using IH unfolding e by (auto simp: row_start_Suc nth_Cons')
    qed
  qed
qed

lemma row_of_place:
  "p \<le> length t \<Longrightarrow> row_of t p < length (text_lines t) \<and> row_start (text_lines t) (row_of t p) \<le> p
     \<and> p \<le> row_start (text_lines t) (row_of t p) + length (text_lines t ! row_of t p)"
proof (induction t arbitrary: p)
  case Nil
  then show ?case by (simp add: row_of_def)
next
  case (Cons b bs)
  show ?case
  proof (cases p)
    case 0
    then show ?thesis by (simp add: row_of_def)
  next
    case (Suc q)
    then have q: "q \<le> length bs" using Cons.prems by simp
    note IH = Cons.IH [OF q]
    show ?thesis
    proof (cases "b = 10")
      case True
      then have "row_of (b # bs) p = Suc (row_of bs q)" by (simp add: Suc row_of_def)
      then show ?thesis using IH True Suc by (simp add: row_start_Suc)
    next
      case False
      then have r: "row_of (b # bs) p = row_of bs q" by (simp add: Suc row_of_def)
      obtain l ls where ls: "text_lines bs = l # ls" by (cases "text_lines bs") simp_all
      have e: "text_lines (b # bs) = (b # l) # ls" using False ls by simp
      show ?thesis using IH Suc unfolding r e ls by (cases "row_of bs q") (auto simp: row_start_Suc)
    qed
  qed
qed

section \<open>The scans of the program find the lines\<close>

definition ed_text :: "editor \<Rightarrow> bytes \<Rightarrow> bytes" where
  "ed_text ed buffer = take (ed_len ed) buffer"

lemma wf_text:
  assumes "wf_editor ed buffer"
  shows "length (ed_text ed buffer) = ed_len ed" "i < ed_len ed \<Longrightarrow> slice_get buffer i = Some (ed_text ed buffer ! i)"
  using assms by (auto simp: wf_editor_def ed_text_def slice_get_def)

lemma line_start_row:
  assumes wf: "wf_editor ed buffer" and r: "r < length (text_lines (ed_text ed buffer))"
    and k: "k \<le> length (text_lines (ed_text ed buffer) ! r)"
  shows "line_start ed buffer (row_start (text_lines (ed_text ed buffer)) r + k) = Some (row_start (text_lines (ed_text ed buffer)) r)"
proof -
  let ?t = "ed_text ed buffer" and ?s = "row_start (text_lines (ed_text ed buffer)) r"
  note b = line_bytes [OF r] wf_text [OF wf]
  have "line_start_loop buffer (?s + k) = Some ?s"
    using k
  proof (induction k)
    case 0
    show ?case
    proof (cases ?s)
      case (Suc m)
      have "0 < r" using Suc by (intro gr0I) simp
      then have "?t ! m = 10" "m < ed_len ed" using b(1,2) Suc by auto
      then show ?thesis using b(3) Suc by simp
    qed simp
  next
    case (Suc k)
    then have "?t ! (?s + k) \<noteq> 10" "?s + k < ed_len ed" using b(1,2) by auto
    then show ?case using Suc b(3) by simp
  qed
  moreover have "?s + k \<le> ed_len ed" using b(1,2) k by linarith
  ultimately show ?thesis by (simp add: line_start_def min_absorb1)
qed

lemma line_end_row:
  assumes wf: "wf_editor ed buffer" and r: "r < length (text_lines (ed_text ed buffer))"
    and k: "k \<le> length (text_lines (ed_text ed buffer) ! r)"
  shows "line_end ed buffer (row_start (text_lines (ed_text ed buffer)) r + k)
    = Some (row_start (text_lines (ed_text ed buffer)) r + length (text_lines (ed_text ed buffer) ! r))"
proof -
  let ?t = "ed_text ed buffer" and ?s = "row_start (text_lines (ed_text ed buffer)) r"
  let ?n = "length (text_lines ?t ! r)"
  note b = line_bytes [OF r] wf_text [OF wf]
  have "line_end_loop (ed_len ed) buffer (?s + k) = Some (?s + ?n)"
    using k
  proof (induction "?n - k" arbitrary: k)
    case 0
    then have k: "k = ?n" by simp
    show ?case
    proof (cases "Suc r < length (text_lines ?t)")
      case True
      then have "?t ! (?s + ?n) = 10" "?s + ?n < ed_len ed" using b(1,2) by auto
      then show ?thesis unfolding k using b(3) by (subst line_end_loop.simps) simp
    next
      case False
      then have "?s + ?n = ed_len ed" using b(1,2) by auto
      then show ?thesis unfolding k by (subst line_end_loop.simps) simp
    qed
  next
    case (Suc d)
    then have "k < ?n" by linarith
    then have "?t ! (?s + k) \<noteq> 10" "?s + k < ed_len ed" using b(1,2) by auto
    then show ?case using Suc(1) [of "Suc k"] Suc(2) b(3) \<open>k < ?n\<close> by (subst line_end_loop.simps) simp
  qed
  moreover have "?s + k \<le> ed_len ed" using b(1,2) k by linarith
  ultimately show ?thesis by (simp add: line_end_def min_absorb1)
qed

lemma line_at:
  assumes wf: "wf_editor ed buffer" and p: "p \<le> ed_len ed"
  defines "r \<equiv> row_of (ed_text ed buffer) p"
  shows "line_start ed buffer p = Some (row_start (text_lines (ed_text ed buffer)) r)"
    and "line_end ed buffer p = Some (row_start (text_lines (ed_text ed buffer)) r + length (text_lines (ed_text ed buffer) ! r))"
proof -
  let ?s = "row_start (text_lines (ed_text ed buffer)) r"
  have "p \<le> length (ed_text ed buffer)" using p wf_text(1) [OF wf] by simp
  note q = row_of_place [OF this, folded r_def]
  then obtain k where k: "p = ?s + k" "k \<le> length (text_lines (ed_text ed buffer) ! r)"
    by (metis add_le_cancel_left le_Suc_ex)
  show "line_start ed buffer p = Some ?s" unfolding k(1) using line_start_row [OF wf _ k(2)] q by blast
  show "line_end ed buffer p = Some (?s + length (text_lines (ed_text ed buffer) ! r))"
    unfolding k(1) using line_end_row [OF wf _ k(2)] q by blast
qed

lemma line_end_total:
  assumes "wf_editor ed buffer" "p \<le> ed_len ed"
  shows "\<exists>e. line_end ed buffer p = Some e \<and> p \<le> e \<and> e \<le> ed_len ed"
proof -
  have p: "p \<le> length (ed_text ed buffer)" using assms wf_text(1) by simp
  note q = row_of_place [OF p]
  have "row_start (text_lines (ed_text ed buffer)) (row_of (ed_text ed buffer) p)
      + length (text_lines (ed_text ed buffer) ! row_of (ed_text ed buffer) p) \<le> ed_len ed"
    using line_bytes [of "row_of (ed_text ed buffer) p" "ed_text ed buffer"] q wf_text(1) [OF assms(1)] by simp
  then show ?thesis using line_at(2) [OF assms] q by simp
qed

section \<open>Every operation refines its specification\<close>

lemma text_of_simps [simp]:
  "tx_text (text_of ed buffer) = ed_text ed buffer" "tx_pos (text_of ed buffer) = ed_cursor ed"
  "tx_column (text_of ed buffer) = ed_preferred_column ed" "tx_escape (text_of ed buffer) = ed_escape_state ed"
  by (simp_all add: text_of_def ed_text_def)

lemma column_of_row:
  "wf_editor ed buffer \<Longrightarrow>
     column_of ed (row_start (text_lines (ed_text ed buffer)) (row_of (ed_text ed buffer) (ed_cursor ed)))
       = tx_current_column (text_of ed buffer)"
  by (simp add: column_of_def tx_current_column_def split: option.split)

lemma take_front: "length a = k \<Longrightarrow> x = a @ c \<Longrightarrow> take k x = a"
  by simp

lemma insert_window:
  assumes "c \<le> n" "n < length buf"
  shows "take (n + 1) ((overwrite buf (c + 1) (take (n - c) (drop c buf)))[c := b]) = take c (take n buf) @ [b] @ drop c (take n buf)"
proof -
  have "take (c + 1) buf = take c buf @ [buf ! c]" using assms by (simp add: take_Suc_conv_app_nth)
  then have "(overwrite buf (c + 1) (take (n - c) (drop c buf)))[c := b]
      = (take c buf @ [b] @ take (n - c) (drop c buf)) @ drop (c + 1 + (n - c)) buf"
    using assms by (simp add: overwrite_def list_update_append)
  moreover have "length (take c buf @ [b] @ take (n - c) (drop c buf)) = n + 1" using assms by simp
  ultimately have "take (n + 1) ((overwrite buf (c + 1) (take (n - c) (drop c buf)))[c := b]) = take c buf @ [b] @ take (n - c) (drop c buf)"
    by (rule take_front [rotated])
  then show ?thesis using assms by (simp add: drop_take min_absorb1)
qed

lemma delete_window:
  assumes "c < n" "n \<le> length buf"
  shows "take (n - 1) (overwrite buf c (take (n - (c + 1)) (drop (c + 1) buf))) = take c (take n buf) @ drop (c + 1) (take n buf)"
proof -
  have "length (take c buf @ take (n - (c + 1)) (drop (c + 1) buf)) = n - 1" using assms by simp
  moreover have "overwrite buf c (take (n - (c + 1)) (drop (c + 1) buf))
      = (take c buf @ take (n - (c + 1)) (drop (c + 1) buf)) @ drop (c + (n - (c + 1))) buf"
    using assms by (simp add: overwrite_def)
  ultimately have "take (n - 1) (overwrite buf c (take (n - (c + 1)) (drop (c + 1) buf))) = take c buf @ take (n - (c + 1)) (drop (c + 1) buf)"
    by (rule take_front)
  then show ?thesis using assms by (simp add: drop_take min_absorb1)
qed

lemma insert_byte_refines:
  assumes wf: "wf_editor ed buffer"
  obtains ed' buffer' where "insert_byte ed buffer b = Some (ed', buffer')" "wf_editor ed' buffer'"
    "text_of ed' buffer' = tx_insert b (text_of ed buffer)"
proof (cases "ed_len ed = length buffer")
  case True
  show ?thesis
  proof (rule that)
    show "insert_byte ed buffer b = Some (ed\<lparr>ed_message := bstr ''Buffer full''\<rparr>, buffer)" using True by (simp add: insert_byte_def)
    show "wf_editor (ed\<lparr>ed_message := bstr ''Buffer full''\<rparr>) buffer" using wf by (simp add: wf_editor_def)
    show "text_of (ed\<lparr>ed_message := bstr ''Buffer full''\<rparr>) buffer = tx_insert b (text_of ed buffer)"
      using True wf by (simp add: text_of_def tx_insert_def wf_editor_def)
  qed
next
  case False
  let ?c = "ed_cursor ed" and ?n = "ed_len ed"
  let ?m = "overwrite buffer (?c + 1) (take (?n - ?c) (drop ?c buffer))"
  let ?ed = "ed\<lparr>ed_cursor := ?c + 1, ed_len := ?n + 1, ed_preferred_column := None, ed_dirty := True\<rparr>"
  have b: "?c \<le> ?n" "?n < length buffer" "length buffer = FILE_CAPACITY" using wf False by (auto simp: wf_editor_def)
  then have m: "length ?m = length buffer" by simp
  show ?thesis
  proof (rule that)
    show "insert_byte ed buffer b = Some (?ed, ?m[?c := b])"
      using False b m by (simp add: insert_byte_def copy_within_def slice_get_def)
    show "wf_editor ?ed (?m[?c := b])" using b m by (simp add: wf_editor_def)
    have "take (?n + 1) (?m[?c := b]) = take ?c (take ?n buffer) @ [b] @ drop ?c (take ?n buffer)"
      using b by (intro insert_window) simp_all
    then show "text_of ?ed (?m[?c := b]) = tx_insert b (text_of ed buffer)"
      using b by (simp add: text_of_def tx_insert_def)
  qed
qed

lemma backspace_refines:
  assumes wf: "wf_editor ed buffer"
  obtains ed' buffer' where "backspace ed buffer = Some (ed', buffer')" "wf_editor ed' buffer'"
    "text_of ed' buffer' = tx_delete (text_of ed buffer)"
proof (cases "ed_cursor ed = 0")
  case True
  then show ?thesis using wf by (intro that [of ed buffer]) (simp_all add: backspace_def tx_delete_def)
next
  case False
  let ?c = "ed_cursor ed - 1" and ?n = "ed_len ed"
  let ?m = "overwrite buffer ?c (take (?n - (?c + 1)) (drop (?c + 1) buffer))"
  let ?ed = "ed\<lparr>ed_cursor := ?c, ed_len := ?n - 1, ed_preferred_column := None, ed_dirty := True\<rparr>"
  have b: "?c + 1 \<le> ?n" "?n \<le> length buffer" "length buffer = FILE_CAPACITY" "?c + 1 = ed_cursor ed"
    using wf False by (auto simp: wf_editor_def)
  then have m: "length ?m = length buffer" by simp
  show ?thesis
  proof (rule that)
    show "backspace ed buffer = Some (?ed, ?m)" using False b by (simp add: backspace_def Let_def copy_within_def)
    show "wf_editor ?ed ?m" using b m by (auto simp: wf_editor_def)
    have "take (?n - 1) ?m = take ?c (take ?n buffer) @ drop (?c + 1) (take ?n buffer)"
      using b by (intro delete_window) simp_all
    then show "text_of ?ed ?m = tx_delete (text_of ed buffer)" using b False by (simp add: text_of_def tx_delete_def)
  qed
qed

lemma move_up_refines:
  assumes wf: "wf_editor ed buffer"
  obtains ed' where "move_up ed buffer = Some ed'" "wf_editor ed' buffer" "text_of ed' buffer = tx_move 0x41 (text_of ed buffer)"
proof -
  let ?t = "ed_text ed buffer" and ?r = "row_of (ed_text ed buffer) (ed_cursor ed)"
  let ?ls = "text_lines ?t" and ?c = "tx_current_column (text_of ed buffer)"
  have p: "ed_cursor ed \<le> ed_len ed" using wf by (simp add: wf_editor_def)
  then have q: "?r < length ?ls" using row_of_place [of "ed_cursor ed" ?t] wf_text(1) [OF wf] by simp
  note s = line_at(1) [OF wf p]
  show ?thesis
  proof (cases ?r)
    case 0
    then show ?thesis using wf s by (intro that [of ed]) (simp_all add: move_up_def Let_def tx_move_def)
  next
    case (Suc k)
    have n: "row_start ?ls ?r = row_start ?ls k + length (?ls ! k) + 1" using row_start_next [of k ?ls] q Suc by simp
    have k: "k < length ?ls" using q Suc by simp
    have l: "line_start ed buffer (row_start ?ls k + length (?ls ! k)) = Some (row_start ?ls k)"
      by (rule line_start_row [OF wf k]) simp
    have e: "row_start ?ls k + length (?ls ! k) \<le> ed_len ed" using line_bytes [OF k] wf_text(1) [OF wf] by simp
    let ?ed = "ed\<lparr>ed_cursor := place ?t k ?c, ed_preferred_column := Some ?c\<rparr>"
    have "move_up ed buffer = Some ?ed"
      using s n l column_of_row [OF wf] by (simp add: move_up_def Let_def place_def min_add_distrib_right)
    moreover have "wf_editor ?ed buffer" using wf e by (auto simp: wf_editor_def place_def)
    moreover have "text_of ?ed buffer = tx_move 0x41 (text_of ed buffer)"
      using Suc by (simp add: tx_move_def Let_def) (simp add: text_of_def)
    ultimately show ?thesis by (rule that)
  qed
qed

lemma move_down_refines:
  assumes wf: "wf_editor ed buffer"
  obtains ed' where "move_down ed buffer = Some ed'" "wf_editor ed' buffer" "text_of ed' buffer = tx_move 0x42 (text_of ed buffer)"
proof -
  let ?t = "ed_text ed buffer" and ?r = "row_of (ed_text ed buffer) (ed_cursor ed)"
  let ?ls = "text_lines ?t" and ?c = "tx_current_column (text_of ed buffer)"
  have p: "ed_cursor ed \<le> ed_len ed" using wf by (simp add: wf_editor_def)
  then have q: "?r < length ?ls" using row_of_place [of "ed_cursor ed" ?t] wf_text(1) [OF wf] by simp
  note s = line_at [OF wf p] and b = line_bytes [OF q] wf_text(1) [OF wf]
  show ?thesis
  proof (cases "Suc ?r < length ?ls")
    case False
    then have "Suc ?r = length ?ls" using q by simp
    then show ?thesis using wf s b False by (intro that [of ed]) (simp_all add: move_down_def Let_def tx_move_def)
  next
    case True
    have n: "row_start ?ls (Suc ?r) = row_start ?ls ?r + length (?ls ! ?r) + 1" by (rule row_start_next [OF q])
    have l: "line_end ed buffer (row_start ?ls (Suc ?r)) = Some (row_start ?ls (Suc ?r) + length (?ls ! Suc ?r))"
      using line_end_row [OF wf True, of 0] by simp
    have e: "row_start ?ls (Suc ?r) + length (?ls ! Suc ?r) \<le> ed_len ed" using line_bytes [OF True] b(2) by simp
    let ?ed = "ed\<lparr>ed_cursor := place ?t (Suc ?r) ?c, ed_preferred_column := Some ?c\<rparr>"
    have "row_start ?ls ?r + length (?ls ! ?r) \<noteq> ed_len ed" using b True by simp
    then have "move_down ed buffer = Some ?ed"
      using s l [unfolded n] column_of_row [OF wf] n by (simp add: move_down_def Let_def place_def min_add_distrib_right)
    moreover have "wf_editor ?ed buffer" using wf e by (auto simp: wf_editor_def place_def)
    moreover have "text_of ?ed buffer = tx_move 0x42 (text_of ed buffer)"
      using True by (simp add: tx_move_def Let_def) (simp add: text_of_def)
    ultimately show ?thesis by (rule that)
  qed
qed

lemma handle_arrow_key_refines:
  assumes wf: "wf_editor ed buffer"
  obtains ed' where "handle_arrow_key ed buffer b = Some ed'" "wf_editor ed' buffer" "text_of ed' buffer = tx_move b (text_of ed buffer)"
proof -
  consider "b = 0x41" | "b = 0x42" | "b \<noteq> 0x41" "b \<noteq> 0x42" by blast
  then show ?thesis
  proof cases
    case 1
    then show ?thesis using move_up_refines [OF wf] that by (auto simp: handle_arrow_key_def)
  next
    case 2
    then show ?thesis using move_down_refines [OF wf] that by (auto simp: handle_arrow_key_def)
  next
    case 3
    let ?right = "ed\<lparr>ed_cursor := (if ed_cursor ed < ed_len ed then ed_cursor ed + 1 else ed_cursor ed), ed_preferred_column := None\<rparr>"
    let ?left = "ed\<lparr>ed_cursor := ed_cursor ed - 1, ed_preferred_column := None\<rparr>"
    have c: "ed_cursor ed \<le> ed_len ed" "length (ed_text ed buffer) = ed_len ed"
      using wf wf_text(1) by (simp_all add: wf_editor_def)
    have "handle_arrow_key ed buffer b = Some (if b = 0x43 then ?right else if b = 0x44 then ?left else ed)"
      using 3 by (simp add: handle_arrow_key_def)
    moreover have "wf_editor (if b = 0x43 then ?right else if b = 0x44 then ?left else ed) buffer"
      using wf by (auto simp: wf_editor_def)
    moreover have "text_of (if b = 0x43 then ?right else if b = 0x44 then ?left else ed) buffer = tx_move b (text_of ed buffer)"
      using 3 c by (simp add: tx_move_def Let_def) (auto simp: text_of_def min_def)
    ultimately show ?thesis by (rule that)
  qed
qed

lemma save_refines:
  assumes wf: "wf_editor ed buffer"
  obtains ed' w' where "save sys ed buffer w = Some (ed', w')" "wf_editor ed' buffer" "text_of ed' buffer = text_of ed buffer"
proof -
  obtain ok w1 where t: "ulib_truncate sys (ed_fd ed) 0 w = (ok, w1)" by fastforce
  obtain n w2 where f: "ulib_write_file sys (ed_fd ed) (take (ed_len ed) buffer) w1 = (n, w2)" by fastforce
  have r: "slice_range buffer 0 (ed_len ed) = Some (take (ed_len ed) buffer)" using wf by (simp add: slice_range_def wf_editor_def)
  show ?thesis
  proof (cases ok)
    case False
    then show ?thesis using t wf
      by (intro that [of "ed\<lparr>ed_message := bstr ''Could not truncate file''\<rparr>" w1]) (simp_all add: save_def wf_editor_def text_of_def)
  next
    case True
    let ?ed = "if n \<noteq> ed_len ed then ed\<lparr>ed_message := bstr ''Could not write file''\<rparr>
      else ed\<lparr>ed_dirty := False, ed_message := bstr ''Written''\<rparr>"
    show ?thesis using True t f r wf by (intro that [of ?ed w2]) (simp_all add: save_def wf_editor_def text_of_def)
  qed
qed

lemma escape_update:
  "wf_editor (ed\<lparr>ed_escape_state := e\<rparr>) buffer = wf_editor ed buffer"
  "text_of (ed\<lparr>ed_escape_state := e\<rparr>) buffer = (text_of ed buffer)\<lparr>tx_escape := e\<rparr>"
  by (simp_all add: wf_editor_def text_of_def)

lemma tx_move_escape: "tx_move b (t\<lparr>tx_escape := e\<rparr>) = (tx_move b t)\<lparr>tx_escape := e\<rparr>"
proof -
  have "tx_current_column (t\<lparr>tx_escape := e\<rparr>) = tx_current_column t"
    by (simp add: tx_current_column_def split: option.split)
  then show ?thesis by (simp add: tx_move_def Let_def)
qed

lemma handle_input_refines:
  assumes wf: "wf_editor ed buffer"
  obtains ed' buffer' w' where "handle_input sys b ed buffer w = Some (ed_escape_state ed = 1 \<and> b = 0x71, ed', buffer', w')"
    "wf_editor ed' buffer'" "text_of ed' buffer' = tx_input b (text_of ed buffer)"
proof -
  have wf0: "wf_editor (ed\<lparr>ed_escape_state := e\<rparr>) buffer" for e using wf by (simp add: escape_update)
  consider (bracket) "ed_escape_state ed = 1" "b = 0x5B" | (saving) "ed_escape_state ed = 1" "b = 0x77"
    | (other) "ed_escape_state ed = 1" "b \<noteq> 0x5B" "b \<noteq> 0x77" | (arrow) "ed_escape_state ed = 2"
    | (escape) "ed_escape_state ed \<noteq> 1" "ed_escape_state ed \<noteq> 2" "b = 0x1B"
    | (plain) "ed_escape_state ed \<noteq> 1" "ed_escape_state ed \<noteq> 2" "b \<noteq> 0x1B"
    by blast
  then show ?thesis
  proof cases
    case bracket
    then show ?thesis using wf by (intro that [of "ed\<lparr>ed_escape_state := 2\<rparr>" buffer w])
      (simp_all add: handle_input_def escape_update tx_input_def)
  next
    case saving
    obtain ed' w' where "save sys (ed\<lparr>ed_escape_state := 0\<rparr>) buffer w = Some (ed', w')" "wf_editor ed' buffer"
        "text_of ed' buffer = text_of (ed\<lparr>ed_escape_state := 0\<rparr>) buffer"
      by (rule save_refines [OF wf0])
    then show ?thesis using saving by (intro that [of ed' buffer w']) (simp_all add: handle_input_def escape_update tx_input_def)
  next
    case other
    then show ?thesis using wf by (intro that [of "ed\<lparr>ed_escape_state := 0\<rparr>" buffer w])
      (simp_all add: handle_input_def escape_update tx_input_def)
  next
    case arrow
    obtain ed' where "handle_arrow_key (ed\<lparr>ed_escape_state := 0\<rparr>) buffer b = Some ed'" "wf_editor ed' buffer"
        "text_of ed' buffer = tx_move b (text_of (ed\<lparr>ed_escape_state := 0\<rparr>) buffer)"
      by (rule handle_arrow_key_refines [OF wf0])
    then show ?thesis using arrow
      by (intro that [of ed' buffer w]) (simp_all add: handle_input_def escape_update tx_move_escape tx_input_def)
  next
    case escape
    then show ?thesis using wf by (intro that [of "ed\<lparr>ed_escape_state := 1\<rparr>" buffer w])
      (simp_all add: handle_input_def escape_update tx_input_def)
  next
    case plain
    let ?op = "if b = 8 \<or> b = 0x7F then backspace ed buffer
           else if b = 13 \<or> b = 10 then insert_byte ed buffer 10
           else if \<not> ascii_control b \<or> b = 9 then insert_byte ed buffer b
           else Some (ed, buffer)"
    obtain ed' buffer' where o: "?op = Some (ed', buffer')" "wf_editor ed' buffer'" "text_of ed' buffer' = tx_input b (text_of ed buffer)"
    proof -
      consider "b = 8 \<or> b = 0x7F" | "\<not> (b = 8 \<or> b = 0x7F)" "b = 13 \<or> b = 10"
        | "\<not> (b = 8 \<or> b = 0x7F)" "\<not> (b = 13 \<or> b = 10)" "\<not> ascii_control b \<or> b = 9"
        | "\<not> (b = 8 \<or> b = 0x7F)" "\<not> (b = 13 \<or> b = 10)" "\<not> (\<not> ascii_control b \<or> b = 9)" by blast
      then show thesis
      proof cases
        case 1
        with plain have "tx_input b (text_of ed buffer) = tx_delete (text_of ed buffer)" by (simp add: tx_input_def)
        moreover obtain e' b' where "backspace ed buffer = Some (e', b')" "wf_editor e' b'" "text_of e' b' = tx_delete (text_of ed buffer)"
          by (rule backspace_refines [OF wf])
        ultimately show thesis using 1 by (intro that [of e' b']) simp_all
      next
        case 2
        with plain have "tx_input b (text_of ed buffer) = tx_insert 10 (text_of ed buffer)" by (simp add: tx_input_def)
        moreover obtain e' b' where "insert_byte ed buffer 10 = Some (e', b')" "wf_editor e' b'" "text_of e' b' = tx_insert 10 (text_of ed buffer)"
          by (rule insert_byte_refines [OF wf])
        ultimately show thesis using 2 by (intro that [of e' b']) simp_all
      next
        case 3
        with plain have "tx_input b (text_of ed buffer) = tx_insert b (text_of ed buffer)" by (auto simp: tx_input_def)
        moreover obtain e' b' where "insert_byte ed buffer b = Some (e', b')" "wf_editor e' b'" "text_of e' b' = tx_insert b (text_of ed buffer)"
          by (rule insert_byte_refines [OF wf])
        ultimately show thesis using 3 by (intro that [of e' b']) simp_all
      next
        case 4
        with plain have "tx_input b (text_of ed buffer) = text_of ed buffer" by (simp add: tx_input_def)
        with 4 wf show thesis by (intro that [of ed buffer]) simp_all
      qed
    qed
    then show ?thesis using plain
      by (intro that [of ed' buffer' w]) (simp_all only: handle_input_def if_False simp_thms option.map prod.case)
  qed
qed

section \<open>Drawing\<close>

lemma skip_lines_total:
  "wf_editor ed buffer \<Longrightarrow> index \<le> ed_len ed \<Longrightarrow> \<exists>i. skip_lines ed buffer n index = Some i \<and> i \<le> ed_len ed"
proof (induction n arbitrary: index)
  case (Suc n)
  obtain e where e: "line_end ed buffer index = Some e" "e \<le> ed_len ed" using line_end_total [OF Suc.prems] by blast
  have "(if e < ed_len ed then e + 1 else e) \<le> ed_len ed" using e(2) by simp
  then show ?case using Suc.IH [OF Suc.prems(1)] Suc.prems(2) e by simp
qed simp

lemma draw_rows_total:
  "wf_editor ed buffer \<Longrightarrow> index \<le> ed_len ed \<Longrightarrow> \<exists>w'. draw_rows sys ed buffer n index w = Some w'"
proof (induction n arbitrary: index w)
  case (Suc n)
  obtain e where e: "line_end ed buffer index = Some e" "index \<le> e" "e \<le> ed_len ed" using line_end_total [OF Suc.prems] by blast
  have "slice_range buffer index e \<noteq> None" using e Suc.prems(1) by (simp add: slice_range_def wf_editor_def)
  moreover have "(if e < ed_len ed then e + 1 else ed_len ed) \<le> ed_len ed" by simp
  ultimately show ?case using Suc.IH [OF Suc.prems(1)] Suc.prems(2) e by (auto simp: Let_def)
qed simp

lemma cursor_line_row:
  "wf_editor ed buffer \<Longrightarrow> cursor_line ed buffer = Some (row_of (ed_text ed buffer) (ed_cursor ed))"
  by (auto simp: cursor_line_def slice_range_def wf_editor_def row_of_def ed_text_def min_def)

lemma row_of_le: "row_of t p \<le> p"
  using length_filter_le [of "\<lambda>b. b = 10" "take p t"] by (simp add: row_of_def)

lemma write_number_total: "n < usize_bound \<Longrightarrow> \<exists>w'. write_number sys n w = Some w'"
  using usize_digits by (simp add: write_number_def Let_def)

text \<open>Drawing succeeds, leaves the text alone and leaves the row of the cursor among the visible ones.\<close>

lemma render_total:
  assumes wf: "wf_editor ed buffer"
  obtains ed' w' where "render sys path ed buffer w = Some (ed', w')" "wf_editor ed' buffer" "text_of ed' buffer = text_of ed buffer"
    "ed_first_visible_line ed' \<le> row_of (ed_text ed buffer) (ed_cursor ed)"
    "row_of (ed_text ed buffer) (ed_cursor ed) < ed_first_visible_line ed' + VIEW_ROWS"
proof -
  let ?row = "row_of (ed_text ed buffer) (ed_cursor ed)"
  define v where "v = (if ?row < ed_first_visible_line ed then ?row
    else if ?row \<ge> ed_first_visible_line ed + VIEW_ROWS then ?row - VIEW_ROWS + 1 else ed_first_visible_line ed)"
  let ?ed = "ed\<lparr>ed_first_visible_line := v\<rparr>"
  have k: "keep_cursor_visible ed buffer = Some ?ed"
    using cursor_line_row [OF wf] by (simp add: keep_cursor_visible_def v_def)
  have v: "v \<le> ?row" "?row < v + VIEW_ROWS" by (auto simp: v_def VIEW_ROWS_def)
  have wf': "wf_editor ?ed buffer" using wf by (simp add: wf_editor_def)
  obtain i where i: "skip_lines ?ed buffer v 0 = Some i" "i \<le> ed_len ?ed" using skip_lines_total [OF wf'] by blast
  have d: "\<exists>w'. draw_rows sys ?ed buffer VIEW_ROWS i w = Some w'" for w by (rule draw_rows_total [OF wf' i(2)])
  have t: "ed_text ?ed buffer = ed_text ed buffer" by (simp add: ed_text_def)
  have c: "cursor_line ?ed buffer = Some ?row" using cursor_line_row [OF wf'] t by simp
  obtain st where st: "line_start ?ed buffer (ed_cursor ed) = Some st"
    using line_at(1) [OF wf', of "ed_cursor ed"] wf by (simp add: wf_editor_def)
  have m: "\<exists>w'. move_terminal_cursor sys (2 + (?row - v)) (min (ed_cursor ed - st + 3) 80) w = Some w'" for w
  proof -
    have "2 + (?row - v) < usize_bound" "min (ed_cursor ed - st + 3) 80 < usize_bound"
      using v(2) by (simp_all add: usize_bound_def VIEW_ROWS_def)
    then obtain f g where "\<And>w. write_number sys (2 + (?row - v)) w = Some (f w)" "\<And>w. write_number sys (min (ed_cursor ed - st + 3) 80) w = Some (g w)"
      using write_number_total by metis
    then show ?thesis by (simp add: move_terminal_cursor_def Let_def)
  qed
  obtain f where f: "\<And>w. draw_rows sys ?ed buffer VIEW_ROWS i w = Some (f w)" using d by metis
  obtain g where g: "\<And>w. move_terminal_cursor sys (2 + (?row - v)) (min (ed_cursor ed - st + 3) 80) w = Some (g w)" using m by metis
  have "\<exists>w'. render sys path ed buffer w = Some (?ed, w')"
    using k i(1) f c st g by (simp add: render_def Let_def)
  then obtain w' where "render sys path ed buffer w = Some (?ed, w')" by blast
  moreover have "text_of ?ed buffer = text_of ed buffer" by (simp add: text_of_def)
  ultimately show ?thesis using v wf' by (intro that [of ?ed w']) simp_all
qed

section \<open>A session\<close>

text \<open>
  What the program relies on: reading a character takes the next byte typed, and the other calls do
  not touch what has been typed.
\<close>

definition keyboard :: "'w os \<Rightarrow> ('w \<Rightarrow> bytes) \<Rightarrow> bool" where
  "keyboard sys pending \<longleftrightarrow>
     (\<forall>w b bs. pending w = b # bs \<longrightarrow>
        (of_nat (fst (fst (sys SYS_READ [Reg STDIN] w))) :: u8) = b \<and> pending (snd (sys SYS_READ [Reg STDIN] w)) = bs)
     \<and> (\<forall>n args w. n \<noteq> SYS_READ \<longrightarrow> pending (snd (sys n args w)) = pending w)"

lemma keyboard_read:
  assumes "keyboard sys pending" "pending w = b # bs"
  obtains w' where "ulib_read_stdin_char sys w = (b, w')" "pending w' = bs"
  using assms by (auto simp: keyboard_def ulib_read_stdin_char_def split_beta)

lemma keyboard_calls:
  assumes "keyboard sys pending"
  shows "pending (snd (ulib_stdout sys bytes w)) = pending w" "pending (snd (ulib_truncate sys fd n w)) = pending w"
    "pending (snd (ulib_write_file sys fd bytes w)) = pending w"
  using assms
  by (simp_all add: keyboard_def ulib_stdout_def ulib_write_file_def ulib_write_def ulib_truncate_def split_beta
      SYS_WRITE_def SYS_READ_def SYS_TRUNCATE_def)

lemma keyboard_put_bytes: "keyboard sys pending \<Longrightarrow> pending (put_bytes sys bytes w) = pending w"
  by (induction bytes arbitrary: w) (simp_all add: keyboard_calls)

lemma keyboard_draw_rows:
  "keyboard sys pending \<Longrightarrow> draw_rows sys ed buffer n index w = Some w' \<Longrightarrow> pending w' = pending w"
proof (induction n arbitrary: index w)
  case (Suc n)
  show ?case
  proof (cases "index < ed_len ed")
    case True
    then obtain stop shown where "line_end ed buffer index = Some stop" "slice_range buffer index stop = Some shown"
      using Suc.prems(2) by (auto simp: Let_def bind_eq_Some_conv)
    then show ?thesis using Suc.IH [OF Suc.prems(1)] Suc.prems True by (fastforce simp: Let_def keyboard_calls)
  next
    case False
    then show ?thesis using Suc.IH [OF Suc.prems(1)] Suc.prems by (fastforce simp: keyboard_calls)
  qed
qed simp

lemma keyboard_move_terminal_cursor:
  "keyboard sys pending \<Longrightarrow> move_terminal_cursor sys r c w = Some w' \<Longrightarrow> pending w' = pending w"
  by (auto simp: move_terminal_cursor_def write_number_def Let_def bind_eq_Some_conv keyboard_calls keyboard_put_bytes split: if_splits)

lemma keyboard_render:
  assumes k: "keyboard sys pending" and "render sys path ed buffer w = Some (ed', w')"
  shows "pending w' = pending w"
  using assms(2) keyboard_calls(1) [OF k]
  by (auto simp: render_def Let_def bind_eq_Some_conv dest!: keyboard_draw_rows [OF k] keyboard_move_terminal_cursor [OF k])

lemma keyboard_handle_input:
  assumes k: "keyboard sys pending" and "handle_input sys b ed buffer w = Some (q, ed', buffer', w')"
  shows "pending w' = pending w"
proof -
  have "pending w' = pending w" if "save sys e buffer w = Some (ed', w')" for e
    using that keyboard_calls [OF k]
    by (auto simp: save_def Let_def split_beta bind_eq_Some_conv split: if_splits)
  then show ?thesis using assms(2) by (auto simp: handle_input_def Let_def split: if_splits)
qed

text \<open>The keys of a session end with the first one that quits.\<close>

definition tx_quits :: "u8 \<Rightarrow> text_state \<Rightarrow> bool" where
  "tx_quits b t \<longleftrightarrow> tx_escape t = 1 \<and> b = 0x71"

fun session_keys :: "text_state \<Rightarrow> bytes \<Rightarrow> bool" where
  "session_keys t [] = False"
| "session_keys t (b # bs) = (if tx_quits b t then bs = [] else session_keys (tx_input b t) bs)"

lemma editor_session:
  assumes k: "keyboard sys pending"
  shows "wf_editor ed buffer \<Longrightarrow> session_keys (text_of ed buffer) keys \<Longrightarrow> pending w = keys @ rest \<Longrightarrow>
    \<exists>ed' buffer' w'. editor_loop sys path ed buffer w = Some (ed', buffer', w') \<and> wf_editor ed' buffer'
      \<and> text_of ed' buffer' = fold tx_input keys (text_of ed buffer) \<and> pending w' = rest"
proof (induction keys arbitrary: ed buffer w)
  case (Cons b keys)
  obtain ed1 w1 where r: "render sys path ed buffer w = Some (ed1, w1)" "wf_editor ed1 buffer" "text_of ed1 buffer = text_of ed buffer"
    by (rule render_total [OF Cons.prems(1)])
  have "pending w1 = b # keys @ rest" using keyboard_render [OF k r(1)] Cons.prems(3) by simp
  then obtain w2 where i: "ulib_read_stdin_char sys w1 = (b, w2)" "pending w2 = keys @ rest" by (rule keyboard_read [OF k])
  obtain ed2 buffer2 w3 where h: "handle_input sys b ed1 buffer w2 = Some (ed_escape_state ed1 = 1 \<and> b = 0x71, ed2, buffer2, w3)"
      "wf_editor ed2 buffer2" "text_of ed2 buffer2 = tx_input b (text_of ed1 buffer)"
    by (rule handle_input_refines [OF r(2)])
  have q: "(ed_escape_state ed1 = 1 \<and> b = 0x71) = tx_quits b (text_of ed buffer)"
    using arg_cong [OF r(3), of tx_escape] by (simp add: tx_quits_def)
  have p: "pending w3 = keys @ rest" using keyboard_handle_input [OF k h(1)] i(2) by simp
  have l: "editor_loop sys path ed buffer w =
      (if tx_quits b (text_of ed buffer) then Some (ed2, buffer2, w3) else editor_loop sys path ed2 buffer2 w3)"
    by (subst editor_loop.simps) (simp add: r(1) i(1) h(1) [unfolded q])
  show ?case
  proof (cases "tx_quits b (text_of ed buffer)")
    case True
    then have "keys = []" using Cons.prems(2) by simp
    then show ?thesis using l True h r(3) p by simp
  next
    case False
    then have "session_keys (text_of ed2 buffer2) keys" using Cons.prems(2) h(3) r(3) by simp
    from Cons.IH [OF h(2) this p] show ?thesis using l False h(3) r(3) by simp
  qed
qed simp

section \<open>Properties\<close>

text \<open>
  C5.  The editor edits a text.  For every sequence of input bytes that ends with the quit command, the
  main loop of the editor returns without a panic, whatever the kernel answers to its calls, and has
  consumed exactly these bytes; its buffer then holds the text, and its cursor is at the position,
  that the input bytes give when they are applied to a text with a position: typed bytes are inserted
  as long as there is room, backspace deletes before the position, and the arrow keys move by bytes and,
  keeping the column, by the lines between newlines.
\<close>

theorem editor_refines_text:
  assumes "keyboard sys pending" "wf_editor ed buffer"
    and "session_keys (text_of ed buffer) keys" "pending w = keys @ rest"
  shows "\<exists>ed' buffer' w'. editor_loop sys path ed buffer w = Some (ed', buffer', w') \<and> wf_editor ed' buffer'
    \<and> text_of ed' buffer' = fold tx_input keys (text_of ed buffer) \<and> pending w' = rest"
  using assms by (rule editor_session)

definition typing_os :: "bytes os" where
  "typing_os n args w = (if n = SYS_READ then (case w of [] \<Rightarrow> ((0, []), []) | b # bs \<Rightarrow> ((unat b, []), bs)) else ((0, []), w))"

theorem editor_refines_text_witness:
  "\<exists>ed' buffer' w'. editor_loop typing_os [] (editor_new 3 0) (replicate FILE_CAPACITY 0) [0x68, 0x0D, 0x69, 0x1B, 0x5B, 0x41, 0x78, 0x1B, 0x71]
       = Some (ed', buffer', w')
     \<and> tx_text (text_of ed' buffer') = [0x68, 0x78, 0x0A, 0x69] \<and> w' = []"
proof -
  let ?keys = "[0x68, 0x0D, 0x69, 0x1B, 0x5B, 0x41, 0x78, 0x1B, 0x71] :: bytes"
  let ?ed = "editor_new 3 0" and ?b = "replicate FILE_CAPACITY 0"
  have k: "keyboard typing_os id" by (simp add: keyboard_def typing_os_def)
  have wf: "wf_editor ?ed ?b" by (simp add: wf_editor_def editor_new_def)
  have t: "text_of ?ed ?b = \<lparr> tx_text = [], tx_pos = 0, tx_column = None, tx_escape = 0 \<rparr>"
    by (simp add: text_of_def editor_new_def)
  have "session_keys \<lparr> tx_text = [], tx_pos = 0, tx_column = None, tx_escape = 0 \<rparr> ?keys
      \<and> tx_text (fold tx_input ?keys \<lparr> tx_text = [], tx_pos = 0, tx_column = None, tx_escape = 0 \<rparr>) = [0x68, 0x78, 0x0A, 0x69]"
    by (simp add: tx_input_def tx_insert_def tx_move_def tx_quits_def ascii_control_def Let_def FILE_CAPACITY_def
        row_of_def tx_current_column_def place_def row_start_def)
  then have keys: "session_keys (text_of ?ed ?b) ?keys" "tx_text (fold tx_input ?keys (text_of ?ed ?b)) = [0x68, 0x78, 0x0A, 0x69]"
    unfolding t by blast+
  obtain ed' buffer' w' where "editor_loop typing_os [] ?ed ?b ?keys = Some (ed', buffer', w')"
      "text_of ed' buffer' = fold tx_input ?keys (text_of ?ed ?b)" "id w' = []"
    using editor_refines_text [OF k wf keys(1), of ?keys "[]" "[]"] by auto
  then show ?thesis using keys(2) by (intro exI [of _ ed'] exI [of _ buffer'] exI [of _ w']) simp
qed

end
