(* ===== verification/Shell.thy ===== *)
theory Shell
  imports Ulib
begin

text \<open>
  The shell: reading a command line, the built-in commands, launching programs, and the copy of the
  working directory it shows in its prompt, with the small programs \<open>ls\<close> and \<open>cat\<close>.
\<close>

section \<open>Byte strings\<close>

definition trim_ascii_spaces :: "bytes \<Rightarrow> bytes" where
  "trim_ascii_spaces bytes = rev (dropWhile ascii_space (rev (dropWhile ascii_space bytes)))"

definition bytes_start_with :: "bytes \<Rightarrow> bytes \<Rightarrow> bool" where
  "bytes_start_with bytes prefix \<longleftrightarrow> take (length prefix) bytes = prefix"

definition print_number :: "'w os \<Rightarrow> nat \<Rightarrow> 'w \<Rightarrow> 'w option" where
  "print_number sys number w =
     (let digits = digits_loop number in if length digits \<le> 20 then Some (put_bytes sys (rev digits) w) else None)"

definition ascii_digit :: "u8 \<Rightarrow> bool" where
  "ascii_digit b \<longleftrightarrow> 0x30 \<le> b \<and> b \<le> 0x39"

fun parse_number_loop :: "nat \<Rightarrow> bytes \<Rightarrow> nat option" where
  "parse_number_loop number [] = Some number"
| "parse_number_loop number (byte # bytes) =
     (if \<not> ascii_digit byte then None
      else do {
        n \<leftarrow> checked_mul number 10;
        n \<leftarrow> checked_add n (unat (byte - 0x30));
        parse_number_loop n bytes
      })"

definition parse_number :: "bytes \<Rightarrow> nat option" where
  "parse_number bytes = (if bytes = [] then None else parse_number_loop 0 bytes)"

definition split_next_path_component :: "bytes \<Rightarrow> bytes \<times> bytes option" where
  "split_next_path_component bytes =
     (case dropWhile (\<lambda>b. b \<noteq> 0x2F) bytes of
        [] \<Rightarrow> (bytes, None)
      | _ # rest \<Rightarrow> (takeWhile (\<lambda>b. b \<noteq> 0x2F) bytes, Some rest))"

lemma split_next_shorter:
  assumes "split_next_path_component bytes = (component, Some rest)"
  shows "length rest < length bytes"
proof -
  obtain b where "dropWhile (\<lambda>b. b \<noteq> 0x2F) bytes = b # rest"
    using assms by (auto simp: split_next_path_component_def split: list.splits)
  then have "length (b # rest) \<le> length bytes" by (metis length_dropWhile_le)
  then show ?thesis by simp
qed

definition split_command_line :: "bytes \<Rightarrow> bytes \<times> bytes" where
  "split_command_line command =
     (case dropWhile (\<lambda>b. \<not> ascii_space b) command of
        [] \<Rightarrow> (command, [])
      | _ # rest \<Rightarrow> (takeWhile (\<lambda>b. \<not> ascii_space b) command, trim_ascii_spaces rest))"

section \<open>The working directory of the prompt\<close>

record cwd =
  cwd_path :: bytes
  cwd_len :: nat

definition cwd_new :: cwd where
  "cwd_new = \<lparr> cwd_path = replicate 256 0, cwd_len = 0 \<rparr>"

definition print_prompt :: "'w os \<Rightarrow> cwd \<Rightarrow> 'w \<Rightarrow> 'w" where
  "print_prompt sys c w =
     (let w = snd (ulib_stdout sys (bstr ''~'') w);
          w = (if cwd_len c > 0 then snd (ulib_stdout sys (take (cwd_len c) (cwd_path c)) (snd (ulib_stdout sys (bstr ''/'') w))) else w)
      in snd (ulib_stdout sys (bstr '' $ '') w))"

definition push_component :: "cwd \<Rightarrow> bytes \<Rightarrow> cwd" where
  "push_component c component =
     (let separator_len = (if cwd_len c = 0 then 0 else 1);
          new_len = cwd_len c + separator_len + length component
      in if new_len > length (cwd_path c) then c
         else
           let c = (if separator_len = 1 then c\<lparr>cwd_path := (cwd_path c)[cwd_len c := 0x2F], cwd_len := cwd_len c + 1\<rparr> else c)
           in c\<lparr>cwd_path := overwrite (cwd_path c) (cwd_len c) component, cwd_len := new_len\<rparr>)"

fun pop_loop :: "bytes \<Rightarrow> nat \<Rightarrow> nat" where
  "pop_loop path 0 = 0"
| "pop_loop path (Suc len) = (if path ! len \<noteq> 0x2F then pop_loop path len else Suc len)"

definition pop_component :: "cwd \<Rightarrow> cwd" where
  "pop_component c = (let len = pop_loop (cwd_path c) (cwd_len c) in c\<lparr>cwd_len := (if len > 0 then len - 1 else len)\<rparr>)"

definition apply_component :: "cwd \<Rightarrow> bytes \<Rightarrow> cwd" where
  "apply_component c component =
     (if component = [] \<or> component = bstr ''.'' then c
      else if component = bstr ''..'' then pop_component c
      else push_component c component)"

function update_loop :: "cwd \<Rightarrow> bytes \<Rightarrow> cwd" where
  "update_loop c remaining =
     (case split_next_path_component remaining of
        (component, None) \<Rightarrow> apply_component c component
      | (component, Some rest) \<Rightarrow> update_loop (apply_component c component) rest)"
  by pat_completeness auto
termination
  by (relation "measure (\<lambda>(_, remaining). length remaining)") (auto dest: split_next_shorter [OF sym])

declare update_loop.simps [simp del]

definition cwd_update :: "cwd \<Rightarrow> bytes \<Rightarrow> cwd" where
  "cwd_update c path =
     (let path = trim_ascii_spaces path
      in if path = bstr ''/'' \<or> path = bstr ''~'' then c\<lparr>cwd_len := 0\<rparr>
         else update_loop (if bytes_start_with path (bstr ''/'') then c\<lparr>cwd_len := 0\<rparr> else c) path)"

section \<open>The commands\<close>

text \<open>Reading a line ends only with a carriage return or a newline.\<close>

partial_function (option) read_command :: "'w os \<Rightarrow> bytes \<Rightarrow> nat \<Rightarrow> 'w \<Rightarrow> (nat \<times> bytes \<times> 'w) option" where
  "read_command sys buffer len w =
     (let (input, w) = ulib_read_stdin_char sys w
      in if input = 13 \<or> input = 10 then Some (len, buffer, w)
         else if input = 8 \<or> input = 0x7F then
           if len > 0 then read_command sys buffer (len - 1) (snd (ulib_stdout sys [8, 0x20, 8] w))
           else read_command sys buffer len w
         else if len \<ge> length buffer then read_command sys buffer len w
         else read_command sys (buffer[len := input]) (len + 1) (snd (ulib_stdout sys [input] w)))"

definition execute_from_bin :: "'w os \<Rightarrow> bytes \<Rightarrow> bytes \<Rightarrow> 'w \<Rightarrow> nat \<times> 'w" where
  "execute_from_bin sys program args w =
     (let path_len = length (bstr ''/bin/'') + length program
      in if path_len > 261 then (0, w) else ulib_execute sys (bstr ''/bin/'' @ program) args w)"

definition launch :: "'w os \<Rightarrow> bytes \<Rightarrow> 'w \<Rightarrow> bool \<times> 'w" where
  "launch sys command w =
     (let (program, args) = split_command_line command;
          (pid, w) =
            (if 0x2F \<in> set program then ulib_execute sys program args w
             else
               let (bin_pid, w) = execute_from_bin sys program args w
               in if bin_pid = 0 then ulib_execute sys program args w else (bin_pid, w))
      in if pid = 0 then (False, w) else (True, ulib_wait_for_process sys pid w))"

definition say :: "'w os \<Rightarrow> string \<Rightarrow> 'w \<Rightarrow> 'w" where
  "say sys message w = snd (ulib_stdout sys (bstr message @ [10]) w)"

text \<open>The reaction to a command line that is not empty.\<close>

definition run_command :: "'w os \<Rightarrow> bytes \<Rightarrow> cwd \<Rightarrow> 'w \<Rightarrow> (cwd \<times> 'w) option" where
  "run_command sys command c w =
     (if bytes_start_with command (bstr ''cd '') then
        let path = trim_ascii_spaces (drop 3 command); (ok, w) = ulib_cd sys path w
        in Some (if ok then cwd_update c path else c, w)
      else if bytes_start_with command (bstr ''write '') then
        let bytes = trim_ascii_spaces (drop 6 command);
            (ok, w) = ulib_write_existing_file sys (bstr ''/res/resource.txt'') bytes w
        in Some (c, say sys (if ok then ''Wrote to res/resource.txt'' else ''Failed to write to res/resource.txt'') w)
      else if bytes_start_with command (bstr ''touch '') then
        let path = trim_ascii_spaces (drop 6 command); (fd, w) = ulib_create sys path w
        in Some (c, if fd \<noteq> 0 then say sys ''Created file'' (snd (ulib_close sys fd w)) else say sys ''Could not create file'' w)
      else if bytes_start_with command (bstr ''mkdir '') then
        let (ok, w) = ulib_mkdir sys (trim_ascii_spaces (drop 6 command)) w
        in Some (c, say sys (if ok then ''Created directory'' else ''Could not create directory'') w)
      else if bytes_start_with command (bstr ''unlink '') then
        let (ok, w) = ulib_unlink sys (trim_ascii_spaces (drop 7 command)) w
        in Some (c, say sys (if ok then ''Removed file'' else ''Could not remove file'') w)
      else if bytes_start_with command (bstr ''rmdir '') then
        let (ok, w) = ulib_rmdir sys (trim_ascii_spaces (drop 6 command)) w
        in Some (c, say sys (if ok then ''Removed directory'' else ''Could not remove directory'') w)
      else if command = bstr ''uptime'' then
        let ((ok, timespec), w) = ulib_clock_gettime sys CLOCK_MONOTONIC timespec_zero w
        in if ok then do {
             w \<leftarrow> print_number sys (unat (tv_sec timespec)) (snd (ulib_stdout sys (bstr ''Up for '') w));
             Some (c, say sys ''s'' w)
           }
           else Some (c, say sys ''Could not read the monotonic clock'' w)
      else if command = bstr ''date'' then
        let (unix_time, w) = ulib_time sys w
        in if unix_time \<noteq> 0 then do {
             w \<leftarrow> print_number sys (unat unix_time) (snd (ulib_stdout sys (bstr ''Unix time: '') w));
             Some (c, say sys [] w)
           }
           else Some (c, say sys ''Could not read the wall clock'' w)
      else if bytes_start_with command (bstr ''sleep '') then
        let argument = trim_ascii_spaces (drop 6 command);
            (slept, w) = (case parse_number argument of Some seconds \<Rightarrow> ulib_sleep sys (of_nat seconds) w | None \<Rightarrow> (False, w))
        in Some (c, if slept then w else say sys ''Usage: sleep <seconds>'' w)
      else
        let (ok, w) = launch sys command w
        in Some (c, if ok then w else say sys ''Program or command not found...'' w))"

text \<open>One turn of the main loop, from the prompt to the end of the command.\<close>

definition shell_turn :: "'w os \<Rightarrow> cwd \<Rightarrow> bytes \<Rightarrow> 'w \<Rightarrow> (cwd \<times> bytes \<times> 'w) option" where
  "shell_turn sys c input_buffer w = do {
     let w = print_prompt sys c w;
     (input_len, input_buffer, w) \<leftarrow> read_command sys input_buffer 0 w;
     let w = snd (ulib_stdout sys [10] w);
     if input_len = 0 then Some (c, input_buffer, w)
     else do {
       (c, w) \<leftarrow> run_command sys (take input_len input_buffer) c w;
       Some (c, input_buffer, w)
     }
   }"

section \<open>ls and cat\<close>

fun list_entries :: "'w os \<Rightarrow> dir_entry list \<Rightarrow> 'w \<Rightarrow> 'w" where
  "list_entries sys [] w = w"
| "list_entries sys (entry # entries) w =
     (let w = snd (ulib_stdout sys (if dent_is_directory entry then bstr ''[ DIR ] '' else bstr ''        '') w);
          w = snd (ulib_stdout sys (name_bytes entry) w);
          w = snd (ulib_stdout sys [10] w)
      in list_entries sys entries w)"

text \<open>A count beyond the 32 entries of the buffer would panic.\<close>

definition ls_main :: "'w os \<Rightarrow> 'w \<Rightarrow> 'w option" where
  "ls_main sys w =
     (let ((count, entries), w) = ulib_read_dir sys (replicate 32 dir_entry_empty) w
      in if count \<le> length entries then Some (list_entries sys (take count entries) w) else None)"

partial_function (option) cat_loop :: "'w os \<Rightarrow> nat \<Rightarrow> bytes \<Rightarrow> 'w \<Rightarrow> 'w option" where
  "cat_loop sys fd buffer w =
     (let ((bytes_read, buffer), w) = ulib_read sys fd buffer w
      in if bytes_read = 0 then Some w
         else if bytes_read > length buffer then None
         else cat_loop sys fd buffer (snd (ulib_stdout sys (take bytes_read buffer) w)))"

definition cat_main :: "'w os \<Rightarrow> memory \<Rightarrow> nat \<Rightarrow> nat \<Rightarrow> 'w \<Rightarrow> 'w option" where
  "cat_main sys mem argc argv w = do {
     arg \<leftarrow> args_get mem (args_new argc argv) 1;
     case arg of
       None \<Rightarrow> Some (say sys ''Usage: cat <path>'' w)
     | Some path \<Rightarrow>
         let (fd, w) = ulib_open sys path w
         in if fd = 0 then
              Some (snd (ulib_stdout sys [10] (snd (ulib_stdout sys path (snd (ulib_stdout sys (bstr ''cat: could not open '') w))))))
            else do {
              w \<leftarrow> cat_loop sys fd (replicate 512 0) w;
              Some (snd (ulib_close sys fd w))
            }
   }"

section \<open>Numbers\<close>

lemma parse_number_loop_append:
  "parse_number_loop a (xs @ ys) = parse_number_loop a xs \<bind> (\<lambda>b. parse_number_loop b ys)"
proof (induction xs arbitrary: a)
  case (Cons x xs)
  then show ?case by (cases "checked_mul a 10 \<bind> (\<lambda>n. checked_add n (unat (x - 0x30)))") (auto split: Option.bind_splits)
qed simp

lemma digit_byte:
  assumes "d < 10"
  shows "ascii_digit (0x30 + of_nat d)" "unat (0x30 + of_nat d - 0x30 :: u8) = d"
proof -
  have "unat (0x30 + of_nat d :: u8) = 48 + d"
    using assms by (simp add: unat_word_ariths unsigned_of_nat take_bit_nat_eq_self)
  then show "ascii_digit (0x30 + of_nat d)" using assms by (simp add: ascii_digit_def word_le_nat_alt)
  show "unat (0x30 + of_nat d - 0x30 :: u8) = d" using assms by (simp add: unsigned_of_nat take_bit_nat_eq_self)
qed

lemma parse_digits: "n < usize_bound \<Longrightarrow> parse_number_loop 0 (rev (digits_loop n)) = Some n"
proof (induction n rule: digits_loop.induct)
  case (1 n)
  have d: "n mod 10 < 10" by simp
  have "parse_number_loop (n div 10) [0x30 + of_nat (n mod 10)] = Some n"
    using digit_byte [OF d] 1(2) by (simp add: checked_mul_def checked_add_def)
  note last = this
  show ?case
  proof (cases "n div 10 = 0")
    case True
    then have "digits_loop n = [0x30 + of_nat (n mod 10)]" by (subst digits_loop.simps) simp
    then show ?thesis using last True by (simp only: rev.simps append_Nil)
  next
    case False
    then have "digits_loop n = (0x30 + of_nat (n mod 10)) # digits_loop (n div 10)" by (subst digits_loop.simps) simp
    moreover have "parse_number_loop 0 (rev (digits_loop (n div 10))) = Some (n div 10)" using 1 False by simp
    ultimately show ?thesis using last by (simp only: rev.simps parse_number_loop_append bind.bind_lunit)
  qed
qed

section \<open>The working directory as a list of components\<close>

fun path_components :: "bytes \<Rightarrow> bytes list" where
  "path_components [] = [[]]"
| "path_components (b # bs) = (if b = 0x2F then [] # path_components bs else (b # hd (path_components bs)) # tl (path_components bs))"

fun join_path :: "bytes list \<Rightarrow> bytes" where
  "join_path [] = []"
| "join_path [x] = x"
| "join_path (x # xs) = x @ 0x2F # join_path xs"

definition dir_step :: "bytes \<Rightarrow> bytes list \<Rightarrow> bytes list" where
  "dir_step component cs =
     (if component = [] \<or> component = bstr ''.'' then cs
      else if component = bstr ''..'' then butlast cs
      else if length (join_path (cs @ [component])) \<le> 256 then cs @ [component]
      else cs)"

definition cwd_shows :: "cwd \<Rightarrow> bytes list \<Rightarrow> bool" where
  "cwd_shows c cs \<longleftrightarrow> length (cwd_path c) = 256 \<and> cwd_len c \<le> 256 \<and> take (cwd_len c) (cwd_path c) = join_path cs
     \<and> (\<forall>x \<in> set cs. x \<noteq> [] \<and> 0x2F \<notin> set x)"

lemma path_components_not_Nil [simp]: "path_components p \<noteq> []"
  by (cases p) auto

lemma path_components_split:
  "path_components p = (case split_next_path_component p of (x, None) \<Rightarrow> [x] | (x, Some rest) \<Rightarrow> x # path_components rest)"
proof (induction p)
  case (Cons b bs)
  then show ?case
    by (cases "dropWhile (\<lambda>b. b \<noteq> 0x2F) bs") (simp_all add: split_next_path_component_def del: dropWhile_eq_Nil_conv)
qed (simp add: split_next_path_component_def)

lemma path_components_no_slash: "x \<in> set (path_components p) \<Longrightarrow> 0x2F \<notin> set x"
proof (induction p arbitrary: x)
  case (Cons b bs)
  obtain l ls where ls: "path_components bs = l # ls" by (cases "path_components bs") simp_all
  then show ?case using Cons by (auto split: if_splits)
qed simp

lemma update_loop_fold: "update_loop c p = fold (\<lambda>x c. apply_component c x) (path_components p) c"
proof (induction c p rule: update_loop.induct)
  case (1 c p)
  obtain x r where s: "split_next_path_component p = (x, r)" by fastforce
  show ?case
  proof (cases r)
    case None
    then show ?thesis using s by (subst update_loop.simps, subst path_components_split) simp
  next
    case (Some rest)
    then show ?thesis using s 1 [OF s [symmetric] Some] by (subst update_loop.simps, subst path_components_split) simp
  qed
qed

lemma join_path_snoc: "cs \<noteq> [] \<Longrightarrow> join_path (cs @ [x]) = join_path cs @ 0x2F # x"
  by (induction cs rule: join_path.induct) auto

lemma join_path_empty: "\<forall>x \<in> set cs. x \<noteq> [] \<Longrightarrow> join_path cs = [] \<longleftrightarrow> cs = []"
  by (cases cs rule: join_path.cases) auto

lemma pop_loop_skip: "take n path = pre @ x \<Longrightarrow> n \<le> length path \<Longrightarrow> 0x2F \<notin> set x \<Longrightarrow> pop_loop path n = pop_loop path (length pre)"
proof (induction x arbitrary: n rule: rev_induct)
  case Nil
  then have "length pre = n" by (metis append_Nil2 length_take min.absorb2)
  then show ?case by simp
next
  case (snoc b x)
  then have "length (take n path) = length (pre @ x) + 1" by simp
  then obtain m where m: "n = Suc m" "m = length (pre @ x)" "m < length path" using snoc.prems(2) by auto
  then have "take m path @ [path ! m] = (pre @ x) @ [b]" using snoc.prems(1) by (simp add: take_Suc_conv_app_nth)
  then have "take m path = pre @ x" "path ! m = b" by simp_all
  then show ?case using snoc m by simp
qed

lemma pop_component_shows:
  assumes "cwd_shows c cs"
  shows "cwd_shows (pop_component c) (butlast cs)"
proof (cases cs rule: rev_cases)
  case Nil
  then have "cwd_len c = 0" using assms by (auto simp: cwd_shows_def)
  then show ?thesis using assms Nil by (simp add: cwd_shows_def pop_component_def)
next
  case (snoc ds x)
  have b: "length (cwd_path c) = 256" "cwd_len c \<le> 256" "take (cwd_len c) (cwd_path c) = join_path (ds @ [x])" "0x2F \<notin> set x"
    and ds: "\<forall>y \<in> set ds. y \<noteq> [] \<and> 0x2F \<notin> set y"
    using assms snoc by (auto simp: cwd_shows_def)
  show ?thesis
  proof (cases "ds = []")
    case True
    then have "pop_loop (cwd_path c) (cwd_len c) = 0" using pop_loop_skip [of "cwd_len c" "cwd_path c" "[]" x] b by simp
    then show ?thesis using True b snoc by (simp add: cwd_shows_def pop_component_def)
  next
    case False
    let ?n = "length (join_path ds)"
    have t: "take (cwd_len c) (cwd_path c) = (join_path ds @ [0x2F]) @ x" using b(3) join_path_snoc [OF False] by simp
    then have l: "?n + 1 \<le> cwd_len c" using b(1,2) by (metis One_nat_def append_assoc length_append length_take le_add1 list.size(3,4) min.absorb2 add.commute plus_1_eq_Suc)
    have "take (cwd_len c) (cwd_path c) ! ?n = 0x2F" unfolding t by (simp add: nth_append)
    then have s: "cwd_path c ! ?n = 0x2F" using l by simp
    have "take ?n (take (cwd_len c) (cwd_path c)) = join_path ds" unfolding t by simp
    then have d: "take ?n (cwd_path c) = join_path ds" using l by (simp add: min_def)
    have "pop_loop (cwd_path c) (cwd_len c) = pop_loop (cwd_path c) (length (join_path ds @ [0x2F]))"
      by (rule pop_loop_skip [OF t]) (use b in simp_all)
    also have "\<dots> = Suc ?n" using s by simp
    finally show ?thesis using b l d ds snoc by (simp add: cwd_shows_def pop_component_def)
  qed
qed

lemma push_component_shows:
  assumes "cwd_shows c cs" "x \<noteq> []" "0x2F \<notin> set x"
  shows "cwd_shows (push_component c x) (if length (join_path (cs @ [x])) \<le> 256 then cs @ [x] else cs)"
proof -
  have b: "length (cwd_path c) = 256" "cwd_len c \<le> 256" "take (cwd_len c) (cwd_path c) = join_path cs"
    and cs: "\<forall>y \<in> set cs. y \<noteq> [] \<and> 0x2F \<notin> set y"
    using assms by (auto simp: cwd_shows_def)
  have n: "cwd_len c = length (join_path cs)" using b by (metis length_take min.absorb2)
  have z: "cwd_len c = 0 \<longleftrightarrow> cs = []" using join_path_empty [of cs] cs n by auto
  show ?thesis
  proof (cases "cs = []")
    case True
    then show ?thesis using b z assms by (auto simp: cwd_shows_def push_component_def Let_def overwrite_def)
  next
    case False
    let ?p = "(cwd_path c)[cwd_len c := 0x2F]"
    have j: "join_path (cs @ [x]) = join_path cs @ 0x2F # x" by (rule join_path_snoc [OF False])
    have new: "length (join_path (cs @ [x])) = cwd_len c + 1 + length x" using n j by simp
    show ?thesis
    proof (cases "cwd_len c + 1 + length x \<le> 256")
      case True
      have "take (cwd_len c + 1) ?p = join_path cs @ [0x2F]"
        using True b by (simp add: take_Suc_conv_app_nth)
      then have "take (cwd_len c + 1 + length x) (overwrite ?p (cwd_len c + 1) x) = join_path cs @ 0x2F # x"
        using True n by (simp add: overwrite_def)
      then show ?thesis using True b z False cs assms new j
        by (simp add: cwd_shows_def push_component_def Let_def del: join_path.simps)
    next
      case full: False
      then have "push_component c x = c" using b z False by (simp add: push_component_def Let_def)
      then show ?thesis using full new assms(1) by simp
    qed
  qed
qed

lemma apply_component_shows:
  "cwd_shows c cs \<Longrightarrow> 0x2F \<notin> set x \<Longrightarrow> cwd_shows (apply_component c x) (dir_step x cs)"
  using pop_component_shows push_component_shows by (simp add: apply_component_def dir_step_def)

lemma fold_component_shows:
  "cwd_shows c cs \<Longrightarrow> \<forall>x \<in> set xs. 0x2F \<notin> set x \<Longrightarrow> cwd_shows (fold (\<lambda>x c. apply_component c x) xs c) (fold dir_step xs cs)"
  by (induction xs arbitrary: c cs) (simp_all add: apply_component_shows)

lemma cwd_root_shows: "cwd_shows c cs \<Longrightarrow> cwd_shows (c\<lparr>cwd_len := 0\<rparr>) []"
  by (simp add: cwd_shows_def)

section \<open>Properties\<close>

text \<open>
  C19.  The prompt follows the directory.  The fixed buffer with the working directory of the prompt
  always shows a list of components joined by slashes, and after an update with any path it shows the
  list that the components of the path give one after the other: an absolute path starts at the root,
  an empty component and a dot change nothing, two dots remove the last component, and any other name is
  appended if the result fits into 256 bytes and dropped otherwise.
\<close>

theorem cwd_update_refines:
  assumes "cwd_shows c cs"
  shows "cwd_shows (cwd_update c path)
    (let p = trim_ascii_spaces path
     in if p = bstr ''/'' \<or> p = bstr ''~'' then []
        else fold dir_step (path_components p) (if bytes_start_with p (bstr ''/'') then [] else cs))"
proof -
  have "\<forall>x \<in> set (path_components p). 0x2F \<notin> set x" for p using path_components_no_slash by blast
  then show ?thesis using assms
    by (simp add: cwd_update_def Let_def update_loop_fold fold_component_shows cwd_root_shows)
qed

theorem cwd_update_refines_witness:
  "cwd_shows (cwd_update cwd_new (bstr '' /res/../bin '')) [bstr ''bin'']"
proof -
  have n: "cwd_shows cwd_new []" by (simp add: cwd_shows_def cwd_new_def)
  have "(let p = trim_ascii_spaces (bstr '' /res/../bin '')
     in if p = bstr ''/'' \<or> p = bstr ''~'' then []
        else fold dir_step (path_components p) (if bytes_start_with p (bstr ''/'') then [] else [])) = [bstr ''bin'']"
    by (simp add: bstr_def trim_ascii_spaces_def ascii_space_def bytes_start_with_def dir_step_def Let_def)
  then show ?thesis using cwd_update_refines [OF n, of "bstr '' /res/../bin ''"] by (simp only:)
qed

text \<open>
  Numbers survive printing and reading: for every 64-bit number the printing loop stays inside its
  array of twenty digits, and the reader turns the digits it prints back into the number.
\<close>

lemma print_parse_number:
  assumes "n < usize_bound"
  shows "print_number sys n w = Some (put_bytes sys (rev (digits_loop n)) w) \<and> parse_number (rev (digits_loop n)) = Some n"
  using parse_digits [OF assms] usize_digits [OF assms]
  by (auto simp: print_number_def parse_number_def Let_def) (metis digits_loop.simps list.discI)

text \<open>
  The duration of a sleep: the sleep command asks the kernel for exactly the given number of seconds
  as long as the milliseconds fit into a signed 64-bit number.  Beyond that the product wraps around: a
  sleep of 18446744073709552 seconds, which the command accepts, asks for 384 milliseconds.
\<close>

lemma sleep_seconds_exact:
  "(n * 1000 < 2 ^ 63 \<longrightarrow> from_milliseconds (of_nat n * 1000) = \<lparr> tv_sec = of_nat n, tv_nsec = 0 \<rparr>)
   \<and> from_milliseconds (of_nat 18446744073709552 * 1000) = \<lparr> tv_sec = 0, tv_nsec = 384000000 \<rparr>
   \<and> parse_number (bstr ''18446744073709552'') = Some 18446744073709552"
proof (intro conjI impI)
  assume n: "n * 1000 < 2 ^ 63"
  have "(of_nat n * 1000 :: u64) = of_nat (n * 1000)" by simp
  moreover have "sint (of_nat (n * 1000) :: u64) = int (n * 1000)"
    using n by (simp only: signed_of_nat) (simp add: signed_take_bit_int_eq_self)
  ultimately have s: "sint (of_nat n * 1000 :: u64) = int n * 1000" by simp
  show "from_milliseconds (of_nat n * 1000) = \<lparr> tv_sec = of_nat n, tv_nsec = 0 \<rparr>"
    by (cases "n = 0") (simp_all add: from_milliseconds_def i64_div_def i64_mod_def s signed_divide_int_def signed_modulo_int_def)
next
  show "from_milliseconds (of_nat 18446744073709552 * 1000) = \<lparr> tv_sec = 0, tv_nsec = 384000000 \<rparr>"
    by (simp add: from_milliseconds_def i64_div_def i64_mod_def signed_divide_int_def signed_modulo_int_def)
next
  show "parse_number (bstr ''18446744073709552'') = Some 18446744073709552"
    by (simp add: parse_number_def bstr_def ascii_digit_def checked_mul_def checked_add_def usize_bound_def)
qed

end
