(* ===== verification/Spec2Isabelle.thy ===== *)
theory Spec2Isabelle
  imports Prelude Rust_Str Fat_Names Fat_Table Fat_Dir Fat_Volume Fat_Files Fat_Contents
    Heap Paths Elf_Loader Clock Frames Paging Paging_Walk Paging_Map
    Process Elf_Map Kernel Scheduler Syscalls Ahci Ahci_Dma Ulib Editor Shell
begin

text \<open>
  Verification of the operating system bubble-os: its kernel (\<open>src/src\<close>, Rust for x86-64) and the
  programs that run on it (\<open>src/userspace\<close>).

  \<^bold>\<open>The system.\<close>  The kernel runs processes in ring 3, each with its own page table, and schedules them
  round robin on timer interrupts.  A process enters the kernel through \<open>int 0x80\<close>; the system calls
  copy from and to user memory after checking the page tables, and work on files of a FAT32 volume that
  is read and written through an AHCI port.  Programs are ELF files; their segments are mapped into a
  fresh address space whose stack holds the arguments.  The kernel allocates from a linked-list heap,
  page frames from a bump allocator, and page tables from slots of a fixed region; tables of other
  address spaces are reached through one temporary mapping.

  \<^bold>\<open>Conventions.\<close>  The kernel is built with overflow checks: a \<open>usize\<close> is a \<open>nat\<close> with checked
  arithmetic, and fields of fixed width are words.  The user programs are built without these checks,
  so their 64-bit time values are words that wrap around.  A function that may panic, fault or run
  forever returns an \<open>option\<close> whose \<open>None\<close> means that the call does not return; an \<open>Option\<close> of the source
  is the \<open>option\<close> inside.  Code outside the sources is a parameter: the disk behind the file system
  (\<open>fs_env\<close> with the hypotheses \<open>device_laws\<close> and \<open>reliable\<close>), the processor's translation of addresses
  (\<open>mmu\<close> with the hypothesis \<open>walks_four_levels\<close>), the CMOS clock, the registers of the disk controller
  (\<open>hba_env\<close>), Unicode case mapping, and for user programs the kernel behind a system call (\<open>os\<close>).

  \<^bold>\<open>Theories.\<close>

  \<^item> \<open>Prelude\<close>, \<open>Rust_Str\<close>: machine integers, checked arithmetic, byte encodings, windows of buffers and
    memory; UTF-8, UTF-16 and the operations on \<open>str\<close> that the sources use.

  \<^item> \<open>Fat_Names\<close> (\<open>fs/fat.rs\<close>): boot sector and directory entries with their byte layout, short and long
    names.  Round trip of short names and freshness of generated aliases.
    \<open>Fat_Table\<close>, \<open>Fat_Dir\<close>, \<open>Fat_Volume\<close>, \<open>Fat_Files\<close> (\<open>fs/fat_fs.rs\<close>): the allocation table, the parsing of
    directories, access to clusters, and files and directories with all rollbacks.  Allocation is exact
    and undone by release, releasing ends on every table, created names are listed and deleted ones
    vanish, tables and entries survive a remount.  \<open>Fat_Contents\<close>: reading returns what writing and
    truncating put there, and a failing write stays inside its file.  The locale \<open>chain_allocator\<close> is the
    interface between the table and its clients.

  \<^item> \<open>Paths\<close> (\<open>fs/fs.rs\<close>): normalisation and lookup of paths.

  \<^item> \<open>Heap\<close> (\<open>mem/heap.rs\<close>): the heap with its headers in memory; live allocations never overlap and
    every operation returns.

  \<^item> \<open>Frames\<close> (\<open>mem/page_frame.rs\<close>, \<open>mem/simple_page_frame_allocator.rs\<close>, \<open>mem/paging/mod.rs\<close>): frames, pages
    and table indices, and the frame allocator with its locale \<open>page_frame_allocator\<close>.
    \<open>Paging\<close> (\<open>mem/paging\<close>, \<open>mem/mod.rs\<close>, \<open>mem/stack_allocator.rs\<close>): entries, the slot allocator, the
    temporary mapping, walking, mapping, unmapping and releasing tables, stacks and the memory
    controller.  \<open>Paging_Walk\<close> relates the software walk to the walk of the processor; \<open>Paging_Map\<close> shows
    what mapping and unmapping do to the processor's translation.

  \<^item> \<open>Elf_Loader\<close>, \<open>Elf_Map\<close> (\<open>elf\<close>): parsing and checking of files, the argument frame, and the address
    space of a program with the branches that give up.

  \<^item> \<open>Clock\<close> (\<open>time/mod.rs\<close>, \<open>arch/x86_64/rtc.rs\<close>): ticks, clocks, sleeping and the calendar.

  \<^item> \<open>Process\<close> (\<open>scheduling/process.rs\<close>, \<open>arch/x86_64/registers.rs\<close>): descriptors and the checked copies from
    and to user memory.  \<open>Kernel\<close> (\<open>scheduling/mod.rs\<close>, \<open>timer_isr.rs\<close>, \<open>trampoline.rs\<close>): the state \<open>kernel\<close> and
    the operations of the scheduler.  \<open>Scheduler\<close>: its refinement of a queue served in rotation, fairness,
    and the invariant \<open>sched_inv\<close>.  \<open>Syscalls\<close> (\<open>syscall\<close>, \<open>arch/x86_64/idt.rs\<close>): the seventeen system calls, the
    dispatcher, runs of the kernel over any sequence of interrupts, and results.

  \<^item> \<open>Ahci\<close>, \<open>Ahci_Dma\<close> (\<open>ahci\<close>): commands, descriptor tables and ports of the disk controller; the
    descriptors name exactly the bytes of the buffer.  The locale \<open>dma_space\<close> is the interface between the
    descriptor loops and the memory controller.

  \<^item> \<open>Ulib\<close>, \<open>Editor\<close>, \<open>Shell\<close> (\<open>src/userspace\<close>): the user library, the text editor with its refinement of a
    text and a position, the shell with its prompt, \<open>ls\<close> and \<open>cat\<close>.

  \<^bold>\<open>Bounds.\<close>  Loops of the source that may not end are \<open>partial_function (option)\<close> without a bound.  The
  scheduler's search takes as many passes as there are processes, which visits each once.  The slot
  allocator extends its region by allocating slots again; the model follows this one level deep
  (\<open>slot_alloc_depth\<close>), and a deeper nesting is \<open>None\<close>, so nothing is claimed about it.  Releasing a cluster
  chain is bounded by the length of the table, as in the source.  The wait for the disk spins a million times,
  as in the source.

  \<^bold>\<open>Not modelled.\<close>  Boot assembly, descriptor tables and the interrupt controller, memory
  initialisation from the multiboot structures, ACPI and PCI enumeration, the network driver and the
  console are hardware set-up or pure input and output through code outside the sources.  The kernel
  runs with interrupts off and one processor, so locks are not modelled; neither is logging.  FIS kinds
  and header bits of the disk controller that the driver does not use are left out.  The file system
  takes the disk as a parameter: the laws it assumes of a port are not derived from \<open>Ahci\<close>, because
  they rest on the behaviour of the device.
\<close>

end
